(* ===== verification/Prelude.thy ===== *)
theory Prelude
  imports Main "HOL-Library.Word"
begin

text \<open>
  Shared ground of the development: bytes and C strings, the outcomes a run of the C code
  can have, the state-and-outcome type in which every stateful function is written, and
  the generic facts on it. \<open>run_simps\<close> collects the equations that execute a program on
  a state, \<open>keep_rules\<close> the rules that push an invariant through a program.
\<close>

named_theorems run_simps "equations that run a program on a state"
named_theorems keep_rules "rules that push an invariant through a program"

section \<open>Bytes and C strings\<close>

type_synonym byte = "8 word"

text \<open>A C string is the list of its bytes before the terminating NUL.\<close>

type_synonym cstr = "byte list"

definition cs :: "string \<Rightarrow> cstr" where
  "cs x = map of_char x"

text \<open>\<open>strlen\<close> stops at the first NUL: the string that starts a memory area.\<close>

definition c_str :: "byte list \<Rightarrow> cstr" where
  "c_str bs = takeWhile (\<lambda>b. b \<noteq> 0) bs"

definition is_cstr :: "byte list \<Rightarrow> bool" where
  "is_cstr bs = list_all (\<lambda>b. b \<noteq> 0) bs"

text \<open>The conversion of a size to \<open>uint8_t\<close>.\<close>

definition u8 :: "nat \<Rightarrow> byte" where
  "u8 n = of_nat n"

lemma unat_u8: "unat (u8 n) = n mod 256"
  by (simp add: u8_def unat_of_nat)

lemma unat_u8_small [simp]: "n < 256 \<Longrightarrow> unat (u8 n) = n"
  by (simp add: unat_u8)

lemma unat_u8_le: "unat (u8 n) \<le> n"
  by (simp add: unat_u8)

lemma unat_byte_less [simp]: "unat (b :: byte) < 256"
  using unsigned_less [of b] by simp

lemma u8_unat [simp]: "u8 (unat b) = b"
  by (simp add: u8_def)

lemma length_cs [simp]: "length (cs x) = length x"
  by (simp add: cs_def)

lemma c_str_id [simp]: "is_cstr bs \<Longrightarrow> c_str bs = bs"
  by (auto simp: is_cstr_def c_str_def list_all_iff intro: takeWhile_eq_all_conv [THEN iffD2])

lemma is_cstr_c_str [simp]: "is_cstr (c_str bs)"
  by (auto simp: is_cstr_def c_str_def list_all_iff dest: set_takeWhileD)

lemma length_c_str: "length (c_str bs) \<le> length bs"
  by (simp add: c_str_def length_takeWhile_le)

lemma is_cstr_append [simp]: "is_cstr (xs @ ys) = (is_cstr xs \<and> is_cstr ys)"
  by (simp add: is_cstr_def)

lemma is_cstr_Nil [simp]: "is_cstr []"
  by (simp add: is_cstr_def)

lemma is_cstr_Cons [simp]: "is_cstr (b # bs) = (b \<noteq> 0 \<and> is_cstr bs)"
  by (simp add: is_cstr_def)

section \<open>Outcomes\<close>

text \<open>
  A run either returns or stops. It stops at undefined behaviour, at a failed
  \<open>assert\<close>, at \<open>exit\<close>, when SIGPIPE kills the process, or in a loop that never ends.
\<close>

datatype ub =
    NullDeref      \<comment> \<open>a null pointer is dereferenced\<close>
  | UseAfterFree   \<comment> \<open>freed memory is read or written\<close>
  | DoubleFree     \<comment> \<open>freed memory is freed again\<close>
  | OutOfBounds    \<comment> \<open>memory outside an object is read or written\<close>
  | Uninit         \<comment> \<open>a string is read from memory nothing has been written to\<close>
  | BadVarargs     \<comment> \<open>a format asks for more arguments than the call has\<close>
  | SignedOverflow \<comment> \<open>an \<open>int\<close> result is out of range\<close>

datatype stop = UB ub | AssertFail | Exit int | Sigpipe | Diverges

type_synonym ('s, 'a) prog = "'s \<Rightarrow> (stop + 'a) \<times> 's"

definition ret :: "'a \<Rightarrow> ('s, 'a) prog" where
  "ret a = (\<lambda>s. (Inr a, s))"

definition halt :: "stop \<Rightarrow> ('s, 'a) prog" where
  "halt e = (\<lambda>s. (Inl e, s))"

definition bnd :: "('s, 'a) prog \<Rightarrow> ('a \<Rightarrow> ('s, 'b) prog) \<Rightarrow> ('s, 'b) prog" where
  "bnd m f = (\<lambda>s. case m s of (r, t) \<Rightarrow> (case r of Inl e \<Rightarrow> (Inl e, t) | Inr a \<Rightarrow> f a t))"

definition seq :: "('s, 'a) prog \<Rightarrow> ('s, 'b) prog \<Rightarrow> ('s, 'b) prog" where
  "seq m k = bnd m (\<lambda>_. k)"

definition gets :: "('s \<Rightarrow> 'a) \<Rightarrow> ('s, 'a) prog" where
  "gets f = (\<lambda>s. (Inr (f s), s))"

definition modify :: "('s \<Rightarrow> 's) \<Rightarrow> ('s, unit) prog" where
  "modify f = (\<lambda>s. (Inr (), f s))"

primrec for_list :: "'x list \<Rightarrow> ('x \<Rightarrow> ('s, unit) prog) \<Rightarrow> ('s, unit) prog" where
  "for_list [] body = ret ()"
| "for_list (x # xs) body = seq (body x) (for_list xs body)"

text \<open>Run a program on a component of the state.\<close>

definition zoom :: "('s \<Rightarrow> 't) \<Rightarrow> ('t \<Rightarrow> 's \<Rightarrow> 's) \<Rightarrow> ('t, 'a) prog \<Rightarrow> ('s, 'a) prog" where
  "zoom getf putf m = (\<lambda>s. case m (getf s) of (r, t) \<Rightarrow> (r, putf t s))"

text \<open>Run a program on a local variable; the result is the variable's new value.\<close>

definition local_run :: "'t \<Rightarrow> ('t, 'a) prog \<Rightarrow> ('s, 't) prog" where
  "local_run t m = (\<lambda>s. case m t of (r, t') \<Rightarrow>
     (case r of Inl e \<Rightarrow> (Inl e, s) | Inr _ \<Rightarrow> (Inr t', s)))"

lemma bnd_run [run_simps]:
  "bnd m f s = (case m s of (r, t) \<Rightarrow> (case r of Inl e \<Rightarrow> (Inl e, t) | Inr a \<Rightarrow> f a t))"
  by (simp add: bnd_def)

lemma seq_run [run_simps]:
  "seq m k s = (case m s of (r, t) \<Rightarrow> (case r of Inl e \<Rightarrow> (Inl e, t) | Inr a \<Rightarrow> k t))"
  by (simp add: seq_def bnd_def)

lemma ret_run [simp, run_simps]: "ret a s = (Inr a, s)"
  by (simp add: ret_def)

lemma halt_run [simp, run_simps]: "halt e s = (Inl e, s)"
  by (simp add: halt_def)

lemma gets_run [simp, run_simps]: "gets f s = (Inr (f s), s)"
  by (simp add: gets_def)

lemma modify_run [simp, run_simps]: "modify f s = (Inr (), f s)"
  by (simp add: modify_def)

lemma zoom_run [run_simps]: "zoom getf putf m s = (case m (getf s) of (r, t) \<Rightarrow> (r, putf t s))"
  by (simp add: zoom_def)

lemma local_run_run [run_simps]:
  "local_run t m s = (case m t of (r, t') \<Rightarrow>
     (case r of Inl e \<Rightarrow> (Inl e, s) | Inr _ \<Rightarrow> (Inr t', s)))"
  by (simp add: local_run_def)

lemma bnd_Inr: "m s = (Inr a, t) \<Longrightarrow> bnd m f s = f a t"
  by (simp add: bnd_run)

lemma bnd_Inl: "m s = (Inl e, t) \<Longrightarrow> bnd m f s = (Inl e, t)"
  by (simp add: bnd_run)

lemma seq_Inr: "m s = (Inr a, t) \<Longrightarrow> seq m k s = k t"
  by (simp add: seq_run)

lemma seq_Inl: "m s = (Inl e, t) \<Longrightarrow> seq m k s = (Inl e, t)"
  by (simp add: seq_run)

text \<open>The laws of sequencing.\<close>

lemma bnd_ret: "bnd p ret = p" "bnd (ret x) f = f x"
  by (simp_all add: fun_eq_iff bnd_run split: prod.splits sum.splits)

lemma seq_ret: "seq (ret x) p = p"
  by (simp add: fun_eq_iff seq_run)

lemma bnd_assoc: "bnd (bnd m f) g = bnd m (\<lambda>x. bnd (f x) g)"
  by (simp add: fun_eq_iff bnd_run split: prod.splits sum.splits)

lemma bnd_seq: "bnd (seq m k) g = seq m (bnd k g)"
  by (simp add: seq_def bnd_assoc)

lemmas prog_laws = bnd_ret seq_ret bnd_assoc bnd_seq

text \<open>A successful sequence splits into its two successful parts.\<close>

lemma bnd_InrE:
  assumes "bnd m f s = (Inr b, u)"
  obtains a t where "m s = (Inr a, t)" and "f a t = (Inr b, u)"
  using assms by (auto simp: bnd_run split: prod.splits sum.splits)

lemma seq_InrE:
  assumes "seq m k s = (Inr b, u)"
  obtains a t where "m s = (Inr a, t)" and "k t = (Inr b, u)"
  using assms by (auto simp: seq_run split: prod.splits sum.splits)

text \<open>A run that has been evaluated and has not stopped.\<close>

lemma run_evaluated: "isl (fst r) = False \<Longrightarrow> \<exists>a. r = (Inr a, snd r)"
  by (cases r; cases "fst r") auto

lemma run_evaluated_unit: "isl (fst r) = False \<Longrightarrow> r = (Inr (), snd r)"
  by (cases r; cases "fst r") auto

lemma for_list_append:
  "for_list (xs @ ys) body = seq (for_list xs body) (for_list ys body)"
  by (induction xs) (auto simp: seq_def bnd_def ret_def fun_eq_iff split: prod.splits sum.splits)

section \<open>Invariants\<close>

text \<open>\<open>keeps P m\<close>: \<open>m\<close> leads from states with \<open>P\<close> to states with \<open>P\<close>, whatever its outcome.\<close>

definition keeps :: "('s \<Rightarrow> bool) \<Rightarrow> ('s, 'a) prog \<Rightarrow> bool" where
  "keeps P m \<longleftrightarrow> (\<forall>s. P s \<longrightarrow> P (snd (m s)))"

lemma keepsI: "(\<And>s. P s \<Longrightarrow> P (snd (m s))) \<Longrightarrow> keeps P m"
  by (simp add: keeps_def)

lemma keepsD: "keeps P m \<Longrightarrow> P s \<Longrightarrow> m s = (r, t) \<Longrightarrow> P t"
  by (metis keeps_def snd_conv)

lemma keeps_ret [keep_rules]: "keeps P (ret a)"
  by (simp add: keeps_def)

lemma keeps_halt [keep_rules]: "keeps P (halt e)"
  by (simp add: keeps_def)

lemma keeps_gets [keep_rules]: "keeps P (gets f)"
  by (simp add: keeps_def)

lemma keeps_bnd [keep_rules]: "keeps P m \<Longrightarrow> (\<And>a. keeps P (f a)) \<Longrightarrow> keeps P (bnd m f)"
  unfolding keeps_def bnd_def by (auto split: prod.splits sum.splits)

lemma keeps_seq [keep_rules]: "keeps P m \<Longrightarrow> keeps P k \<Longrightarrow> keeps P (seq m k)"
  by (simp add: seq_def keeps_bnd)

lemma keeps_if [keep_rules]:
  "(b \<Longrightarrow> keeps P m) \<Longrightarrow> (\<not> b \<Longrightarrow> keeps P k) \<Longrightarrow> keeps P (if b then m else k)"
  by simp

lemma keeps_for_list [keep_rules]: "(\<And>x. keeps P (body x)) \<Longrightarrow> keeps P (for_list xs body)"
  by (induction xs) (auto intro: keep_rules)

lemma keeps_case_option [keep_rules]:
  "keeps P m \<Longrightarrow> (\<And>x. keeps P (f x)) \<Longrightarrow> keeps P (case z of None \<Rightarrow> m | Some x \<Rightarrow> f x)"
  by (simp split: option.splits)

lemma keeps_case_sum [keep_rules]:
  "(\<And>x. keeps P (f x)) \<Longrightarrow> (\<And>x. keeps P (g x)) \<Longrightarrow>
   keeps P (case z of Inl x \<Rightarrow> f x | Inr x \<Rightarrow> g x)"
  by (simp split: sum.splits)

lemma keeps_case_prod [keep_rules]:
  "(\<And>a b. keeps P (f a b)) \<Longrightarrow> keeps P (case z of (a, b) \<Rightarrow> f a b)"
  by (simp split: prod.splits)

lemma keeps_local_run [keep_rules]: "keeps P (local_run t m)"
  by (auto simp: keeps_def local_run_def split: prod.splits sum.splits)

lemma keeps_modify: "(\<And>s. P s \<Longrightarrow> P (f s)) \<Longrightarrow> keeps P (modify f)"
  by (simp add: keeps_def)

lemma keeps_zoom: "(\<And>s t. P s \<Longrightarrow> P (putf t s)) \<Longrightarrow> keeps P (zoom getf putf m)"
  by (auto simp: keeps_def zoom_def split: prod.splits)

text \<open>\<open>gives P Q m\<close>: \<open>m\<close> keeps \<open>P\<close>, and what it returns has \<open>Q\<close>.\<close>

definition gives :: "('s \<Rightarrow> bool) \<Rightarrow> ('a \<Rightarrow> bool) \<Rightarrow> ('s, 'a) prog \<Rightarrow> bool" where
  "gives P Q m \<longleftrightarrow> keeps P m \<and> (\<forall>s a t. P s \<longrightarrow> m s = (Inr a, t) \<longrightarrow> Q a)"

lemma givesI:
  "keeps P m \<Longrightarrow> (\<And>s a t. P s \<Longrightarrow> m s = (Inr a, t) \<Longrightarrow> Q a) \<Longrightarrow> gives P Q m"
  by (auto simp: gives_def)

lemma gives_keeps: "gives P Q m \<Longrightarrow> keeps P m"
  by (simp add: gives_def)

lemma keeps_bnd_gives: "gives P Q m \<Longrightarrow> (\<And>a. Q a \<Longrightarrow> keeps P (f a)) \<Longrightarrow> keeps P (bnd m f)"
  unfolding gives_def keeps_def bnd_def by (fastforce split: prod.splits sum.splits)

lemma keeps_bnd_pair:
  "gives P Q m \<Longrightarrow> (\<And>a b. Q (a, b) \<Longrightarrow> keeps P (f a b)) \<Longrightarrow> keeps P (bnd m (\<lambda>(a, b). f a b))"
  by (rule keeps_bnd_gives [where Q = Q]) auto

lemma gives_bnd: "gives P R m \<Longrightarrow> (\<And>a. R a \<Longrightarrow> gives P Q (f a)) \<Longrightarrow> gives P Q (bnd m f)"
  unfolding gives_def keeps_def bnd_def
  by (fastforce split: prod.splits sum.splits)

lemma gives_bnd_keeps: "keeps P m \<Longrightarrow> (\<And>a. gives P Q (f a)) \<Longrightarrow> gives P Q (bnd m f)"
  by (rule gives_bnd [where R = "\<lambda>_. True"]) (simp_all add: gives_def)

lemma gives_ret: "Q a \<Longrightarrow> gives P Q (ret a)"
  by (simp add: gives_def keeps_ret)

lemma gives_halt: "gives P Q (halt e)"
  by (simp add: gives_def keeps_halt)

lemma gives_if:
  "(b \<Longrightarrow> gives P Q m) \<Longrightarrow> (\<not> b \<Longrightarrow> gives P Q k) \<Longrightarrow> gives P Q (if b then m else k)"
  by simp

section \<open>Successful runs\<close>

text \<open>The invariant matters where a run returns: a run that stops ends the process.\<close>

definition maintains :: "('s \<Rightarrow> bool) \<Rightarrow> ('s, 'a) prog \<Rightarrow> bool" where
  "maintains P m \<longleftrightarrow> (\<forall>s a t. P s \<longrightarrow> m s = (Inr a, t) \<longrightarrow> P t)"

named_theorems maintain_rules "rules that push an invariant through runs that return"

lemma maintains_keeps: "keeps P m \<Longrightarrow> maintains P m"
  unfolding maintains_def keeps_def by (metis snd_conv)

lemma maintainsD: "maintains P m \<Longrightarrow> P s \<Longrightarrow> m s = (Inr a, t) \<Longrightarrow> P t"
  by (auto simp: maintains_def)

lemma maintains_halt [maintain_rules]: "maintains P (halt e)"
  by (simp add: maintains_def)

lemma maintains_bnd [maintain_rules]:
  "maintains P m \<Longrightarrow> (\<And>a. maintains P (f a)) \<Longrightarrow> maintains P (bnd m f)"
  unfolding maintains_def by (intro allI impI, elim bnd_InrE) blast

lemma maintains_seq [maintain_rules]: "maintains P m \<Longrightarrow> maintains P k \<Longrightarrow> maintains P (seq m k)"
  unfolding maintains_def by (intro allI impI, elim seq_InrE) blast

lemma maintains_if [maintain_rules]:
  "(b \<Longrightarrow> maintains P m) \<Longrightarrow> (\<not> b \<Longrightarrow> maintains P k) \<Longrightarrow> maintains P (if b then m else k)"
  by simp

lemma maintains_case_prod [maintain_rules]:
  "(\<And>a b. maintains P (f a b)) \<Longrightarrow> maintains P (case z of (a, b) \<Rightarrow> f a b)"
  by (simp split: prod.splits)

lemma maintains_exit: "(\<And>s a t. m s \<noteq> (Inr a, t)) \<Longrightarrow> maintains P m"
  by (simp add: maintains_def)

section \<open>Packet memory\<close>

text \<open>
  The memory a packet is built in: its size and the bytes written so far. The write
  pointer of the code is the number of these bytes.
\<close>

datatype pbuf = PBuf (pcap: nat) (pbytes: "byte list")

section \<open>Little-endian 32-bit lengths\<close>

text \<open>A \<open>uint32_t\<close> is copied with \<open>memcpy\<close>: its four bytes in the (little-endian) host order.\<close>

definition le32 :: "nat \<Rightarrow> byte list" where
  "le32 n = [of_nat n, of_nat (n div 256), of_nat (n div 65536), of_nat (n div 16777216)]"

fun un_le32 :: "byte list \<Rightarrow> nat" where
  "un_le32 [] = 0"
| "un_le32 (b # bs) = unat b + 256 * un_le32 bs"

lemma length_le32 [simp]: "length (le32 n) = 4"
  by (simp add: le32_def)

lemma un_le32_le32:
  assumes n: "n < 2 ^ 32"
  shows "un_le32 (le32 n) = n"
proof -
  define a b c where "a = n div 256" and "b = a div 256" and "c = b div 256"
  have abc: "n div 65536 = b" "n div 16777216 = c"
    by (simp_all add: a_def b_def c_def div_mult2_eq [symmetric])
  have c: "c < 256"
    using n by (simp add: a_def b_def c_def div_mult2_eq [symmetric] less_mult_imp_div_less)
  have "un_le32 (le32 n) = n mod 256 + 256 * (a mod 256 + 256 * (b mod 256 + 256 * c))"
    using c by (simp add: le32_def unat_of_nat abc a_def)
  also have "\<dots> = n mod 256 + 256 * a"
    by (simp only: c_def b_def mod_mult_div_eq)
  also have "\<dots> = n"
    by (simp only: a_def mod_mult_div_eq)
  finally show ?thesis .
qed

lemma un_le32_bound: "un_le32 bs < 256 ^ length bs"
proof (induction bs)
  case Nil
  then show ?case by simp
next
  case (Cons b bs)
  have "un_le32 bs + 1 \<le> 256 ^ length bs" using Cons by simp
  then have "256 * (un_le32 bs + 1) \<le> 256 * 256 ^ length bs" by (rule mult_le_mono2)
  with unat_byte_less [of b] show ?case
    by (simp del: unat_byte_less)
qed

end
