(* ===== verification/Os_Model.thy ===== *)
theory Os_Model
  imports Prelude
begin

text \<open>
  The operating system as the C code sees it: what each descriptor will deliver, how each
  system call answers, the addresses of the sockets, the files, and the effects so far.
  The answers are data of the state, so a theorem over all states is a theorem over all
  behaviours of the network and of the kernel. Every process state of the development
  (the servent, the user application) extends the record \<open>os\<close>.
\<close>

section \<open>The state\<close>

text \<open>
  What \<open>read\<close> will find on a descriptor: runs of bytes as they arrive and failing calls.
  The end of the list, and an empty run, are the end of the stream.
\<close>

datatype rd = Chunk "byte list" | RdErr

text \<open>How a \<open>write\<close> answers: it accepts at most \<open>n + 1\<close> bytes, it fails, or it raises SIGPIPE.\<close>

datatype wr = Accepts nat | WrErr | WrPipe

text \<open>The other system calls whose results the code looks at.\<close>

datatype sysc =
    Poll int | Revents int | AcceptCall int | Errno
  | SocketCall | ConnectCall | SetsockoptCall | BindCall | ListenCall
  | RandCall | ForkCall | OpenCall | PipeCall | OpendirCall

text \<open>
  A \<open>sockaddr_storage\<close> after \<open>getpeername\<close> or \<open>getsockname\<close>: the text \<open>inet_ntop\<close>
  makes of the address, and the port. Any other content of the family field, the one
  left there by a failed call included, is \<open>OtherFamily\<close>.
\<close>

datatype sockaddr = Inet cstr "16 word" | Inet6 cstr "16 word" | OtherFamily

text \<open>
  One result of \<open>getaddrinfo\<close>: what \<open>getnameinfo\<close> makes of it (\<open>None\<close>: it fails). The
  resolver takes a node (\<open>None\<close> for NULL) and a port, and gives the results or the text of
  \<open>gai_strerror\<close>.
\<close>

type_synonym addrinfo = "(cstr \<times> cstr) option"

datatype event =
    Wrote int "byte list"   \<comment> \<open>bytes accepted by \<open>write\<close> on a descriptor\<close>
  | Closed int
  | Printed "byte list"     \<comment> \<open>output of \<open>printf\<close>\<close>
  | Logged int "byte list"  \<comment> \<open>output of the log on \<open>stdout\<close> (1) or \<open>stderr\<close> (2)\<close>
  | Slept int
  | SigintParent            \<comment> \<open>\<open>kill(getppid(), SIGINT)\<close>\<close>
  | SigintServer            \<comment> \<open>\<open>kill(server_pid, SIGINT)\<close>\<close>
  | WaitedServer            \<comment> \<open>\<open>waitpid(server_pid, ...)\<close> has returned\<close>
  | Redirected int int      \<comment> \<open>\<open>dup2\<close> of a descriptor onto \<open>stdout\<close> (1) or \<open>stderr\<close> (2)\<close>
  | MadeDirectory           \<comment> \<open>\<open>mkdir\<close> of the search directory\<close>

record os =
  rx :: "int \<Rightarrow> rd list"
  wx :: "int \<Rightarrow> wr list"
  script :: "sysc \<Rightarrow> int list"
  junk :: "byte list"
  peername :: "int \<Rightarrow> sockaddr"
  sockname :: "int \<Rightarrow> sockaddr"
  resolver :: "cstr option \<Rightarrow> cstr \<Rightarrow> cstr + addrinfo list"
  files :: "(cstr \<times> byte list) list"
  evs :: "event list"

type_synonym ('z, 'a) osprog = "('z os_scheme, 'a) prog"

section \<open>System calls\<close>

definition emit :: "event \<Rightarrow> ('z, unit) osprog" where
  "emit e = modify (\<lambda>s. s\<lparr>evs := evs s @ [e]\<rparr>)"

text \<open>
  The results of a call come in the order of \<open>script\<close>. When they are used up, \<open>poll\<close>
  times out, \<open>rand\<close> returns 0, \<open>fork\<close> the pid of a child, \<open>open\<close> a descriptor, \<open>pipe\<close> and
  \<open>opendir\<close> (where NULL is -1) succeed, and the calls that create or bind fail.
\<close>

fun sys_default :: "sysc \<Rightarrow> int" where
  "sys_default (Poll _) = 0"
| "sys_default (Revents _) = 0"
| "sys_default Errno = 0"
| "sys_default RandCall = 0"
| "sys_default ForkCall = 1"
| "sys_default OpenCall = 3"
| "sys_default PipeCall = 0"
| "sys_default OpendirCall = 0"
| "sys_default _ = - 1"

definition sys :: "sysc \<Rightarrow> ('z, int) osprog" where
  "sys c s = (case script s c of
      [] \<Rightarrow> (Inr (sys_default c), s)
    | r # rs \<Rightarrow> (Inr r, s\<lparr>script := (script s)(c := rs)\<rparr>))"

text \<open>\<open>read\<close>: \<open>None\<close> for \<open>-1\<close>, otherwise the bytes it stored (none at the end of the stream).\<close>

definition sys_read :: "int \<Rightarrow> nat \<Rightarrow> ('z, byte list option) osprog" where
  "sys_read fd n s = (case rx s fd of
      [] \<Rightarrow> (Inr (Some []), s)
    | RdErr # q \<Rightarrow> (Inr None, s\<lparr>rx := (rx s)(fd := q)\<rparr>)
    | Chunk bs # q \<Rightarrow> (Inr (Some (take n bs)),
        s\<lparr>rx := (rx s)(fd := (if n < length bs then Chunk (drop n bs) # q else q))\<rparr>))"

text \<open>\<open>write\<close> of a non-empty area: \<open>None\<close> for \<open>-1\<close>, otherwise the number of bytes accepted.\<close>

definition sys_write :: "int \<Rightarrow> byte list \<Rightarrow> ('z, nat option) osprog" where
  "sys_write fd bs s = (case wx s fd of
      [] \<Rightarrow> (Inr (Some (length bs)), s\<lparr>evs := evs s @ [Wrote fd bs]\<rparr>)
    | Accepts n # q \<Rightarrow> (let k = min (Suc n) (length bs) in
        (Inr (Some k), s\<lparr>wx := (wx s)(fd := q), evs := evs s @ [Wrote fd (take k bs)]\<rparr>))
    | WrErr # q \<Rightarrow> (Inr None, s\<lparr>wx := (wx s)(fd := q)\<rparr>)
    | WrPipe # q \<Rightarrow> (Inl Sigpipe, s\<lparr>wx := (wx s)(fd := q)\<rparr>))"

definition sys_close :: "int \<Rightarrow> ('z, unit) osprog" where
  "sys_close fd = emit (Closed fd)"

definition print :: "byte list \<Rightarrow> ('z, unit) osprog" where
  "print bs = emit (Printed bs)"

text \<open>
  Memory nothing has been written to holds unspecified bytes: the next ones of \<open>junk\<close>
  (zeros once it is used up). An uninitialised \<open>int\<close> is four of them.
\<close>

definition take_junk :: "nat \<Rightarrow> ('z, byte list) osprog" where
  "take_junk n s = (Inr (take n (junk s @ replicate n 0)), s\<lparr>junk := drop n (junk s)\<rparr>)"

definition int_of_bytes :: "byte list \<Rightarrow> int" where
  "int_of_bytes bs = sint (of_nat (un_le32 bs) :: 32 word)"

definition junk_int :: "('z, int) osprog" where
  "junk_int = bnd (take_junk 4) (\<lambda>bs. ret (int_of_bytes bs))"

section \<open>What was sent, what is pending\<close>

text \<open>The bytes a descriptor received in a list of effects, in order.\<close>

fun sent :: "int \<Rightarrow> event list \<Rightarrow> byte list" where
  "sent fd [] = []"
| "sent fd (Wrote g bs # es) = (if g = fd then bs @ sent fd es else sent fd es)"
| "sent fd (_ # es) = sent fd es"

text \<open>The bytes a descriptor still delivers before an error or its end.\<close>

fun pending :: "rd list \<Rightarrow> byte list" where
  "pending (Chunk bs # q) = (if bs = [] then [] else bs @ pending q)"
| "pending _ = []"

text \<open>A receive queue after its first \<open>n\<close> bytes are read.\<close>

fun consume :: "nat \<Rightarrow> rd list \<Rightarrow> rd list" where
  "consume n (Chunk bs # q) =
     (if n = 0 then Chunk bs # q
      else if n < length bs then Chunk (drop n bs) # q
      else consume (n - length bs) q)"
| "consume n q = q"

abbreviation avail :: "int \<Rightarrow> 'z os_scheme \<Rightarrow> byte list" where
  "avail fd s \<equiv> pending (rx s fd)"

definition skip_rx :: "int \<Rightarrow> nat \<Rightarrow> 'z os_scheme \<Rightarrow> 'z os_scheme" where
  "skip_rx fd n s = s\<lparr>rx := (rx s)(fd := consume n (rx s fd))\<rparr>"

lemma sent_append [simp]: "sent fd (es @ es2) = sent fd es @ sent fd es2"
  by (induction fd es rule: sent.induct) auto

lemma pending_consume [simp]:
  "n \<le> length (pending q) \<Longrightarrow> pending (consume n q) = drop n (pending q)"
proof (induction n q rule: consume.induct)
  case (1 n bs q)
  then show ?case by (auto split: if_splits)
qed auto

lemma consume_0 [simp]: "consume 0 q = q"
  by (cases q rule: pending.cases) auto

lemma consume_consume [simp]:
  "m + n \<le> length (pending q) \<Longrightarrow> consume n (consume m q) = consume (m + n) q"
proof (induction m q rule: consume.induct)
  case (1 m bs q)
  then show ?case
    by (cases "m = 0"; cases "m < length bs") (auto simp: add.commute split: if_splits)
qed auto

lemma avail_skip_rx [simp]:
  "n \<le> length (avail fd s) \<Longrightarrow> avail fd (skip_rx fd n s) = drop n (avail fd s)"
  by (simp add: skip_rx_def)

lemma avail_skip_rx_other [simp]: "g \<noteq> fd \<Longrightarrow> avail g (skip_rx fd n s) = avail g s"
  by (simp add: skip_rx_def)

lemma skip_rx_skip_rx [simp]:
  "m + n \<le> length (avail fd s) \<Longrightarrow> skip_rx fd n (skip_rx fd m s) = skip_rx fd (m + n) s"
  by (simp add: skip_rx_def)

lemma skip_rx_0 [simp]: "skip_rx fd 0 s = s"
  by (simp add: skip_rx_def)

lemma skip_rx_fields [simp]:
  "wx (skip_rx fd n s) = wx s" "script (skip_rx fd n s) = script s"
  "junk (skip_rx fd n s) = junk s" "peername (skip_rx fd n s) = peername s"
  "sockname (skip_rx fd n s) = sockname s" "resolver (skip_rx fd n s) = resolver s"
  "files (skip_rx fd n s) = files s" "evs (skip_rx fd n s) = evs s"
  "os.more (skip_rx fd n s) = os.more s"
  by (simp_all add: skip_rx_def)

section \<open>The calls run\<close>

lemma emit_run [run_simps]: "emit e s = (Inr (), s\<lparr>evs := evs s @ [e]\<rparr>)"
  by (simp add: emit_def)

lemma sys_close_run [run_simps]: "sys_close fd s = (Inr (), s\<lparr>evs := evs s @ [Closed fd]\<rparr>)"
  by (simp add: sys_close_def emit_run)

lemma print_run [run_simps]: "print bs s = (Inr (), s\<lparr>evs := evs s @ [Printed bs]\<rparr>)"
  by (simp add: print_def emit_run)

lemma take_junk_0 [run_simps, simp]: "take_junk 0 s = (Inr [], s)"
  by (simp add: take_junk_def)

lemma take_junk_length: "take_junk n s = (Inr bs, t) \<Longrightarrow> length bs = n"
  by (auto simp: take_junk_def)

lemma sys_Inr: "\<exists>r t. sys c s = (Inr r, t)"
  by (auto simp: sys_def split: list.splits)

section \<open>Frames\<close>

text \<open>
  The contract every invariant of a process offers to the operations on descriptors: it
  does not depend on the parts of the state these operations change. An invariant that
  has it is kept by all of them.
\<close>

locale os_frame =
  fixes P :: "'z os_scheme \<Rightarrow> bool"
  assumes frame_rx: "P (s\<lparr>rx := r\<rparr>) = P s"
    and frame_wx: "P (s\<lparr>wx := w\<rparr>) = P s"
    and frame_script: "P (s\<lparr>script := c\<rparr>) = P s"
    and frame_junk: "P (s\<lparr>junk := j\<rparr>) = P s"
    and frame_fs: "P (s\<lparr>files := f\<rparr>) = P s"
    and frame_evs: "P (s\<lparr>evs := e\<rparr>) = P s"
begin

lemmas frames = frame_rx frame_wx frame_script frame_junk frame_fs frame_evs

lemma keeps_emit: "keeps P (emit e)"
  by (simp add: keeps_def emit_run frames)

lemma keeps_sys: "keeps P (sys c)"
  by (simp add: keeps_def sys_def frames split: list.splits)

lemma keeps_sys_read: "keeps P (sys_read fd n)"
  by (simp add: keeps_def sys_read_def frames split: list.splits rd.splits)

lemma keeps_sys_write: "keeps P (sys_write fd bs)"
  by (simp add: keeps_def sys_write_def frames Let_def split: list.splits wr.splits)

lemma keeps_sys_close: "keeps P (sys_close fd)"
  by (simp add: sys_close_def keeps_emit)

lemma keeps_print: "keeps P (print bs)"
  by (simp add: print_def keeps_emit)

lemma keeps_take_junk: "keeps P (take_junk n)"
  by (simp add: keeps_def take_junk_def frames)

lemma keeps_junk_int: "keeps P junk_int"
  unfolding junk_int_def by (intro keep_rules keeps_take_junk)

lemma keeps_modify_fs: "keeps P (modify (\<lambda>s. s\<lparr>files := f s\<rparr>))"
  by (simp add: keeps_def frames)

lemmas os_keeps = keeps_emit keeps_sys keeps_sys_read keeps_sys_write keeps_sys_close
  keeps_print keeps_take_junk keeps_junk_int keeps_modify_fs

end

section \<open>A process to evaluate the model on\<close>

text \<open>
  A quiet process: descriptor 5 delivers five bytes in two runs and takes one byte at a time.
\<close>

definition sample_os :: os where
  "sample_os = \<lparr>rx = (\<lambda>_. [])(5 := [Chunk [1, 2], Chunk [3, 4, 5]]),
     wx = (\<lambda>_. [])(5 := [Accepts 0, Accepts 0]), script = (\<lambda>_. []), junk = [],
     peername = (\<lambda>_. OtherFamily), sockname = (\<lambda>_. OtherFamily),
     resolver = (\<lambda>_ port. if port = [49] then Inl [33] else Inr [Some ([50], port)]),
     files = [], evs = []\<rparr>"

end
