(* ===== verification/Util.thy ===== *)
theory Util
  imports Os_Model
begin

text \<open>
  \<open>util.c\<close>: the loops over \<open>read\<close> and \<open>write\<close>, numbers as text, the checks of ports and
  addresses, the names of sockets, the clock, and the writer of packets. The contract of
  reading from a descriptor is the locale \<open>byte_source\<close>; every parser of the development
  rests on it.
\<close>

section \<open>\<open>write_to_fd\<close> and \<open>read_from_fd\<close>\<close>

lemma sys_write_progress:
  "sys_write fd bs s = (Inr (Some k), t) \<Longrightarrow> bs \<noteq> [] \<Longrightarrow> 0 < k"
  by (auto simp: sys_write_def Let_def split: list.splits wr.splits)

function write_to_fd :: "int \<Rightarrow> byte list \<Rightarrow> 'z os_scheme \<Rightarrow> (stop + int) \<times> 'z os_scheme" where
  "write_to_fd fd buffer s =
     (if buffer = [] then (Inr 0, s)
      else case sys_write fd buffer s of
        (Inl e, t) \<Rightarrow> (Inl e, t)
      | (Inr None, t) \<Rightarrow> (Inr (- 1), t)
      | (Inr (Some res), t) \<Rightarrow> write_to_fd fd (drop res buffer) t)"
  by pat_completeness auto
termination
  by (relation "measure (\<lambda>(fd, buffer, s). length buffer)")
    (auto dest!: sys_write_progress [OF sym])

declare write_to_fd.simps [simp del]

text \<open>
  The loop of \<open>read_from_fd\<close>: \<open>got\<close> is what the buffer holds so far. The result is the
  value returned and the bytes stored.
\<close>

function read_loop :: "int \<Rightarrow> nat \<Rightarrow> byte list \<Rightarrow> 'z os_scheme
    \<Rightarrow> (stop + int \<times> byte list) \<times> 'z os_scheme" where
  "read_loop fd sz got s =
     (if length got < sz then
        (case sys_read fd (sz - length got) s of
          (Inl e, t) \<Rightarrow> (Inl e, t)
        | (Inr None, t) \<Rightarrow> (Inr (- 1, got), t)
        | (Inr (Some bs), t) \<Rightarrow>
            if bs = [] then (Inr (0, got), t) else read_loop fd sz (got @ bs) t)
      else (Inr (sint (of_nat (length got) :: 32 word), got), s))"
  by pat_completeness auto
termination
  by (relation "measure (\<lambda>(fd, sz, got, s). sz - length got)") (auto intro!: diff_less_mono2)

declare read_loop.simps [simp del]

definition read_from_fd :: "int \<Rightarrow> nat \<Rightarrow> ('z, int \<times> byte list) osprog" where
  "read_from_fd fd sz = read_loop fd sz []"

text \<open>
  The callers ignore the value returned and use the whole buffer: where the stream ends
  early, the rest of the buffer is what the memory held before.
\<close>

definition read_buf :: "int \<Rightarrow> nat \<Rightarrow> ('z, byte list) osprog" where
  "read_buf fd n =
     bnd (read_from_fd fd n) (\<lambda>(_, got).
     bnd (take_junk (n - length got)) (\<lambda>j. ret (got @ j)))"

text \<open>\<open>uint8_t v; read_from_fd(fd, &v, sizeof(uint8_t));\<close>\<close>

definition read_u8 :: "int \<Rightarrow> ('z, byte) osprog" where
  "read_u8 fd = bnd (read_buf fd 1) (\<lambda>b. ret (hd b))"

text \<open>\<open>p = malloc(n + 1); read_from_fd(fd, p, n); p[n] = '\0';\<close> and \<open>p\<close> used as a string.\<close>

definition read_string :: "int \<Rightarrow> nat \<Rightarrow> ('z, cstr) osprog" where
  "read_string fd n = bnd (read_buf fd n) (\<lambda>b. ret (c_str b))"

text \<open>The length byte and the string it announces.\<close>

definition read_lstr :: "int \<Rightarrow> ('z, cstr) osprog" where
  "read_lstr fd = bnd (read_u8 fd) (\<lambda>n. read_string fd (unat n))"

text \<open>
  The same without the terminator: an area of \<open>n + 1\<close> bytes whose last one is unspecified.
  Taken as a string it is read until its first NUL, out of bounds where it has none.
\<close>

definition read_area :: "int \<Rightarrow> nat \<Rightarrow> ('z, byte list) osprog" where
  "read_area fd n = bnd (read_buf fd n) (\<lambda>b. bnd (take_junk 1) (\<lambda>j. ret (b @ j)))"

definition read_larea :: "int \<Rightarrow> ('z, byte list) osprog" where
  "read_larea fd = bnd (read_u8 fd) (\<lambda>n. read_area fd (unat n))"

definition area_string :: "byte list \<Rightarrow> ('s, cstr) prog" where
  "area_string a = (if 0 \<in> set a then ret (c_str a) else halt (UB OutOfBounds))"

section \<open>Packets\<close>

definition write_to_packet :: "pbuf \<Rightarrow> byte list \<Rightarrow> nat \<Rightarrow> ('s, pbuf) prog" where
  "write_to_packet p data len =
     (if len \<le> length data \<and> length (pbytes p) + len \<le> pcap p
      then ret (PBuf (pcap p) (pbytes p @ take len data))
      else halt (UB OutOfBounds))"

text \<open>The packets of the code all write a string after the byte that holds its length.\<close>

definition write_lstr :: "pbuf \<Rightarrow> cstr \<Rightarrow> ('s, pbuf) prog" where
  "write_lstr p x =
     bnd (write_to_packet p [u8 (length x)] 1) (\<lambda>p.
     write_to_packet p x (unat (u8 (length x))))"

section \<open>Integers\<close>

definition compare_ints :: "int \<Rightarrow> int \<Rightarrow> int" where
  "compare_ints a b = (if a = b then 0 else if a < b then - 1 else 1)"

text \<open>The decimal text \<open>sprintf\<close> writes for an unsigned number.\<close>

definition digit_char :: "nat \<Rightarrow> byte" where
  "digit_char d = of_nat (48 + d)"

fun dec :: "nat \<Rightarrow> cstr" where
  "dec n = (if n < 10 then [digit_char n] else dec (n div 10) @ [digit_char (n mod 10)])"

declare dec.simps [simp del]

text \<open>
  \<open>int_to_string\<close> prints with \<open>%u\<close>: the 32 bits read as an unsigned number, and a NUL, into
  an area of \<open>room\<close> bytes.
\<close>

definition int_to_string :: "int \<Rightarrow> nat \<Rightarrow> ('s, cstr) prog" where
  "int_to_string src room =
     (let t = dec (unat (of_int src :: 32 word))
      in if length t + 1 \<le> room then ret t else halt (UB OutOfBounds))"

definition INT_MIN :: int where
  "INT_MIN = - (2 ^ 31)"

text \<open>\<open>abs(src) >= 10\<close> and \<open>src /= 10\<close>, which truncates; \<open>abs(INT_MIN)\<close> is undefined.\<close>

function digits_loop :: "int \<Rightarrow> int \<Rightarrow> int" where
  "digits_loop src nb_digits =
     (if \<bar>src\<bar> \<ge> 10 then digits_loop (sgn src * (\<bar>src\<bar> div 10)) (nb_digits + 1) else nb_digits)"
  by pat_completeness auto
termination
  by (relation "measure (\<lambda>(src, _). nat \<bar>src\<bar>)") (auto simp: abs_mult sgn_if)

declare digits_loop.simps [simp del]

definition get_number_of_digits_in :: "int \<Rightarrow> ('s, int) prog" where
  "get_number_of_digits_in src =
     (if src = INT_MIN then halt (UB SignedOverflow) else ret (digits_loop src 1))"

definition int_to_cstring :: "int \<Rightarrow> ('s, cstr) prog" where
  "int_to_cstring src =
     bnd (get_number_of_digits_in src) (\<lambda>len.
     let len = (if src < 0 then len + 1 else len)
     in int_to_string src (nat len))"

section \<open>Ports and addresses\<close>

definition is_digit :: "byte \<Rightarrow> bool" where
  "is_digit b \<longleftrightarrow> 48 \<le> unat b \<and> unat b \<le> 57"

definition is_space :: "byte \<Rightarrow> bool" where
  "is_space b \<longleftrightarrow> b = 32 \<or> (9 \<le> unat b \<and> unat b \<le> 13)"

definition digits_val :: "cstr \<Rightarrow> int" where
  "digits_val ds = foldl (\<lambda>a d. 10 * a + (uint d - 48)) 0 ds"

definition LONG_MAX :: int where
  "LONG_MAX = 2 ^ 63 - 1"

text \<open>
  \<open>strtol(port, &end_ptr, 10)\<close>: the value, clamped to the range of \<open>long\<close>, and what follows.
  Without a digit the value is 0 and the end pointer is the start of the string.
\<close>

definition strtol :: "cstr \<Rightarrow> int \<times> cstr" where
  "strtol x =
     (let y = dropWhile is_space x;
          neg = (y \<noteq> [] \<and> hd y = 45);
          z = (if y \<noteq> [] \<and> (hd y = 45 \<or> hd y = 43) then tl y else y);
          ds = takeWhile is_digit z;
          v = (if neg then - digits_val ds else digits_val ds)
      in if ds = [] then (0, x)
         else (max (- LONG_MAX - 1) (min LONG_MAX v), dropWhile is_digit z))"

definition check_port :: "cstr \<Rightarrow> int" where
  "check_port port =
     (case strtol port of (long_port, end_ptr) \<Rightarrow>
        if end_ptr \<noteq> [] then 0
        else if long_port > 1024 \<and> long_port < 65536 then 1 else 0)"

text \<open>\<open>inet_pton\<close> is a parameter: whether a string is an IPv4 or an IPv6 address.\<close>

definition check_ip :: "(cstr \<Rightarrow> bool) \<Rightarrow> (cstr \<Rightarrow> bool) \<Rightarrow> cstr \<Rightarrow> int" where
  "check_ip pton4 pton6 ip = (if pton4 ip then 1 else if pton6 ip then 1 else 0)"

section \<open>Pointers to strings\<close>

text \<open>A \<open>char*\<close> variable: NULL, a string of its own, or a pointer to a string that has been freed.\<close>

datatype cptr = NullPtr | Live cstr | FreedPtr

definition deref :: "cptr \<Rightarrow> ('s, cstr) prog" where
  "deref p = (case p of NullPtr \<Rightarrow> halt (UB NullDeref) | FreedPtr \<Rightarrow> halt (UB UseAfterFree)
     | Live x \<Rightarrow> ret x)"

text \<open>
  The results are the new values of the variable. \<open>free\<close> does nothing to NULL; the variable keeps
  its address. \<open>set_string\<close> does not look at the old value: a string held there is lost.
\<close>

definition const_free :: "cptr \<Rightarrow> ('s, cptr) prog" where
  "const_free p = (case p of NullPtr \<Rightarrow> ret NullPtr | FreedPtr \<Rightarrow> halt (UB DoubleFree)
     | Live x \<Rightarrow> ret FreedPtr)"

definition free_not_null :: "cptr \<Rightarrow> ('s, cptr) prog" where
  "free_not_null p = (if p \<noteq> NullPtr then const_free p else ret p)"

definition free_reset :: "cptr \<Rightarrow> ('s, cptr) prog" where
  "free_reset p = (if p \<noteq> NullPtr then seq (const_free p) (ret NullPtr) else ret p)"

definition const_free_reset :: "cptr \<Rightarrow> ('s, cptr) prog" where
  "const_free_reset p = (if p \<noteq> NullPtr then bnd (const_free p) (\<lambda>_. ret NullPtr) else ret p)"

definition set_string :: "cptr \<Rightarrow> byte list \<Rightarrow> ('s, cptr) prog" where
  "set_string target content = ret (Live (c_str content))"

section \<open>Names of sockets\<close>

definition sock_name :: "int \<Rightarrow> int \<Rightarrow> 'z os_scheme \<Rightarrow> sockaddr" where
  "sock_name socket remote s = (if remote = 1 then peername s socket else sockname s socket)"

text \<open>
  The text is \<open>None\<close> where the code leaves the buffer as it is. The buffers have the
  sizes the code gives them: 6 bytes for a port, \<open>INET6_ADDRSTRLEN\<close> for an address.
\<close>

definition INET6_ADDRSTRLEN :: nat where "INET6_ADDRSTRLEN = 46"

definition extract_port_from_socket :: "int \<Rightarrow> int \<Rightarrow> ('z, cstr option) osprog" where
  "extract_port_from_socket socket remote =
     bnd (gets (sock_name socket remote)) (\<lambda>addr. case addr of
       Inet ip port \<Rightarrow> bnd (int_to_string (uint port) 6) (\<lambda>t. ret (Some t))
     | Inet6 ip port \<Rightarrow> bnd (int_to_string (uint port) 6) (\<lambda>t. ret (Some t))
     | OtherFamily \<Rightarrow> ret None)"

definition extract_ip_from_socket :: "int \<Rightarrow> int \<Rightarrow> ('z, cstr option) osprog" where
  "extract_ip_from_socket socket remote =
     bnd (gets (sock_name socket remote)) (\<lambda>addr. case addr of
       Inet ip port \<Rightarrow> ret (Some ip)
     | Inet6 ip port \<Rightarrow> ret (Some ip)
     | OtherFamily \<Rightarrow> ret None)"

definition extract_ip_port_from_socket :: "int \<Rightarrow> int \<Rightarrow> ('z, cstr option \<times> cstr option) osprog" where
  "extract_ip_port_from_socket socket remote =
     bnd (gets (sock_name socket remote)) (\<lambda>addr. case addr of
       Inet ip port \<Rightarrow> bnd (int_to_string (uint port) 6) (\<lambda>t. ret (Some ip, Some t))
     | Inet6 ip port \<Rightarrow> bnd (int_to_string (uint port) 6) (\<lambda>t. ret (Some ip, Some t))
     | OtherFamily \<Rightarrow> ret (None, None))"

text \<open>The variants that return a new buffer: of these sizes, with nothing written to it yet.\<close>

definition extract_port_from_socket_s :: "int \<Rightarrow> int \<Rightarrow> ('z, cstr option) osprog" where
  "extract_port_from_socket_s socket remote = extract_port_from_socket socket remote"

definition extract_ip_from_socket_s :: "int \<Rightarrow> int \<Rightarrow> ('z, cstr option) osprog" where
  "extract_ip_from_socket_s socket remote = extract_ip_from_socket socket remote"

definition extract_ip_port_from_socket_s :: "int \<Rightarrow> int \<Rightarrow> ('z, cstr option \<times> cstr option) osprog" where
  "extract_ip_port_from_socket_s socket remote = extract_ip_port_from_socket socket remote"

text \<open>The content of such a buffer used as a string.\<close>

definition as_string :: "cstr option \<Rightarrow> ('s, cstr) prog" where
  "as_string b = (case b of None \<Rightarrow> halt (UB Uninit) | Some x \<Rightarrow> ret x)"

section \<open>Time\<close>

text \<open>A \<open>struct timespec\<close>: seconds and nanoseconds. The result is converted to \<open>int\<close>.\<close>

definition elapsed_time_since :: "int \<times> int \<Rightarrow> int \<times> int \<Rightarrow> int" where
  "elapsed_time_since start now =
     (let sec_diff = fst now - fst start;
          nano_diff = snd now - snd start;
          (sec_diff, nano_diff) = (if nano_diff < 0 then (sec_diff - 1, nano_diff + 1000000000)
                                   else (sec_diff, nano_diff))
      in sint (of_int (sec_diff * 1000 + nano_diff div 1000 div 1000) :: 32 word))"

text \<open>The timer \<open>millisleep\<close> passes to \<open>nanosleep\<close>; \<open>div\<close> of C on a duration.\<close>

definition millisleep_timer :: "nat \<Rightarrow> nat \<times> nat" where
  "millisleep_timer milliseconds =
     (milliseconds div 1000, milliseconds mod 1000 * 1000 * 1000)"

section \<open>Polling\<close>

text \<open>\<open>poll_fd\<close> returns what \<open>poll\<close> returns; the timeout is the kernel's business.\<close>

definition poll_fd :: "int \<Rightarrow> ('z, int) osprog" where
  "poll_fd fd = sys (Poll fd)"

section \<open>Reading what has arrived\<close>

lemma sys_read_avail:
  assumes "avail fd s \<noteq> []" and "0 < k"
  obtains m where "0 < m" "m \<le> k" "m \<le> length (avail fd s)"
    "sys_read fd k s = (Inr (Some (take m (avail fd s))), skip_rx fd m s)"
proof -
  from assms(1) obtain bs q where q: "rx s fd = Chunk bs # q" "bs \<noteq> []"
    by (cases "rx s fd" rule: pending.cases) (auto split: if_splits)
  show ?thesis
  proof (rule that [of "min k (length bs)"])
    show "0 < min k (length bs)" using assms(2) q by simp
    show "min k (length bs) \<le> length (avail fd s)" using q by simp
    show "sys_read fd k s = (Inr (Some (take (min k (length bs)) (avail fd s))),
        skip_rx fd (min k (length bs)) s)"
      using q assms(2) by (auto simp: sys_read_def skip_rx_def min_def)
  qed simp
qed

lemma read_loop_avail:
  "length got + k = sz \<Longrightarrow> k \<le> length (avail fd s) \<Longrightarrow>
   read_loop fd sz got s = (Inr (sint (of_nat sz :: 32 word), got @ take k (avail fd s)), skip_rx fd k s)"
proof (induction k arbitrary: got s rule: less_induct)
  case (less k)
  show ?case
  proof (cases "k = 0")
    case True
    with less.prems show ?thesis by (subst read_loop.simps) simp
  next
    case False
    then have "avail fd s \<noteq> []" using less.prems by auto
    then obtain m where m: "0 < m" "m \<le> k" "m \<le> length (avail fd s)"
      and r: "sys_read fd k s = (Inr (Some (take m (avail fd s))), skip_rx fd m s)"
      using False by (elim sys_read_avail [where fd = fd and s = s and k = k]) auto
    have len: "sz - length got = k" "length got < sz" using less.prems False by auto
    have "read_loop fd sz got s = read_loop fd sz (got @ take m (avail fd s)) (skip_rx fd m s)"
      using m by (subst read_loop.simps) (auto simp: len r)
    also have "\<dots> = (Inr (sint (of_nat sz :: 32 word),
        (got @ take m (avail fd s)) @ take (k - m) (drop m (avail fd s))),
        skip_rx fd (k - m) (skip_rx fd m s))"
      using less.prems m less.IH [of "k - m" "got @ take m (avail fd s)" "skip_rx fd m s"] by simp
    also have "\<dots> = (Inr (sint (of_nat sz :: 32 word), got @ take k (avail fd s)), skip_rx fd k s)"
      using less.prems m by (simp add: take_add [symmetric])
    finally show ?thesis .
  qed
qed

lemma read_from_fd_avail:
  "n \<le> length (avail fd s) \<Longrightarrow>
   read_from_fd fd n s = (Inr (sint (of_nat n :: 32 word), take n (avail fd s)), skip_rx fd n s)"
  by (simp add: read_from_fd_def read_loop_avail)

lemma read_buf_avail:
  "n \<le> length (avail fd s) \<Longrightarrow> read_buf fd n s = (Inr (take n (avail fd s)), skip_rx fd n s)"
  by (simp add: read_buf_def bnd_run read_from_fd_avail)

text \<open>
  The contract of a source of bytes: while enough bytes are pending, a read returns the
  next ones and the source moves behind them.
\<close>

locale byte_source =
  fixes pend :: "'s \<Rightarrow> byte list"
    and rd_bytes :: "nat \<Rightarrow> ('s, byte list) prog"
    and adv :: "nat \<Rightarrow> 's \<Rightarrow> 's"
  assumes rd_pend: "n \<le> length (pend s) \<Longrightarrow> rd_bytes n s = (Inr (take n (pend s)), adv n s)"
    and pend_adv: "n \<le> length (pend s) \<Longrightarrow> pend (adv n s) = drop n (pend s)"
    and adv_adv: "m + n \<le> length (pend s) \<Longrightarrow> adv n (adv m s) = adv (m + n) s"
begin

lemma rd_one: "pend s = b # rest \<Longrightarrow> rd_bytes 1 s = (Inr [b], adv 1 s) \<and> pend (adv 1 s) = rest"
  by (simp add: rd_pend pend_adv)

lemma rd_prefix:
  "pend s = x @ rest \<Longrightarrow>
   rd_bytes (length x) s = (Inr x, adv (length x) s) \<and> pend (adv (length x) s) = rest"
  by (simp add: rd_pend pend_adv)

text \<open>A string after its length byte.\<close>

lemma rd_lstr:
  assumes "pend s = u8 (length x) # x @ rest" and "length x < 256"
  shows "bnd (rd_bytes 1) (\<lambda>n. rd_bytes (unat (hd n))) s = (Inr x, adv (1 + length x) s)"
    and "pend (adv (1 + length x) s) = rest"
proof -
  from assms(1) have one: "rd_bytes 1 s = (Inr [u8 (length x)], adv 1 s)" "pend (adv 1 s) = x @ rest"
    using rd_one by auto
  then have two: "rd_bytes (length x) (adv 1 s) = (Inr x, adv (length x) (adv 1 s))"
    "pend (adv (length x) (adv 1 s)) = rest"
    using rd_prefix by auto
  have add: "adv (length x) (adv 1 s) = adv (1 + length x) s"
    by (rule adv_adv) (simp add: assms(1))
  show "bnd (rd_bytes 1) (\<lambda>n. rd_bytes (unat (hd n))) s = (Inr x, adv (1 + length x) s)"
    using assms(2) one(1) two(1) add by (simp add: bnd_run)
  show "pend (adv (1 + length x) s) = rest"
    using two(2) add by simp
qed

end

interpretation fd: byte_source "\<lambda>s. avail d s" "read_buf d" "skip_rx d" for d
  by unfold_locales (auto simp: read_buf_avail)

lemma read_u8_avail:
  "avail fd s = b # rest \<Longrightarrow> read_u8 fd s = (Inr b, skip_rx fd 1 s)"
  by (simp add: read_u8_def bnd_run read_buf_avail)

lemma read_string_avail:
  "avail fd s = x @ rest \<Longrightarrow> is_cstr x \<Longrightarrow>
   read_string fd (length x) s = (Inr x, skip_rx fd (length x) s)"
  by (simp add: read_string_def bnd_run read_buf_avail)

definition enc_lstr :: "cstr \<Rightarrow> byte list" where
  "enc_lstr x = u8 (length x) # x"

definition wf_lstr :: "cstr \<Rightarrow> bool" where
  "wf_lstr x \<longleftrightarrow> is_cstr x \<and> length x < 256"

lemma length_enc_lstr [simp]: "length (enc_lstr x) = Suc (length x)"
  by (simp add: enc_lstr_def)

lemma read_lstr_avail:
  assumes "avail fd s = enc_lstr x @ rest" and "wf_lstr x"
  shows "read_lstr fd s = (Inr x, skip_rx fd (Suc (length x)) s)"
proof -
  from assms have a: "avail fd s = u8 (length x) # x @ rest" and l: "length x < 256" and c: "is_cstr x"
    by (auto simp: enc_lstr_def wf_lstr_def)
  have "bnd (read_buf fd 1) (\<lambda>n. read_buf fd (unat (hd n))) s = (Inr x, skip_rx fd (1 + length x) s)"
    by (rule fd.rd_lstr [OF a l])
  then show ?thesis
    using c by (auto simp: read_lstr_def read_u8_def read_string_def bnd_run
        split: prod.splits sum.splits)
qed

text \<open>Reading never stops a run: at the end of the stream, or an error, the buffer is what it was.\<close>

lemma read_loop_total: "\<exists>r t. read_loop fd sz got s = (Inr r, t)"
proof (induction fd sz got s rule: read_loop.induct)
  case (1 fd sz got s)
  show ?case
    using "1" by (subst read_loop.simps)
      (auto simp: sys_read_def split: list.splits rd.splits)
qed

text \<open>Reading has no effect but on the queue of the descriptor.\<close>

lemma read_loop_evs: "evs (snd (read_loop fd sz got s)) = evs s"
proof (induction fd sz got s rule: read_loop.induct)
  case (1 fd sz got s)
  show ?case
    using "1" by (subst read_loop.simps)
      (auto simp: sys_read_def split: list.splits rd.splits)
qed

lemma read_from_fd_quiet:
  obtains r t where "read_from_fd fd n s = (Inr r, t)" and "evs t = evs s"
  using read_loop_total [of fd n "[]" s] read_loop_evs [of fd n "[]" s]
  by (auto simp: read_from_fd_def)

lemma read_buf_total: "\<exists>b t. read_buf fd n s = (Inr b, t)"
proof -
  obtain r t where "read_from_fd fd n s = (Inr r, t)"
    using read_loop_total [of fd n "[]" s] unfolding read_from_fd_def by blast
  then show ?thesis
    by (auto simp: read_buf_def bnd_run take_junk_def split: prod.splits)
qed

lemma bnd_total:
  assumes "\<exists>a t. m s = (Inr a, t)" and "\<And>a t. \<exists>b u. f a t = (Inr b, u)"
  shows "\<exists>b u. bnd m f s = (Inr b, u)"
  using assms by (auto simp: bnd_run)

lemma ret_total: "\<exists>b t. ret a s = (Inr b, t)"
  by simp

lemma take_junk_total: "\<exists>b t. take_junk n s = (Inr b, t)"
  by (simp add: take_junk_def)

lemma read_u8_total: "\<exists>b t. read_u8 fd s = (Inr b, t)"
  unfolding read_u8_def by (intro bnd_total read_buf_total ret_total)

lemma read_lstr_total: "\<exists>x t. read_lstr fd s = (Inr x, t)"
  unfolding read_lstr_def read_string_def
  by (intro bnd_total read_u8_total read_buf_total ret_total)

lemma read_larea_total: "\<exists>x t. read_larea fd s = (Inr x, t)"
  unfolding read_larea_def read_area_def
  by (intro bnd_total read_u8_total read_buf_total take_junk_total ret_total)

section \<open>Sending\<close>

text \<open>A descriptor that accepts whatever is written to it.\<close>

lemma write_to_fd_free [run_simps]:
  "wx s fd = [] \<Longrightarrow> write_to_fd fd bs s =
     (Inr 0, if bs = [] then s else s\<lparr>evs := evs s @ [Wrote fd bs]\<rparr>)"
  by (subst write_to_fd.simps) (auto simp: sys_write_def write_to_fd.simps)

lemma write_to_packet_run [run_simps]:
  "len \<le> length data \<Longrightarrow> length (pbytes p) + len \<le> pcap p \<Longrightarrow>
   write_to_packet p data len s = (Inr (PBuf (pcap p) (pbytes p @ take len data)), s)"
  by (simp add: write_to_packet_def)

lemma write_lstr_run [run_simps]:
  "length x < 256 \<Longrightarrow> length (pbytes p) + Suc (length x) \<le> pcap p \<Longrightarrow>
   write_lstr p x s = (Inr (PBuf (pcap p) (pbytes p @ enc_lstr x)), s)"
  by (simp add: write_lstr_def bnd_run write_to_packet_def enc_lstr_def)

lemma write_to_packet_keeps [keep_rules]: "keeps P (write_to_packet p data len)"
  by (simp add: keeps_def write_to_packet_def)

lemma write_lstr_keeps [keep_rules]: "keeps P (write_lstr p x)"
  unfolding write_lstr_def by (intro keep_rules)

lemma area_string_keeps [keep_rules]: "keeps P (area_string a)"
  by (simp add: keeps_def area_string_def)

lemma as_string_keeps [keep_rules]: "keeps P (as_string b)"
  by (simp add: keeps_def as_string_def split: option.splits)

lemma as_string_run [run_simps, simp]: "as_string (Some x) s = (Inr x, s)"
  "as_string None s = (Inl (UB Uninit), s)"
  by (simp_all add: as_string_def)

context os_frame
begin

lemma keeps_write_to_fd: "keeps P (write_to_fd fd bs)"
proof (rule keepsI)
  fix s :: "'z os_scheme"
  assume "P s"
  then show "P (snd (write_to_fd fd bs s))"
  proof (induction fd bs s rule: write_to_fd.induct)
    case (1 fd bs s)
    show ?case
      using "1" keepsD [OF keeps_sys_write "1.prems"]
      by (subst write_to_fd.simps) (auto split: prod.splits sum.splits option.splits)
  qed
qed

lemma keeps_read_from_fd: "keeps P (read_from_fd fd n)"
proof (rule keepsI)
  fix s :: "'z os_scheme"
  assume "P s"
  then show "P (snd (read_from_fd fd n s))"
    unfolding read_from_fd_def
  proof (induction fd n "[] :: byte list" s rule: read_loop.induct)
    case (1 fd n s)
    have loop: "P u \<Longrightarrow> P (snd (read_loop fd n got u))" for got u
    proof (induction fd n got u rule: read_loop.induct)
      case (1 fd n got u)
      show ?case
        using "1" keepsD [OF keeps_sys_read "1.prems"]
        by (subst read_loop.simps) (auto split: prod.splits sum.splits option.splits)
    qed
    show ?case using "1.prems" by (rule loop)
  qed
qed

lemma keeps_read_buf: "keeps P (read_buf fd n)"
  unfolding read_buf_def by (intro keep_rules keeps_read_from_fd keeps_take_junk)

lemma keeps_read_u8: "keeps P (read_u8 fd)"
  unfolding read_u8_def by (intro keep_rules keeps_read_buf)

lemma keeps_read_string: "keeps P (read_string fd n)"
  unfolding read_string_def by (intro keep_rules keeps_read_buf)

lemma keeps_read_lstr: "keeps P (read_lstr fd)"
  unfolding read_lstr_def by (intro keep_rules keeps_read_u8 keeps_read_string)

lemma keeps_read_area: "keeps P (read_area fd n)"
  unfolding read_area_def by (intro keep_rules keeps_read_buf keeps_take_junk)

lemma keeps_read_larea: "keeps P (read_larea fd)"
  unfolding read_larea_def by (intro keep_rules keeps_read_u8 keeps_read_area)

end

section \<open>Decimal text\<close>

lemma dec_small: "n < 10 \<Longrightarrow> dec n = [digit_char n]"
  by (simp add: dec.simps)

lemma dec_step: "10 \<le> n \<Longrightarrow> dec n = dec (n div 10) @ [digit_char (n mod 10)]"
  by (subst dec.simps) simp

lemma unat_digit [simp]: "d < 10 \<Longrightarrow> unat (digit_char d) = 48 + d"
  unfolding digit_char_def by (subst unat_of_nat) simp

lemma uint_digit [simp]: "d < 10 \<Longrightarrow> uint (digit_char d) = 48 + int d"
  by (simp only: uint_nat unat_digit of_nat_add of_nat_numeral)

lemma is_digit_of_nat: "d < 10 \<Longrightarrow> is_digit (digit_char d)"
  by (simp add: is_digit_def)

lemma dec_digits: "list_all is_digit (dec n)"
proof (induction n rule: dec.induct)
  case (1 n)
  then show ?case
    using is_digit_of_nat [of n] is_digit_of_nat [of "n mod 10"]
    by (cases "n < 10") (auto simp: dec_small dec_step)
qed

lemma dec_nonempty: "dec n \<noteq> []"
  by (subst dec.simps) simp

lemma digits_val_snoc: "digits_val (ds @ [d]) = 10 * digits_val ds + (uint d - 48)"
  by (simp add: digits_val_def)

lemma digits_val_dec: "digits_val (dec n) = int n"
proof (induction n rule: dec.induct)
  case (1 n)
  show ?case
  proof (cases "n < 10")
    case True
    then show ?thesis by (simp add: dec_small digits_val_def)
  next
    case False
    then have "digits_val (dec n) = 10 * int (n div 10) + int (n mod 10)"
      using "1" by (simp add: dec_step digits_val_snoc)
    also have "\<dots> = int (10 * (n div 10) + n mod 10)" by (simp only: of_nat_add of_nat_mult of_nat_numeral)
    also have "\<dots> = int n" by (simp only: mult_div_mod_eq)
    finally show ?thesis .
  qed
qed

lemma length_dec_le: "n < 10 ^ k \<Longrightarrow> 0 < k \<Longrightarrow> length (dec n) \<le> k"
proof (induction k arbitrary: n)
  case 0
  then show ?case by simp
next
  case (Suc k)
  show ?case
  proof (cases "n < 10")
    case True
    then show ?thesis by (simp add: dec_small)
  next
    case False
    then have "n div 10 < 10 ^ k" "0 < k"
      using Suc.prems by (auto intro: gr0I simp: less_mult_imp_div_less mult.commute)
    then have "length (dec (n div 10)) \<le> k" by (rule Suc.IH)
    with False show ?thesis by (simp add: dec_step)
  qed
qed

lemma length_dec_ge: "10 ^ k \<le> n \<Longrightarrow> Suc k \<le> length (dec n)"
proof (induction k arbitrary: n)
  case 0
  then show ?case by (subst dec.simps) simp
next
  case (Suc k)
  have "10 ^ k \<le> n div 10"
    using Suc.prems by (simp add: less_eq_div_iff_mult_less_eq mult.commute)
  then have "Suc k \<le> length (dec (n div 10))" by (rule Suc.IH)
  moreover have "10 \<le> n"
    using Suc.prems by (metis dual_order.trans one_le_numeral one_le_power power_Suc mult_le_mono2 mult.right_neutral)
  ultimately show ?case by (simp add: dec_step)
qed

lemma is_cstr_dec [simp]: "is_cstr (dec n)"
proof -
  have "is_digit b \<Longrightarrow> b \<noteq> 0" for b :: byte
    by (auto simp: is_digit_def)
  then show ?thesis
    using dec_digits [of n] by (auto simp: is_cstr_def list_all_iff)
qed

lemma unat_port_less: "unat (p :: 16 word) < 65536"
  using unsigned_less [of p] by simp

lemma length_dec_port: "length (dec (unat (p :: 16 word))) \<le> 5"
  using unat_port_less [of p] by (intro length_dec_le) auto

lemma unat_of_int_32:
  assumes "0 \<le> i" and "i < 2 ^ 32"
  shows "unat (of_int i :: 32 word) = nat i"
proof -
  have "uint (of_int i :: 32 word) = i"
    using assms by (simp add: uint_word_of_int)
  then show ?thesis by (simp only: unat_eq_nat_uint)
qed

lemma int_to_string_port [run_simps, simp]:
  "int_to_string (uint (p :: 16 word)) 6 s = (Inr (dec (unat p)), s)"
proof -
  have "uint p < 65536" using unsigned_less [of p, where ?'a = int] by simp
  then have "unat (of_int (uint p) :: 32 word) = nat (uint p)"
    by (intro unat_of_int_32) simp_all
  also have "\<dots> = unat p" by (simp only: unat_eq_nat_uint)
  finally have "unat (of_int (uint p) :: 32 word) = unat p" .
  then show ?thesis
    using length_dec_port [of p] by (simp add: int_to_string_def)
qed

lemma digits_loop_dec: "digits_loop src k = k + int (length (dec (nat \<bar>src\<bar>))) - 1"
proof (induction src k rule: digits_loop.induct)
  case (1 src k)
  show ?case
  proof (cases "\<bar>src\<bar> \<ge> 10")
    case True
    have a: "nat \<bar>sgn src * (\<bar>src\<bar> div 10)\<bar> = nat \<bar>src\<bar> div 10"
      using True by (auto simp: abs_mult nat_div_distrib sgn_if)
    have d: "dec (nat \<bar>src\<bar>) = dec (nat \<bar>src\<bar> div 10) @ [digit_char (nat \<bar>src\<bar> mod 10)]"
      by (rule dec_step) (use True in simp)
    have "digits_loop src k = digits_loop (sgn src * (\<bar>src\<bar> div 10)) (k + 1)"
      using True by (subst digits_loop.simps) simp
    also have "\<dots> = k + int (length (dec (nat \<bar>src\<bar>))) - 1"
      using True "1.IH" a d by simp
    finally show ?thesis .
  next
    case False
    then show ?thesis by (subst digits_loop.simps) (simp add: dec_small)
  qed
qed

section \<open>Ports\<close>

lemma takeWhile_digits_dec: "takeWhile is_digit (dec n) = dec n" "dropWhile is_digit (dec n) = []"
  using dec_digits [of n] by (auto simp: list_all_iff)

lemma strtol_dec: "int n \<le> LONG_MAX \<Longrightarrow> strtol (dec n) = (int n, [])"
proof -
  assume n: "int n \<le> LONG_MAX"
  obtain d ds where d: "dec n = d # ds" using dec_nonempty [of n] by (cases "dec n") auto
  have dig: "is_digit d" using dec_digits [of n] d by simp
  then have "\<not> is_space d" "d \<noteq> 45" "d \<noteq> 43" by (auto simp: is_digit_def is_space_def)
  then show ?thesis
    using n d takeWhile_digits_dec [of n] digits_val_dec [of n]
    by (simp add: strtol_def Let_def LONG_MAX_def)
qed

lemma check_port_range: "check_port x = 1 \<longleftrightarrow> (\<exists>v. strtol x = (v, []) \<and> 1024 < v \<and> v < 65536)"
  by (auto simp: check_port_def split: prod.splits)

lemma check_port_01: "check_port x = 0 \<or> check_port x = 1"
  by (simp add: check_port_def split: prod.splits)

section \<open>Frames of the name operations\<close>

lemma extract_port_run [run_simps]:
  "extract_port_from_socket fd remote s = (Inr (case sock_name fd remote s of
     Inet ip port \<Rightarrow> Some (dec (unat port)) | Inet6 ip port \<Rightarrow> Some (dec (unat port))
   | OtherFamily \<Rightarrow> None), s)"
  by (simp add: extract_port_from_socket_def bnd_run split: sockaddr.splits)

lemma extract_ip_run [run_simps]:
  "extract_ip_from_socket fd remote s = (Inr (case sock_name fd remote s of
     Inet ip port \<Rightarrow> Some ip | Inet6 ip port \<Rightarrow> Some ip | OtherFamily \<Rightarrow> None), s)"
  by (simp add: extract_ip_from_socket_def bnd_run split: sockaddr.splits)

lemma extract_ip_port_run [run_simps]:
  "extract_ip_port_from_socket fd remote s = (Inr (case sock_name fd remote s of
     Inet ip port \<Rightarrow> (Some ip, Some (dec (unat port)))
   | Inet6 ip port \<Rightarrow> (Some ip, Some (dec (unat port)))
   | OtherFamily \<Rightarrow> (None, None)), s)"
  by (simp add: extract_ip_port_from_socket_def bnd_run split: sockaddr.splits)

lemma extract_keeps [keep_rules]:
  "keeps P (extract_port_from_socket fd remote)"
  "keeps P (extract_ip_from_socket fd remote)"
  "keeps P (extract_ip_port_from_socket fd remote)"
  by (simp_all add: keeps_def extract_port_run extract_ip_run extract_ip_port_run)

section \<open>Properties\<close>

text \<open>
  C40. However the kernel splits the writes, \<open>write_to_fd\<close> sends a prefix of the buffer to its descriptor,
  in order and without gap or repeat, and nothing elsewhere: the whole buffer exactly when it
  returns 0, and a proper prefix when it returns -1 or SIGPIPE stops it.
\<close>

theorem write_to_fd_sends:
  "\<exists>n. (\<forall>g. sent g (evs (snd (write_to_fd fd bs s))) = sent g (evs s) @ (if g = fd then take n bs else [])) \<and>
     (if n < length bs then fst (write_to_fd fd bs s) = Inr (- 1) \<or> fst (write_to_fd fd bs s) = Inl Sigpipe
      else fst (write_to_fd fd bs s) = Inr 0)"
proof (induction fd bs s rule: write_to_fd.induct)
  case (1 fd bs s)
  let ?r = "write_to_fd fd bs s"
  show ?case
  proof (cases "bs = []")
    case True
    then have "?r = (Inr 0, s)" by (simp add: write_to_fd.simps)
    then show ?thesis using True by simp
  next
    case False
    obtain q u where w: "sys_write fd bs s = (q, u)" by fastforce
    then consider "q = Inl Sigpipe" "evs u = evs s" | "q = Inr None" "evs u = evs s"
      | k where "q = Inr (Some k)" "0 < k" "k \<le> length bs" "evs u = evs s @ [Wrote fd (take k bs)]"
      using False by (auto simp: sys_write_def Let_def split: list.splits wr.splits)
    then show ?thesis
    proof cases
      case 1
      then have "?r = (Inl Sigpipe, u)" using w False by (subst write_to_fd.simps) simp
      then show ?thesis using 1 False by (intro exI [of _ 0]) simp
    next
      case 2
      then have "?r = (Inr (- 1), u)" using w False by (subst write_to_fd.simps) simp
      then show ?thesis using 2 False by (intro exI [of _ 0]) simp
    next
      case (3 k)
      then have r: "?r = write_to_fd fd (drop k bs) u" using w False by (subst write_to_fd.simps) simp
      obtain n where n: "\<forall>g. sent g (evs (snd ?r)) = sent g (evs u) @ (if g = fd then take n (drop k bs) else [])"
        "if n < length (drop k bs) then fst ?r = Inr (- 1) \<or> fst ?r = Inl Sigpipe else fst ?r = Inr 0"
        using "1.IH" [OF False w [symmetric] 3(1) refl] unfolding r by blast
      have "sent g (evs u) = sent g (evs s) @ (if g = fd then take k bs else [])" for g using 3(4) by simp
      moreover have "take k bs @ take n (drop k bs) = take (k + n) bs" by (simp add: take_add)
      ultimately show ?thesis using n 3(3) by (intro exI [of _ "k + n"]) (auto split: if_splits)
    qed
  qed
qed

text \<open>
  While enough bytes are pending, \<open>read_from_fd\<close> returns the next ones and their number, and
  takes exactly these from the descriptor, in whatever runs they arrive.
\<close>

lemma read_from_fd_exact:
  assumes "n \<le> length (avail fd s)" and "n < 2 ^ 31"
  shows "read_from_fd fd n s = (Inr (int n, take n (avail fd s)), skip_rx fd n s)"
proof -
  have "sint (of_nat n :: 32 word) = int n"
    using assms(2) by (simp add: signed_of_nat signed_take_bit_int_eq_self)
  then show ?thesis using read_from_fd_avail [OF assms(1)] by simp
qed

lemma read_from_fd_exact_witness:
  "fst (read_from_fd 5 4 sample_os) = Inr (4, [1, 2, 3, 4])"
  using read_from_fd_exact [where fd = 5 and n = 4 and s = sample_os] by (simp add: sample_os_def)

text \<open>
  \<open>int_to_cstring\<close> writes behind the memory it allocates for every number but the most
  negative ones: it has no room for the terminator, and counts the digits of the number where
  it prints those of the unsigned one.
\<close>

lemma int_to_cstring_overrun:
  assumes "- (10 ^ 9) < src" and "src < 2 ^ 31"
  shows "int_to_cstring src s = (Inl (UB OutOfBounds), s)"
proof -
  let ?w = "unat (of_int src :: 32 word)"
  have d: "digits_loop src 1 = int (length (dec (nat \<bar>src\<bar>)))" by (simp add: digits_loop_dec)
  have m: "src \<noteq> INT_MIN" using assms by (simp add: INT_MIN_def)
  have "nat (if src < 0 then digits_loop src 1 + 1 else digits_loop src 1) < length (dec ?w) + 1"
  proof (cases "src < 0")
    case False
    then have "?w = nat src" using assms by (intro unat_of_int_32) auto
    then show ?thesis using False d by simp
  next
    case True
    have "uint (of_int src :: 32 word) = src mod 2 ^ 32" by (simp add: uint_word_of_int)
    also have "\<dots> = (src + 2 ^ 32) mod 2 ^ 32" by simp
    also have "\<dots> = src + 2 ^ 32" using assms True by (intro mod_pos_pos_trivial) auto
    finally have "?w = nat (src + 2 ^ 32)" by (simp only: unat_eq_nat_uint)
    then have "10 ^ 9 \<le> ?w" using assms by simp
    then have "10 \<le> length (dec ?w)" using length_dec_ge [of 9 ?w] by simp
    moreover have "length (dec (nat \<bar>src\<bar>)) \<le> 9" using assms True by (intro length_dec_le) auto
    ultimately show ?thesis using True d by simp
  qed
  then show ?thesis
    using m by (simp add: int_to_cstring_def bnd_run get_number_of_digits_in_def int_to_string_def
        Let_def)
qed

lemma int_to_cstring_overrun_witness:
  "int_to_cstring (- 7) sample_os = (Inl (UB OutOfBounds), sample_os)"
  by (rule int_to_cstring_overrun) simp_all

text \<open>\<open>check_port\<close> accepts the text of a number exactly when it is between 1025 and 65535.\<close>

lemma check_port_dec:
  assumes "int n \<le> LONG_MAX"
  shows "check_port (dec n) = (if 1024 < n \<and> n < 65536 then 1 else 0)"
  using strtol_dec [OF assms] by (simp add: check_port_def)

lemma check_port_dec_witness: "check_port (dec 10001) = 1"
  using check_port_dec [of 10001] by (simp add: LONG_MAX_def)

end
