(* ===== verification/Packets.thy ===== *)
theory Packets
  imports Util
begin

unbundle bit_operations_syntax

text \<open>
  \<open>packets_defines.h\<close>: the opcodes, built with the macros of the header, and the answer
  codes of a download. \<open>packets_doc.h\<close>: the layout of every packet, as the abstract
  packets and their encoding the senders and the handlers are compared with.
\<close>

section \<open>Opcodes\<close>

abbreviation (input) PKT_ID_SIZE :: nat where "PKT_ID_SIZE \<equiv> 1"

definition CMSG_MASK :: byte where "CMSG_MASK = push_bit 6 0"
definition SMSG_MASK :: byte where "SMSG_MASK = push_bit 6 1"
definition CMSG_INT_MASK :: byte where "CMSG_INT_MASK = (push_bit 7 1 OR CMSG_MASK)"
definition SMSG_INT_MASK :: byte where "SMSG_INT_MASK = (push_bit 7 1 OR SMSG_MASK)"

definition CMSG :: "byte \<Rightarrow> byte" where "CMSG x = (CMSG_MASK OR x)"
definition SMSG :: "byte \<Rightarrow> byte" where "SMSG x = (SMSG_MASK OR x)"
definition CMSGI :: "byte \<Rightarrow> byte" where "CMSGI x = (CMSG_INT_MASK OR x)"
definition SMSGI :: "byte \<Rightarrow> byte" where "SMSGI x = (SMSG_INT_MASK OR x)"

definition CMSG_NEIGHBOURS :: byte where "CMSG_NEIGHBOURS = CMSG 0"
definition CMSG_JOIN :: byte where "CMSG_JOIN = CMSG 1"
definition CMSG_NEIGHBOUR_RESCUE :: byte where "CMSG_NEIGHBOUR_RESCUE = CMSG 2"
definition CMSG_SEARCH_REQUEST :: byte where "CMSG_SEARCH_REQUEST = CMSG 3"
definition CMSG_LEAVE :: byte where "CMSG_LEAVE = CMSG 4"
definition CMSG_DOWNLOAD :: byte where "CMSG_DOWNLOAD = CMSG 5"

definition SMSG_NEIGHBOURS :: byte where "SMSG_NEIGHBOURS = SMSG 0"
definition SMSG_JOIN :: byte where "SMSG_JOIN = SMSG 1"
definition SMSG_NEIGHBOUR_RESCUE :: byte where "SMSG_NEIGHBOUR_RESCUE = SMSG 2"
definition SMSG_SEARCH_REQUEST :: byte where "SMSG_SEARCH_REQUEST = SMSG 3"
definition SMSG_DOWNLOAD :: byte where "SMSG_DOWNLOAD = SMSG 4"

definition CMSG_INT_HANDSHAKE :: byte where "CMSG_INT_HANDSHAKE = CMSGI 0"
definition CMSG_INT_EXIT :: byte where "CMSG_INT_EXIT = CMSGI 1"
definition CMSG_INT_SEARCH :: byte where "CMSG_INT_SEARCH = CMSGI 2"
definition CMSG_INT_DOWNLOAD :: byte where "CMSG_INT_DOWNLOAD = CMSGI 3"

definition SMSG_INT_HANDSHAKE :: byte where "SMSG_INT_HANDSHAKE = SMSGI 0"
definition SMSG_INT_SEARCH :: byte where "SMSG_INT_SEARCH = SMSGI 1"
definition SMSG_INT_DOWNLOAD :: byte where "SMSG_INT_DOWNLOAD = SMSGI 2"

definition ANSWER_CODE_LOCAL :: byte where "ANSWER_CODE_LOCAL = 0"
definition ANSWER_CODE_REMOTE_OFFLINE :: byte where "ANSWER_CODE_REMOTE_OFFLINE = 1"
definition ANSWER_CODE_REMOTE_NOT_FOUND :: byte where "ANSWER_CODE_REMOTE_NOT_FOUND = 2"
definition ANSWER_CODE_REMOTE_FOUND :: byte where "ANSWER_CODE_REMOTE_FOUND = 3"

lemmas opcode_defs = CMSG_NEIGHBOURS_def CMSG_JOIN_def CMSG_NEIGHBOUR_RESCUE_def
  CMSG_SEARCH_REQUEST_def CMSG_LEAVE_def CMSG_DOWNLOAD_def SMSG_NEIGHBOURS_def SMSG_JOIN_def
  SMSG_NEIGHBOUR_RESCUE_def SMSG_SEARCH_REQUEST_def SMSG_DOWNLOAD_def CMSG_INT_HANDSHAKE_def
  CMSG_INT_EXIT_def CMSG_INT_SEARCH_def CMSG_INT_DOWNLOAD_def SMSG_INT_HANDSHAKE_def
  SMSG_INT_SEARCH_def SMSG_INT_DOWNLOAD_def CMSG_def SMSG_def CMSGI_def SMSGI_def
  CMSG_MASK_def SMSG_MASK_def CMSG_INT_MASK_def SMSG_INT_MASK_def

lemmas answer_defs = ANSWER_CODE_LOCAL_def ANSWER_CODE_REMOTE_OFFLINE_def
  ANSWER_CODE_REMOTE_NOT_FOUND_def ANSWER_CODE_REMOTE_FOUND_def

lemma opcode_values:
  "CMSG_NEIGHBOURS = 0" "CMSG_JOIN = 1" "CMSG_NEIGHBOUR_RESCUE = 2" "CMSG_SEARCH_REQUEST = 3"
  "CMSG_LEAVE = 4" "CMSG_DOWNLOAD = 5" "SMSG_NEIGHBOURS = 64" "SMSG_JOIN = 65"
  "SMSG_NEIGHBOUR_RESCUE = 66" "SMSG_SEARCH_REQUEST = 67" "SMSG_DOWNLOAD = 68"
  "CMSG_INT_HANDSHAKE = 128" "CMSG_INT_EXIT = 129" "CMSG_INT_SEARCH = 130"
  "CMSG_INT_DOWNLOAD = 131" "SMSG_INT_HANDSHAKE = 192" "SMSG_INT_SEARCH = 193"
  "SMSG_INT_DOWNLOAD = 194"
  by (simp_all add: opcode_defs)

section \<open>The packets of \<open>packets_doc.h\<close>\<close>

text \<open>A machine: its address and its contact port, both as text.\<close>

type_synonym machine = "cstr \<times> cstr"

datatype packet =
    PNeighbours
  | PJoin byte cstr
  | PSearchRequest cstr cstr cstr byte "machine list"
  | PLeave
  | PDownload cstr
  | PNeighboursList "machine list"
  | PJoinRefused byte
  | PJoinAccepted cstr
  | PSearchAnswer cstr "machine list"
  | PDownloadNotFound cstr cstr cstr
  | PDownloadFile cstr "byte list"
  | PIntHandshake
  | PIntExit
  | PIntSearch cstr
  | PIntDownload cstr cstr cstr
  | PIntHandshakeOk
  | PIntSearchAnswer cstr "machine list"
  | PIntDownloadError byte cstr cstr cstr
  | PIntDownloadDone cstr

definition enc_machine :: "machine \<Rightarrow> byte list" where
  "enc_machine m = enc_lstr (fst m) @ enc_lstr (snd m)"

definition enc_machines :: "machine list \<Rightarrow> byte list" where
  "enc_machines ms = concat (map enc_machine ms)"

definition enc_counted :: "machine list \<Rightarrow> byte list" where
  "enc_counted ms = u8 (length ms) # enc_machines ms"

fun encode :: "packet \<Rightarrow> byte list" where
  "encode PNeighbours = [CMSG_NEIGHBOURS]"
| "encode (PJoin rescue p) = CMSG_JOIN # rescue # enc_lstr p"
| "encode (PSearchRequest i p f t ms) =
     CMSG_SEARCH_REQUEST # enc_lstr i @ enc_lstr p @ enc_lstr f @ t # enc_counted ms"
| "encode PLeave = [CMSG_LEAVE]"
| "encode (PDownload f) = CMSG_DOWNLOAD # enc_lstr f"
| "encode (PNeighboursList ms) = SMSG_NEIGHBOURS # enc_counted ms"
| "encode (PJoinRefused a) = [SMSG_JOIN, a]"
| "encode (PJoinAccepted p) = SMSG_JOIN # 1 # enc_lstr p"
| "encode (PSearchAnswer f ms) = SMSG_SEARCH_REQUEST # enc_lstr f @ enc_counted ms"
| "encode (PDownloadNotFound i p f) =
     SMSG_DOWNLOAD # ANSWER_CODE_REMOTE_NOT_FOUND # enc_lstr i @ enc_lstr p @ enc_lstr f"
| "encode (PDownloadFile f c) =
     SMSG_DOWNLOAD # ANSWER_CODE_REMOTE_FOUND # enc_lstr f @ le32 (length c) @ c"
| "encode PIntHandshake = [CMSG_INT_HANDSHAKE]"
| "encode PIntExit = [CMSG_INT_EXIT]"
| "encode (PIntSearch f) = CMSG_INT_SEARCH # enc_lstr f"
| "encode (PIntDownload i p f) = CMSG_INT_DOWNLOAD # enc_lstr i @ enc_lstr p @ enc_lstr f"
| "encode PIntHandshakeOk = [SMSG_INT_HANDSHAKE]"
| "encode (PIntSearchAnswer f ms) = SMSG_INT_SEARCH # enc_lstr f @ enc_counted ms"
| "encode (PIntDownloadError c i p f) =
     SMSG_INT_DOWNLOAD # c # enc_lstr i @ enc_lstr p @ enc_lstr f"
| "encode (PIntDownloadDone f) = SMSG_INT_DOWNLOAD # ANSWER_CODE_REMOTE_FOUND # enc_lstr f"

definition wf_machine :: "machine \<Rightarrow> bool" where
  "wf_machine m \<longleftrightarrow> wf_lstr (fst m) \<and> wf_lstr (snd m)"

definition wf_machines :: "machine list \<Rightarrow> bool" where
  "wf_machines ms \<longleftrightarrow> length ms < 256 \<and> list_all wf_machine ms"

lemma enc_machines_simps [simp]:
  "enc_machines [] = []" "enc_machines (m # ms) = enc_machine m @ enc_machines ms"
  "enc_machines (ms @ ms') = enc_machines ms @ enc_machines ms'"
  by (simp_all add: enc_machines_def)

lemma length_enc_machine [simp]:
  "length (enc_machine m) = 2 + length (fst m) + length (snd m)"
  by (simp add: enc_machine_def)

text \<open>
  Reading the machines of a list one by one, as every handler does. The text of each is
  terminated by the reader.
\<close>

primrec read_machines :: "int \<Rightarrow> nat \<Rightarrow> ('z, machine list) osprog" where
  "read_machines fd 0 = ret []"
| "read_machines fd (Suc n) =
     bnd (read_lstr fd) (\<lambda>i. bnd (read_lstr fd) (\<lambda>p.
     bnd (read_machines fd n) (\<lambda>ms. ret ((i, p) # ms))))"

lemma read_machines_avail:
  "avail fd s = enc_machines ms @ rest \<Longrightarrow> list_all wf_machine ms \<Longrightarrow>
   read_machines fd (length ms) s = (Inr ms, skip_rx fd (length (enc_machines ms)) s)"
proof (induction ms arbitrary: s)
  case Nil
  then show ?case by simp
next
  case (Cons m ms)
  obtain i p where m: "m = (i, p)" by (cases m)
  have a: "avail fd s = enc_lstr i @ enc_lstr p @ enc_machines ms @ rest" "wf_lstr i" "wf_lstr p"
    using Cons.prems m by (auto simp: enc_machine_def wf_machine_def)
  let ?s1 = "skip_rx fd (Suc (length i)) s"
  let ?s2 = "skip_rx fd (Suc (length p)) ?s1"
  have 1: "read_lstr fd s = (Inr i, ?s1)" using a by (intro read_lstr_avail) auto
  have 2: "read_lstr fd ?s1 = (Inr p, ?s2)" using a by (intro read_lstr_avail) auto
  have "avail fd ?s2 = enc_machines ms @ rest" using a by simp
  then have 3: "read_machines fd (length ms) ?s2 = (Inr ms, skip_rx fd (length (enc_machines ms)) ?s2)"
    using Cons.prems by (intro Cons.IH) auto
  show ?case using 1 2 3 a m by (simp add: bnd_run add.commute)
qed

context os_frame
begin

lemma keeps_read_machines: "keeps P (read_machines fd n)"
proof (induction n)
  case 0
  show ?case unfolding read_machines.simps by (rule keeps_ret)
next
  case (Suc n)
  show ?case unfolding read_machines.simps by (intro keep_rules keeps_read_lstr Suc.IH)
qed

end

section \<open>Polling\<close>

text \<open>The next \<open>poll\<close> on a descriptor reports that there is something to read.\<close>

definition ready :: "int \<Rightarrow> 'z os_scheme \<Rightarrow> bool" where
  "ready fd s \<longleftrightarrow> (\<exists>c. script s (Poll fd) = 1 # c)"

definition polled :: "int \<Rightarrow> 'z os_scheme \<Rightarrow> 'z os_scheme" where
  "polled fd s = s\<lparr>script := (script s)(Poll fd := tl (script s (Poll fd)))\<rparr>"

lemma poll_ready [run_simps]: "ready fd s \<Longrightarrow> poll_fd fd s = (Inr 1, polled fd s)"
  by (auto simp: poll_fd_def sys_def ready_def polled_def)

lemma polled_fields [simp]:
  "rx (polled fd s) = rx s" "wx (polled fd s) = wx s" "junk (polled fd s) = junk s"
  "evs (polled fd s) = evs s" "files (polled fd s) = files s" "os.more (polled fd s) = os.more s"
  by (simp_all add: polled_def)

text \<open>After the poll and the opcode.\<close>

definition opened :: "int \<Rightarrow> 'z os_scheme \<Rightarrow> 'z os_scheme" where
  "opened fd s = skip_rx fd 1 (polled fd s)"

lemma opened_fields [simp]:
  "wx (opened fd s) = wx s" "junk (opened fd s) = junk s" "evs (opened fd s) = evs s"
  "files (opened fd s) = files s"
  by (simp_all add: opened_def)

lemma avail_opened: "avail fd s = b # rest \<Longrightarrow> avail fd (opened fd s) = rest"
  by (simp add: opened_def)

lemma opcode_read: "avail fd s = b # rest \<Longrightarrow> read_u8 fd (polled fd s) = (Inr b, opened fd s)"
  unfolding opened_def by (rule read_u8_avail [where rest = rest]) simp

lemma encode_opcode: "encode p = hd (encode p) # tl (encode p)"
  by (cases p) simp_all

section \<open>The layouts are unambiguous\<close>

text \<open>
  What the two ends may put into a packet: texts that fit their length byte, a file that fits its
  four bytes, and the answer byte that belongs to the layout.
\<close>

fun wf_packet :: "packet \<Rightarrow> bool" where
  "wf_packet (PJoin rescue p) = wf_lstr p"
| "wf_packet (PSearchRequest i p f t ms) = (wf_lstr i \<and> wf_lstr p \<and> wf_lstr f \<and> wf_machines ms)"
| "wf_packet (PDownload f) = wf_lstr f"
| "wf_packet (PNeighboursList ms) = wf_machines ms"
| "wf_packet (PJoinRefused a) = (a \<noteq> 1)"
| "wf_packet (PJoinAccepted p) = wf_lstr p"
| "wf_packet (PSearchAnswer f ms) = (wf_lstr f \<and> wf_machines ms)"
| "wf_packet (PDownloadNotFound i p f) = (wf_lstr i \<and> wf_lstr p \<and> wf_lstr f)"
| "wf_packet (PDownloadFile f c) = (wf_lstr f \<and> length c < 2 ^ 32)"
| "wf_packet (PIntSearch f) = wf_lstr f"
| "wf_packet (PIntDownload i p f) = (wf_lstr i \<and> wf_lstr p \<and> wf_lstr f)"
| "wf_packet (PIntSearchAnswer f ms) = (wf_lstr f \<and> wf_machines ms)"
| "wf_packet (PIntDownloadError c i p f) =
     (c \<noteq> ANSWER_CODE_REMOTE_FOUND \<and> wf_lstr i \<and> wf_lstr p \<and> wf_lstr f)"
| "wf_packet (PIntDownloadDone f) = wf_lstr f"
| "wf_packet _ = True"

lemma u8_cancel: "n < 256 \<Longrightarrow> m < 256 \<Longrightarrow> u8 n = u8 m \<longleftrightarrow> n = m"
  by (metis unat_u8_small)

lemma enc_lstr_cancel:
  "wf_lstr x \<Longrightarrow> wf_lstr y \<Longrightarrow> enc_lstr x @ r = enc_lstr y @ r' \<longleftrightarrow> x = y \<and> r = r'"
  by (auto simp: enc_lstr_def wf_lstr_def u8_cancel)

lemma enc_machines_cancel:
  assumes "length ms = length ms'" and "list_all wf_machine ms" and "list_all wf_machine ms'"
  shows "enc_machines ms @ r = enc_machines ms' @ r' \<longleftrightarrow> ms = ms' \<and> r = r'"
  using assms
proof (induction ms ms' rule: list_induct2)
  case (Cons m ms m' ms')
  then show ?case
    by (cases m; cases m') (auto simp: enc_machine_def wf_machine_def enc_lstr_cancel)
qed simp

lemma enc_counted_cancel:
  assumes "wf_machines ms" and "wf_machines ms'"
  shows "enc_counted ms @ r = enc_counted ms' @ r' \<longleftrightarrow> ms = ms' \<and> r = r'"
proof (cases "length ms = length ms'")
  case True
  then show ?thesis using assms enc_machines_cancel by (simp add: enc_counted_def wf_machines_def)
next
  case False
  then have "u8 (length ms) \<noteq> u8 (length ms')" using assms by (simp add: u8_cancel wf_machines_def)
  then show ?thesis using False by (auto simp: enc_counted_def)
qed

lemma le32_cancel: "n < 2 ^ 32 \<Longrightarrow> m < 2 ^ 32 \<Longrightarrow> le32 n = le32 m \<longleftrightarrow> n = m"
  by (metis un_le32_le32)

text \<open>
  The layouts of the packets are unambiguous: two well-formed packets at the front of the same
  stream are the same packet, with the same rest behind them.
\<close>

lemma packets_unambiguous:
  assumes "wf_packet p" and "wf_packet q" and "encode p @ r = encode q @ r'"
  shows "p = q \<and> r = r'"
  using assms
  by (cases p; cases q)
    (auto simp: opcode_values answer_defs enc_lstr_cancel enc_counted_cancel le32_cancel)

lemma packets_unambiguous_example:
  "PIntSearch (cs ''a'') = PIntSearch [97] \<and> encode (PNeighboursList []) = encode (PNeighboursList [])"
  using packets_unambiguous [of "PIntSearch (cs ''a'')" "PIntSearch [97]" "[]" "[]"]
  by (simp add: cs_def wf_lstr_def is_cstr_def)

end
