(* ===== verification/Log.thy ===== *)
theory Log
  imports Util
begin

text \<open>
  \<open>log.c\<close>, as it is compiled with \<open>DEBUG\<close> (the Makefile sets it): the levels, the stream and
  the decoration of each, the formatting into a buffer of \<open>MAX_BUFFER_LENGTH\<close> bytes, and
  the assertions. The arguments of a format are given as the text they print as. At the end the
  build without \<open>DEBUG\<close>, whose log functions and assertions are empty.
\<close>

definition LOG_LEVEL_INFO :: int where "LOG_LEVEL_INFO = 0"
definition LOG_LEVEL_WARNING :: int where "LOG_LEVEL_WARNING = 1"
definition LOG_LEVEL_ERROR :: int where "LOG_LEVEL_ERROR = 2"
definition LOG_LEVEL_FATAL :: int where "LOG_LEVEL_FATAL = 3"
definition LOG_LEVEL_MAX :: int where "LOG_LEVEL_MAX = 4"

definition MAX_BUFFER_LENGTH :: nat where "MAX_BUFFER_LENGTH = 4096"

text \<open>
  The conversions of the formats of the code are single letters. \<open>None\<close>: a conversion has
  no argument, which is undefined behaviour.
\<close>

fun vformat :: "cstr \<Rightarrow> cstr list \<Rightarrow> cstr option" where
  "vformat (d # c # fmt) args =
     (if d = 37 then
        (case args of [] \<Rightarrow> None | a # as \<Rightarrow> map_option (\<lambda>r. a @ r) (vformat fmt as))
      else map_option (\<lambda>r. d # r) (vformat (c # fmt) args))"
| "vformat fmt args = Some fmt"

definition vsnprintf :: "nat \<Rightarrow> cstr \<Rightarrow> cstr list \<Rightarrow> ('s, cstr) prog" where
  "vsnprintf n fmt args = (case vformat fmt args of
     None \<Rightarrow> halt (UB BadVarargs) | Some t \<Rightarrow> ret (take (n - 1) t))"

text \<open>\<open>get_log_file_by_level\<close>: 1 is \<open>stdout\<close>, 2 is \<open>stderr\<close>.\<close>

definition get_log_file_by_level :: "int \<Rightarrow> int option" where
  "get_log_file_by_level level =
     (if level = LOG_LEVEL_INFO then Some 1
      else if level = LOG_LEVEL_WARNING then Some 2
      else if level = LOG_LEVEL_ERROR then Some 2
      else if level = LOG_LEVEL_FATAL then Some 2
      else None)"

definition esc :: "string \<Rightarrow> cstr" where
  "esc x = 27 # cs x"

definition log_info :: "cstr \<Rightarrow> cstr" where
  "log_info message = esc ''[0;38;2;0;204;204m[Info]: '' @ message @ esc ''[0;39m''"

definition log_warning :: "cstr \<Rightarrow> cstr" where
  "log_warning message = esc ''[0;38;2;153;51;255m[Warning]: '' @ message @ esc ''[0;39m''"

definition log_critical :: "cstr \<Rightarrow> cstr" where
  "log_critical message = esc ''[0;38;2;255;0;0m[Error]: '' @ message @ esc ''[0;39m''"

definition log_fatal :: "cstr \<Rightarrow> cstr" where
  "log_fatal message = esc ''[0;38;2;0;0;0;48;2;255;255;255m[Fatal]: '' @ message
     @ esc ''[0;39m'' @ esc ''[0;49m''"

definition get_log_function_by_level :: "int \<Rightarrow> (cstr \<Rightarrow> cstr) option" where
  "get_log_function_by_level level =
     (if level = LOG_LEVEL_INFO then Some log_info
      else if level = LOG_LEVEL_WARNING then Some log_warning
      else if level = LOG_LEVEL_ERROR then Some log_critical
      else if level = LOG_LEVEL_FATAL then Some log_fatal
      else None)"

definition log_internal :: "(cstr \<Rightarrow> cstr) option \<Rightarrow> cstr \<Rightarrow> int option \<Rightarrow> cstr list
    \<Rightarrow> ('z, unit) osprog" where
  "log_internal log_fn format file va =
     (case log_fn of None \<Rightarrow> halt AssertFail
      | Some f \<Rightarrow> (case file of None \<Rightarrow> halt AssertFail
      | Some fd \<Rightarrow> bnd (vsnprintf MAX_BUFFER_LENGTH format va) (\<lambda>buffer. emit (Logged fd (f buffer)))))"

definition applog :: "int \<Rightarrow> cstr option \<Rightarrow> cstr list \<Rightarrow> ('z, int) osprog" where
  "applog log_level format va =
     (case format of None \<Rightarrow> ret (- 1)
      | Some fmt \<Rightarrow>
          if log_level \<ge> LOG_LEVEL_MAX \<or> log_level < 0 then ret (- 1)
          else seq (log_internal (get_log_function_by_level log_level) fmt
                     (get_log_file_by_level log_level) va)
                   (ret 0))"

definition log_to_file :: "int \<Rightarrow> int \<Rightarrow> cstr option \<Rightarrow> cstr list \<Rightarrow> ('z, int) osprog" where
  "log_to_file log_level file format va =
     (case format of None \<Rightarrow> ret (- 1)
      | Some fmt \<Rightarrow>
          if log_level \<ge> LOG_LEVEL_MAX \<or> log_level < 0 then ret (- 1)
          else seq (log_internal (get_log_function_by_level log_level) fmt (Some file) va)
                   (ret 0))"

definition debug_assert :: "bool \<Rightarrow> cstr \<Rightarrow> cstr list \<Rightarrow> ('z, unit) osprog" where
  "debug_assert condition format va =
     (if \<not> condition then
        (case vformat format va of
           None \<Rightarrow> halt (UB BadVarargs)
         | Some t \<Rightarrow> seq (print t) (halt AssertFail))
      else ret ())"

definition debug_file_assert :: "bool \<Rightarrow> int \<Rightarrow> cstr \<Rightarrow> cstr list \<Rightarrow> ('z, unit) osprog" where
  "debug_file_assert condition file format va =
     (if \<not> condition then
        (case vformat format va of
           None \<Rightarrow> halt (UB BadVarargs)
         | Some t \<Rightarrow> seq (emit (Logged file t)) (halt AssertFail))
      else ret ())"

lemmas log_levels = LOG_LEVEL_INFO_def LOG_LEVEL_WARNING_def LOG_LEVEL_ERROR_def
  LOG_LEVEL_FATAL_def LOG_LEVEL_MAX_def

text \<open>The number of conversions a format has.\<close>

fun conversions :: "cstr \<Rightarrow> nat" where
  "conversions (d # c # fmt) =
     (if d = 37 then Suc (conversions fmt) else conversions (c # fmt))"
| "conversions fmt = 0"

lemma vformat_enough: "vformat fmt args = None \<longleftrightarrow> length args < conversions fmt"
  by (induction fmt args rule: vformat.induct) (auto split: list.splits)

context os_frame
begin

lemma keeps_applog: "keeps P (applog level format va)"
  unfolding applog_def log_internal_def vsnprintf_def
  by (intro keep_rules keeps_emit)

lemma keeps_log_to_file: "keeps P (log_to_file level file format va)"
  unfolding log_to_file_def log_internal_def vsnprintf_def
  by (intro keep_rules keeps_emit)

lemma keeps_debug_assert: "keeps P (debug_assert c format va)"
  unfolding debug_assert_def by (intro keep_rules keeps_print)

lemma keeps_debug_file_assert: "keeps P (debug_file_assert c file format va)"
  unfolding debug_file_assert_def by (intro keep_rules keeps_emit)

end

section \<open>The build without \<open>DEBUG\<close>\<close>

definition silent_log :: "int \<Rightarrow> cstr \<Rightarrow> ('z, unit) osprog" where
  "silent_log file message = ret ()"

definition silent_assert :: "bool \<Rightarrow> cstr \<Rightarrow> ('z, unit) osprog" where
  "silent_assert condition format = ret ()"

definition silent_file_assert :: "bool \<Rightarrow> int \<Rightarrow> cstr \<Rightarrow> ('z, unit) osprog" where
  "silent_file_assert condition file format = ret ()"

text \<open>\<open>applog\<close> there: the message is formatted all the same.\<close>

definition silent_applog :: "int \<Rightarrow> cstr option \<Rightarrow> cstr list \<Rightarrow> ('z, int) osprog" where
  "silent_applog log_level format va =
     (case format of None \<Rightarrow> ret (- 1)
      | Some fmt \<Rightarrow>
          if log_level \<ge> LOG_LEVEL_MAX \<or> log_level < 0 then ret (- 1)
          else seq (case get_log_function_by_level log_level of None \<Rightarrow> halt AssertFail
                    | Some _ \<Rightarrow> (case get_log_file_by_level log_level of None \<Rightarrow> halt AssertFail
                    | Some fd \<Rightarrow> bnd (vsnprintf MAX_BUFFER_LENGTH fmt va) (silent_log fd)))
                   (ret 0))"

text \<open>
  The two builds differ by the output of the log alone: what \<open>applog\<close> returns, and whether it is
  undefined behaviour, is the same. Where an assertion of the debug build holds, so is all that follows.
\<close>

lemma silent_applog_result: "silent_applog level format va s = (fst (applog level format va s), s)"
  by (simp add: silent_applog_def applog_def log_internal_def vsnprintf_def silent_log_def bnd_run seq_run emit_run
      split: option.split)

lemma silent_asserts_hold: "debug_assert True format va = silent_assert True format"
  "debug_file_assert True file format va = silent_file_assert True file format"
  by (simp_all add: debug_assert_def debug_file_assert_def silent_assert_def silent_file_assert_def)

end
