(* ===== verification/Networking.thy ===== *)
theory Networking
  imports Log
begin

unbundle bit_operations_syntax

text \<open>
  \<open>networking.c\<close>: connecting to a peer, listening, and accepting. The loops over the results
  of \<open>getaddrinfo\<close> go on with \<open>continue\<close>, without advancing, when \<open>socket\<close> (or
  \<open>setsockopt\<close>) fails: they may never end. Every turn makes one call of \<open>socket\<close>, so the
  fuel given to them is exact, \<open>Diverges\<close> is the outcome of the loop that never returns.

  Well-formed log calls only write to the log and are left out here and in the components
  above; the one whose format has more conversions than arguments is kept.
\<close>

definition CONNECT_OK :: int where "CONNECT_OK = - 1"
definition CONNECT_ERROR_NO_ADDRINFO :: int where "CONNECT_ERROR_NO_ADDRINFO = - 2"
definition CONNECT_ERROR_NO_NAMEINFO :: int where "CONNECT_ERROR_NO_NAMEINFO = - 3"
definition CONNECT_ERROR_NO_SOCKET :: int where "CONNECT_ERROR_NO_SOCKET = - 4"

definition CL_ERROR_NO_ADDRINFO :: int where "CL_ERROR_NO_ADDRINFO = - 1"
definition CL_ERROR_NO_NAMEINFO :: int where "CL_ERROR_NO_NAMEINFO = - 2"
definition CL_ERROR_NO_SOCKET :: int where "CL_ERROR_NO_SOCKET = - 3"
definition CL_ERROR_NO_LISTEN :: int where "CL_ERROR_NO_LISTEN = - 4"

definition ACCEPT_ERR_TIMEOUT :: int where "ACCEPT_ERR_TIMEOUT = - 2"

lemmas connect_codes = CONNECT_OK_def CONNECT_ERROR_NO_ADDRINFO_def
  CONNECT_ERROR_NO_NAMEINFO_def CONNECT_ERROR_NO_SOCKET_def

lemmas listen_codes = CL_ERROR_NO_ADDRINFO_def CL_ERROR_NO_NAMEINFO_def
  CL_ERROR_NO_SOCKET_def CL_ERROR_NO_LISTEN_def

section \<open>Connecting\<close>

text \<open>The code returned, and what is stored in \<open>*sock\<close> (\<open>None\<close>: nothing).\<close>

fun connect_loop :: "nat \<Rightarrow> addrinfo list \<Rightarrow> ('z, int \<times> int option) osprog" where
  "connect_loop 0 ais = halt Diverges"
| "connect_loop (Suc n) [] = ret (CONNECT_ERROR_NO_SOCKET, None)"
| "connect_loop (Suc n) (None # ais) = ret (CONNECT_ERROR_NO_NAMEINFO, None)"
| "connect_loop (Suc n) (Some nm # ais) =
     bnd (sys SocketCall) (\<lambda>attempted_socket.
     if attempted_socket = - 1 then connect_loop n (Some nm # ais)
     else bnd (sys ConnectCall) (\<lambda>res.
       if res = 0 then ret (CONNECT_OK, Some attempted_socket)
       else seq (sys_close attempted_socket) (connect_loop n ais)))"

definition connect_fuel :: "'z os_scheme \<Rightarrow> nat" where
  "connect_fuel s = Suc (length (script s SocketCall))"

definition connect_to :: "cstr \<Rightarrow> cstr \<Rightarrow> ('z, int \<times> int option) osprog" where
  "connect_to ip port =
     bnd (gets (\<lambda>s. resolver s (Some ip) port)) (\<lambda>res. case res of
       Inl err \<Rightarrow> seq (applog LOG_LEVEL_ERROR
           (Some (cs ''[Network] Erreur lors de la recherche sur %s:%s. Erreur : %s.'' @ [10])) [err])
         (ret (CONNECT_ERROR_NO_ADDRINFO, None))
     | Inr result \<Rightarrow> bnd (gets connect_fuel) (\<lambda>fuel. connect_loop fuel result))"

primrec attempt_connect_to :: "nat \<Rightarrow> cstr \<Rightarrow> cstr \<Rightarrow> int \<Rightarrow> ('z, int \<times> int option) osprog" where
  "attempt_connect_to 0 ip port sleep_time = ret (- 1, None)"
| "attempt_connect_to (Suc n) ip port sleep_time =
     bnd (connect_to ip port) (\<lambda>(res, sk).
     if res \<noteq> CONNECT_OK then
       seq (emit (Slept sleep_time)) (attempt_connect_to n ip port sleep_time)
     else ret (0, sk))"

section \<open>Listening and accepting\<close>

text \<open>\<open>Inl\<close> is an early return, \<open>Inr None\<close> the end of the list without a bound socket.\<close>

fun listen_loop :: "nat \<Rightarrow> addrinfo list \<Rightarrow> ('z, int + int option) osprog" where
  "listen_loop 0 ais = halt Diverges"
| "listen_loop (Suc n) [] = ret (Inr None)"
| "listen_loop (Suc n) (ai # ais) =
     bnd (sys SocketCall) (\<lambda>selected_socket.
     if selected_socket = - 1 then listen_loop n (ai # ais)
     else bnd (sys SetsockoptCall) (\<lambda>res.
     if res = - 1 then listen_loop n (ai # ais)
     else bnd (sys BindCall) (\<lambda>res.
     if res = 0 then
       (case ai of None \<Rightarrow> ret (Inl CL_ERROR_NO_NAMEINFO)
        | Some nm \<Rightarrow> ret (Inr (Some selected_socket)))
     else seq (sys_close selected_socket) (listen_loop n ais))))"

definition create_listening_socket :: "cstr \<Rightarrow> ('z, int) osprog" where
  "create_listening_socket port =
     bnd (gets (\<lambda>s. resolver s None port)) (\<lambda>res. case res of
       Inl err \<Rightarrow> ret CL_ERROR_NO_ADDRINFO
     | Inr result \<Rightarrow> bnd (gets connect_fuel) (\<lambda>fuel.
         bnd (listen_loop fuel result) (\<lambda>r. case r of
           Inl code \<Rightarrow> ret code
         | Inr None \<Rightarrow> ret CL_ERROR_NO_SOCKET
         | Inr (Some selected_socket) \<Rightarrow>
             bnd (sys ListenCall) (\<lambda>res.
             if res < 0 then ret CL_ERROR_NO_LISTEN else ret selected_socket))))"

definition POLLIN :: "16 word" where "POLLIN = 1"

definition EINVAL :: int where "EINVAL = 22"

definition attempt_accept :: "int \<Rightarrow> ('z, int) osprog" where
  "attempt_accept listening_socket =
     bnd (sys (Poll listening_socket)) (\<lambda>res.
     bnd (sys (Revents listening_socket)) (\<lambda>revents.
     if res = 1 \<and> (of_int revents AND POLLIN) \<noteq> 0 then
       bnd (sys (AcceptCall listening_socket)) (\<lambda>accept_res.
       bnd (if accept_res = - 1 then sys Errno else ret 0) (\<lambda>errno.
       seq (debug_assert (\<not> (accept_res = - 1 \<and> errno = EINVAL)) (cs ''accept() : addr invalide ou socket non en '' @ [195, 169] @ cs ''coute.'' @ [10]) [])
           (ret accept_res)))
     else ret ACCEPT_ERR_TIMEOUT))"

section \<open>The fuel is exact\<close>

lemma sys_script [run_simps]:
  "script s c = [] \<Longrightarrow> sys c s = (Inr (sys_default c), s)"
  "script s c = r # rs \<Longrightarrow> sys c s = (Inr r, s\<lparr>script := (script s)(c := rs)\<rparr>)"
  by (simp_all add: sys_def)

lemma connect_loop_stuck:
  "script s SocketCall = [] \<Longrightarrow> connect_loop n (Some nm # ais) s = (Inl Diverges, s)"
  by (induction n) (simp_all add: bnd_run sys_script)

declare connect_loop.simps(4) [simp del]

lemma connect_loop_more:
  fixes s :: "'z os_scheme"
  shows "length (script s SocketCall) < n \<Longrightarrow>
   connect_loop (Suc n) ais s = connect_loop n ais s"
proof (induction n ais arbitrary: s rule: connect_loop.induct)
  case (4 n nm ais)
  have same: "length (script t SocketCall) < n \<Longrightarrow>
      connect_loop (Suc n) (Some nm # ais) t = connect_loop n (Some nm # ais) t" for t :: "'z os_scheme"
    using "4.IH"(1) [of "- 1" t] by simp
  have next_ai: "length (script t SocketCall) < n \<Longrightarrow>
      connect_loop (Suc n) ais t = connect_loop n ais t" for t :: "'z os_scheme"
    using "4.IH"(2) [of 0 1 t] by simp
  show ?case
  proof (cases "script s SocketCall")
    case Nil
    then show ?thesis by (simp add: connect_loop_stuck)
  next
    case (Cons r rs)
    then have "length rs < n" using "4.prems" by simp
    then show ?thesis
      using Cons connect_loop.simps(4) [of "Suc n" nm ais, THEN fun_cong, of s]
        connect_loop.simps(4) [of n nm ais, THEN fun_cong, of s]
      by (simp add: bnd_run seq_run sys_def sys_close_def emit_run same next_ai split: list.splits)
  qed
qed auto

lemma connect_loop_enough:
  assumes "connect_fuel s \<le> n"
  shows "connect_loop n ais s = connect_loop (connect_fuel s) ais s"
  using assms
proof (induction n)
  case 0
  then show ?case by (simp add: connect_fuel_def)
next
  case (Suc n)
  show ?case
  proof (cases "connect_fuel s = Suc n")
    case False
    then have "connect_fuel s \<le> n" using Suc.prems by simp
    then show ?thesis
      using Suc.IH connect_loop_more [of s n ais] by (simp add: connect_fuel_def)
  qed simp
qed

lemma listen_loop_stuck:
  "script s SocketCall = [] \<Longrightarrow> listen_loop n (ai # ais) s = (Inl Diverges, s)"
  by (induction n) (simp_all add: bnd_run sys_script)

declare listen_loop.simps(3) [simp del]

lemma listen_loop_more:
  fixes s :: "'z os_scheme"
  shows "length (script s SocketCall) < n \<Longrightarrow> listen_loop (Suc n) ais s = listen_loop n ais s"
proof (induction n ais arbitrary: s rule: listen_loop.induct)
  case (3 n ai ais)
  have same: "length (script t SocketCall) < n \<Longrightarrow>
      listen_loop (Suc n) (ai # ais) t = listen_loop n (ai # ais) t" for t :: "'z os_scheme"
    using "3.IH"(1) [of "- 1" t] by simp
  have next_ai: "length (script t SocketCall) < n \<Longrightarrow>
      listen_loop (Suc n) ais t = listen_loop n ais t" for t :: "'z os_scheme"
    using "3.IH"(3) [of 0 0 1 t] by simp
  show ?case
  proof (cases "script s SocketCall")
    case Nil
    then show ?thesis by (simp add: listen_loop_stuck)
  next
    case (Cons r rs)
    then have "length rs < n" using "3.prems" by simp
    then show ?thesis
      using Cons listen_loop.simps(3) [of "Suc n" ai ais, THEN fun_cong, of s]
        listen_loop.simps(3) [of n ai ais, THEN fun_cong, of s]
      by (simp add: bnd_run seq_run sys_def sys_close_def emit_run same next_ai
          split: list.splits option.splits)
  qed
qed auto

lemma listen_loop_enough:
  assumes "connect_fuel s \<le> n"
  shows "listen_loop n ais s = listen_loop (connect_fuel s) ais s"
  using assms
proof (induction n)
  case 0
  then show ?case by (simp add: connect_fuel_def)
next
  case (Suc n)
  show ?case
  proof (cases "connect_fuel s = Suc n")
    case False
    then have "connect_fuel s \<le> n" using Suc.prems by simp
    then show ?thesis
      using Suc.IH listen_loop_more [of s n ais] by (simp add: connect_fuel_def)
  qed simp
qed

section \<open>What a connection returns\<close>

definition connect_result_ok :: "int \<times> int option \<Rightarrow> bool" where
  "connect_result_ok r \<longleftrightarrow> (case snd r of None \<Rightarrow> fst r \<noteq> CONNECT_OK
     | Some k \<Rightarrow> fst r = CONNECT_OK \<and> k \<noteq> - 1)"

lemma connect_loop_result:
  "connect_loop n ais s = (Inr r, t) \<Longrightarrow> connect_result_ok r"
proof (induction n ais arbitrary: s rule: connect_loop.induct)
  case (4 n nm ais)
  from "4.prems" obtain a u where a: "sys SocketCall s = (Inr a, u)"
    and rest: "(if a = - 1 then connect_loop n (Some nm # ais)
      else bnd (sys ConnectCall) (\<lambda>res. if res = 0 then ret (CONNECT_OK, Some a)
        else seq (sys_close a) (connect_loop n ais))) u = (Inr r, t)"
    unfolding connect_loop.simps by (elim bnd_InrE)
  show ?case
  proof (cases "a = - 1")
    case True
    then show ?thesis using rest "4.IH"(1) by auto
  next
    case False
    then show ?thesis using rest "4.IH"(2)
      by (fastforce elim!: bnd_InrE seq_InrE split: if_splits simp: connect_result_ok_def)
  qed
qed (auto simp: connect_result_ok_def connect_codes)

lemma connect_to_result:
  assumes "connect_to ip port s = (Inr r, t)"
  shows "connect_result_ok r"
proof (cases "resolver s (Some ip) port")
  case (Inl e)
  then have "r = (CONNECT_ERROR_NO_ADDRINFO, None)"
    using assms by (auto simp: connect_to_def bnd_run seq_run split: prod.splits sum.splits)
  then show ?thesis by (simp add: connect_result_ok_def connect_codes)
next
  case (Inr ais)
  then have "connect_loop (connect_fuel s) ais s = (Inr r, t)"
    using assms by (simp add: connect_to_def bnd_run)
  then show ?thesis by (rule connect_loop_result)
qed

text \<open>Connecting changes neither what descriptors deliver or accept nor the rest of the process.\<close>

definition same_but_calls :: "'z os_scheme \<Rightarrow> 'z os_scheme \<Rightarrow> bool" where
  "same_but_calls s t \<longleftrightarrow> (\<exists>c e. t = s\<lparr>script := c, evs := e\<rparr>)"

lemma same_but_calls_upd:
  assumes "same_but_calls s u"
  shows "same_but_calls s (u\<lparr>script := c\<rparr>)" and "same_but_calls s (u\<lparr>evs := e\<rparr>)"
proof -
  obtain c' e' where "u = s\<lparr>script := c', evs := e'\<rparr>" using assms by (auto simp: same_but_calls_def)
  then have "u\<lparr>script := c\<rparr> = s\<lparr>script := c, evs := e'\<rparr>" "u\<lparr>evs := e\<rparr> = s\<lparr>script := c', evs := e\<rparr>"
    by simp_all
  then show "same_but_calls s (u\<lparr>script := c\<rparr>)" and "same_but_calls s (u\<lparr>evs := e\<rparr>)"
    unfolding same_but_calls_def by blast+
qed

lemma keeps_same:
  fixes s :: "'z os_scheme"
  shows "keeps (same_but_calls s) (sys c)" and "keeps (same_but_calls s) (emit e)"
  by (simp_all add: keeps_def sys_def emit_run same_but_calls_upd split: list.splits)

lemma same_but_calls_refl: "same_but_calls s s"
  unfolding same_but_calls_def by (intro exI [of _ "script s"] exI [of _ "evs s"]) simp

lemma keeps_connect_same:
  fixes s :: "'z os_scheme"
  shows "keeps (same_but_calls s) (connect_to ip port)"
proof -
  have "keeps (same_but_calls s) (connect_loop n ais)" for n ais
  proof (induction n ais rule: connect_loop.induct)
    case (4 n nm ais)
    then show ?case
      unfolding connect_loop.simps sys_close_def by (intro keep_rules keeps_same) auto
  qed (simp_all only: connect_loop.simps keeps_ret keeps_halt)
  moreover have "keeps (same_but_calls s) (applog l f a)" for l f a
    unfolding applog_def log_internal_def vsnprintf_def by (intro keep_rules keeps_same)
  ultimately show ?thesis
    unfolding connect_to_def by (intro keep_rules)
qed

lemma keeps_listening_same:
  fixes s :: "'z os_scheme"
  shows "keeps (same_but_calls s) (create_listening_socket port)"
proof -
  have "keeps (same_but_calls s) (listen_loop n ais)" for n ais
  proof (induction n ais rule: listen_loop.induct)
    case (3 n ai ais)
    then show ?case
      unfolding listen_loop.simps sys_close_def by (intro keep_rules keeps_same) auto
  qed (simp_all only: listen_loop.simps keeps_ret keeps_halt)
  then show ?thesis
    unfolding create_listening_socket_def by (intro keep_rules keeps_same)
qed

lemma connect_to_same:
  assumes "connect_to ip port s = (r, t)"
  obtains c e where "t = s\<lparr>script := c, evs := e\<rparr>"
  using keepsD [OF keeps_connect_same same_but_calls_refl assms] that by (auto simp: same_but_calls_def)

lemma create_listening_socket_same:
  assumes "create_listening_socket port s = (r, t)"
  obtains c e where "t = s\<lparr>script := c, evs := e\<rparr>"
  using keepsD [OF keeps_listening_same same_but_calls_refl assms] that by (auto simp: same_but_calls_def)

section \<open>Frames\<close>

context os_frame
begin

lemma keeps_connect_loop: "keeps P (connect_loop n ais)"
proof (induction n ais rule: connect_loop.induct)
  case (4 n nm ais)
  then show ?case
    unfolding connect_loop.simps by (intro keep_rules os_keeps) auto
qed (simp_all only: connect_loop.simps keeps_ret keeps_halt)

lemma keeps_connect_to: "keeps P (connect_to ip port)"
  unfolding connect_to_def
  by (intro keep_rules keeps_connect_loop keeps_applog)

lemma keeps_listen_loop: "keeps P (listen_loop n ais)"
proof (induction n ais rule: listen_loop.induct)
  case (3 n ai ais)
  then show ?case unfolding listen_loop.simps by (intro keep_rules os_keeps) auto
qed (simp_all only: listen_loop.simps keeps_ret keeps_halt)

lemma keeps_create_listening_socket: "keeps P (create_listening_socket port)"
  unfolding create_listening_socket_def by (intro keep_rules os_keeps keeps_listen_loop)

lemma keeps_attempt_accept: "keeps P (attempt_accept fd)"
  unfolding attempt_accept_def by (intro keep_rules os_keeps keeps_debug_assert)

end

section \<open>Properties\<close>

text \<open>
  A connection either succeeds and stores the descriptor of a socket, or it fails with
  another code and stores nothing.
\<close>

lemma connect_to_outcome:
  assumes "connect_to ip port s = (Inr (res, sk), t)"
  shows "(res = CONNECT_OK \<longleftrightarrow> sk \<noteq> None) \<and> sk \<noteq> Some (- 1)"
  using connect_to_result [OF assms] by (auto simp: connect_result_ok_def split: option.splits)

theorem connect_to_outcome_witness:
  "fst (connect_to [51] [52] (sample_os\<lparr>script := (\<lambda>_. [])(SocketCall := [- 1, 9], ConnectCall := [0])\<rparr>))
    = Inr (CONNECT_OK, Some 9) \<and> Some (9 :: int) \<noteq> Some (- 1)"
proof -
  have r: "fst (connect_to [51] [52] (sample_os\<lparr>script := (\<lambda>_. [])(SocketCall := [- 1, 9], ConnectCall := [0])\<rparr>))
    = Inr (CONNECT_OK, Some 9)"
    by (simp add: connect_to_def connect_fuel_def connect_loop.simps bnd_run sys_def sample_os_def
        numeral_3_eq_3)
  then show ?thesis
    using connect_to_outcome [of "[51]" "[52]" "sample_os\<lparr>script := (\<lambda>_. [])(SocketCall := [- 1, 9], ConnectCall := [0])\<rparr>"
        CONNECT_OK "Some 9"] by (metis prod.collapse)
qed

text \<open>
  A host that cannot be resolved is reported with a format that asks for three strings where
  the call passes one.
\<close>

lemma connect_unresolved:
  assumes "resolver s (Some ip) port = Inl err"
  shows "fst (connect_to ip port s) = Inl (UB BadVarargs)"
proof -
  have "vformat (cs ''[Network] Erreur lors de la recherche sur %s:%s. Erreur : %s.'' @ [10]) [err] = None"
    unfolding vformat_enough by (simp add: cs_def)
  then show ?thesis
    using assms by (simp add: connect_to_def bnd_run seq_run applog_def log_levels
        get_log_function_by_level_def get_log_file_by_level_def log_internal_def vsnprintf_def)
qed

theorem connect_unresolved_witness: "fst (connect_to [51] [49] sample_os) = Inl (UB BadVarargs)"
  by (rule connect_unresolved [where err = "[33]"]) (simp add: sample_os_def)

lemma connect_loop_failing:
  "set (script s SocketCall) \<subseteq> {- 1} \<Longrightarrow> fst (connect_loop n (Some nm # ais) s) = Inl Diverges"
proof (induction n arbitrary: s)
  case (Suc n)
  show ?case
  proof (cases "script s SocketCall")
    case Nil
    then show ?thesis by (simp add: connect_loop_stuck)
  next
    case (Cons r rs)
    then show ?thesis
      using Suc.prems Suc.IH [of "s\<lparr>script := (script s)(SocketCall := rs)\<rparr>"]
      by (simp add: connect_loop.simps bnd_run sys_def)
  qed
qed simp

text \<open>
  C31. When \<open>socket\<close> keeps failing the search of a connection never ends: the loop goes on
  without moving to the next address.
\<close>

theorem connect_never_ends:
  assumes "resolver s (Some ip) port = Inr (Some nm # ais)" and "set (script s SocketCall) \<subseteq> {- 1}"
  shows "fst (connect_to ip port s) = Inl Diverges"
  using connect_loop_failing [OF assms(2)] assms(1) by (simp add: connect_to_def bnd_run)

theorem connect_never_ends_witness: "fst (connect_to [51] [52] sample_os) = Inl Diverges"
  by (rule connect_never_ends [where nm = "([50], [52])" and ais = "[]"]) (simp_all add: sample_os_def)

text \<open>The addresses in front, none of which can be connected to.\<close>

lemma connect_loop_skips:
  assumes "length xs = length fds" and "length fds = length errs"
  shows "- 1 \<notin> set fds \<Longrightarrow> 0 \<notin> set errs \<Longrightarrow>
    script s SocketCall = fds @ ks \<Longrightarrow> script s ConnectCall = errs @ rs \<Longrightarrow>
    connect_loop (length xs + n) (map Some (xs @ ys)) s = connect_loop n (map Some ys)
      (s\<lparr>script := (script s)(SocketCall := ks, ConnectCall := rs), evs := evs s @ map Closed fds\<rparr>)"
  using assms
proof (induction xs fds errs arbitrary: s rule: list_induct3)
  case Nil
  then have same: "(script s)(SocketCall := ks, ConnectCall := rs) = script s" by (auto simp: fun_eq_iff)
  show ?case unfolding same by simp
next
  case (Cons x xs fd fds err errs)
  let ?t = "s\<lparr>script := (script s)(SocketCall := fds @ ks, ConnectCall := errs @ rs), evs := evs s @ [Closed fd]\<rparr>"
  have "connect_loop (length (x # xs) + n) (map Some ((x # xs) @ ys)) s =
      connect_loop (length xs + n) (map Some (xs @ ys)) ?t"
    using Cons.prems by (simp add: connect_loop.simps(4) bnd_run seq_run sys_script sys_close_def emit_run)
  also have "\<dots> = connect_loop n (map Some ys) (?t\<lparr>script := (script ?t)(SocketCall := ks, ConnectCall := rs),
      evs := evs ?t @ map Closed fds\<rparr>)"
    using Cons.prems by (intro Cons.IH) simp_all
  also have "?t\<lparr>script := (script ?t)(SocketCall := ks, ConnectCall := rs), evs := evs ?t @ map Closed fds\<rparr> =
      s\<lparr>script := (script s)(SocketCall := ks, ConnectCall := rs), evs := evs s @ map Closed (fd # fds)\<rparr>"
  proof -
    have "(script ?t)(SocketCall := ks, ConnectCall := rs) = (script s)(SocketCall := ks, ConnectCall := rs)"
      by (auto simp: fun_eq_iff)
    then show ?thesis by simp
  qed
  finally show ?case .
qed

text \<open>
  C30. \<open>connect_to\<close> tries the addresses of the host in their order: it gives the socket of the first
  one that answers, or the error when none does, and closes exactly the sockets of those before.
\<close>

theorem connect_to_first:
  assumes "resolver s (Some ip) port = Inr (map Some (xs @ ys))"
    and "script s SocketCall = fds @ ks" and "script s ConnectCall = errs @ rs"
    and "length xs = length fds" and "length fds = length errs" and "- 1 \<notin> set fds" and "0 \<notin> set errs"
    and "ys = [] \<or> (\<exists>k ks'. ks = k # ks' \<and> k \<noteq> - 1) \<and> (\<exists>rs'. rs = 0 # rs')"
  shows "\<exists>t. connect_to ip port s =
      (Inr (if ys = [] then (CONNECT_ERROR_NO_SOCKET, None) else (CONNECT_OK, Some (hd ks))), t) \<and>
    evs t = evs s @ map Closed fds"
proof -
  let ?t = "s\<lparr>script := (script s)(SocketCall := ks, ConnectCall := rs), evs := evs s @ map Closed fds\<rparr>"
  have "connect_fuel s = length xs + Suc (length ks)" using assms(2,4) by (simp add: connect_fuel_def)
  then have run: "connect_to ip port s = connect_loop (Suc (length ks)) (map Some ys) ?t"
    using assms(1) connect_loop_skips [OF assms(4-7,2,3), of "Suc (length ks)" ys]
    by (simp add: connect_to_def bnd_run)
  show ?thesis
  proof (cases ys)
    case Nil
    then show ?thesis using run by simp
  next
    case (Cons y ys')
    then show ?thesis
      using run assms(8) by (auto simp: connect_loop.simps(4) bnd_run sys_script)
  qed
qed

theorem connect_to_first_witness:
  "\<exists>t. connect_to [51] [52] (sample_os\<lparr>resolver := (\<lambda>_ _. Inr [Some ([49], [52]), Some ([50], [52])]),
       script := (\<lambda>_. [])(SocketCall := [8, 9], ConnectCall := [- 1, 0])\<rparr>) = (Inr (CONNECT_OK, Some 9), t) \<and>
     evs t = [Closed 8]"
proof -
  let ?s = "sample_os\<lparr>resolver := (\<lambda>_ _. Inr [Some ([49], [52]), Some ([50], [52])]),
    script := (\<lambda>_. [])(SocketCall := [8, 9], ConnectCall := [- 1, 0])\<rparr>"
  have "evs ?s = []" by (simp add: sample_os_def)
  then show ?thesis
    using connect_to_first [of ?s "[51]" "[52]" "[([49], [52])]" "[([50], [52])]" "[8]" "[9]" "[- 1]" "[0]"] by simp
qed

end
