(* ===== verification/Clist.thy ===== *)
theory Clist
  imports Prelude
begin

text \<open>
  \<open>list.c\<close>: the singly linked list of the program, on an explicit store of cells. A pointer
  is an address, 0 is NULL; the cells of a list belong to it alone, so each \<open>list_t\<close>
  carries its own store. Reading a freed or a NULL cell stops the run. A cell holds the
  object its \<open>data\<close> pointer owns; freeing the cell frees it.

  The second part relates a store to the HOL list it represents and proves what each
  operation does to it, and what the cursor loop does that four functions of the servent
  run over \<open>list_pop_at\<close>.
\<close>

section \<open>Cells and lists\<close>

type_synonym addr = nat

record 'a cell_t =
  nxt :: addr
  dat :: 'a

record 'a list_t =
  head :: addr
  compare :: "'a \<Rightarrow> 'a \<Rightarrow> int"
  create :: "'a \<Rightarrow> 'a"
  cells :: "addr \<rightharpoonup> 'a cell_t"
  brk :: addr  \<comment> \<open>the next address \<open>malloc\<close> returns; never reused\<close>

definition load :: "addr \<Rightarrow> ('a list_t, 'a cell_t) prog" where
  "load p l = (if p = 0 then (Inl (UB NullDeref), l)
     else case cells l p of None \<Rightarrow> (Inl (UB UseAfterFree), l) | Some c \<Rightarrow> (Inr c, l))"

definition store_nxt :: "addr \<Rightarrow> addr \<Rightarrow> ('a list_t, unit) prog" where
  "store_nxt p q = bnd (load p) (\<lambda>c. modify (\<lambda>l. l\<lparr>cells := (cells l)(p \<mapsto> c\<lparr>nxt := q\<rparr>)\<rparr>))"

definition malloc_cell :: "'a \<Rightarrow> ('a list_t, addr) prog" where
  "malloc_cell x = (\<lambda>l. (Inr (brk l),
     l\<lparr>cells := (cells l)(brk l \<mapsto> \<lparr>nxt = 0, dat = x\<rparr>), brk := Suc (brk l)\<rparr>))"

definition free_cell :: "addr \<Rightarrow> ('a list_t, unit) prog" where
  "free_cell p = seq (load p) (modify (\<lambda>l. l\<lparr>cells := (cells l)(p := None)\<rparr>))"

section \<open>The operations\<close>

text \<open>Pointer equality; on the lists of the program the cell holds the object itself.\<close>

definition dummy_compare :: "'a \<Rightarrow> 'a \<Rightarrow> int" where
  "dummy_compare a b = (if a = b then 1 else 0)"

definition list_create :: "('a \<Rightarrow> 'a \<Rightarrow> int) option \<Rightarrow> ('a \<Rightarrow> 'a) \<Rightarrow> 'a list_t" where
  "list_create cmp mk =
     \<lparr>head = 0, compare = (case cmp of Some f \<Rightarrow> f | None \<Rightarrow> dummy_compare), create = mk,
      cells = Map.empty, brk = 1\<rparr>"

text \<open>
  \<open>while (head != NULL) { prev = head; head = head->next; }\<close>. The number of turns is
  bounded by the number of addresses ever allocated; a longer walk is a cycle.
\<close>

primrec find_last :: "nat \<Rightarrow> addr \<Rightarrow> addr \<Rightarrow> ('a list_t, addr) prog" where
  "find_last 0 prev cur = halt Diverges"
| "find_last (Suc n) prev cur =
     (if cur = 0 then ret prev else bnd (load cur) (\<lambda>c. find_last n cur (nxt c)))"

definition list_push_back_no_create :: "'a \<Rightarrow> ('a list_t, unit) prog" where
  "list_push_back_no_create data =
     bnd (gets (\<lambda>l. (brk l, head l))) (\<lambda>(fuel, cur).
     bnd (find_last fuel 0 cur) (\<lambda>prev.
     if prev = 0 then bnd (malloc_cell data) (\<lambda>c. modify (\<lambda>l. l\<lparr>head := c\<rparr>))
     else bnd (malloc_cell data) (\<lambda>c. store_nxt prev c)))"

definition list_push_back :: "'a \<Rightarrow> ('a list_t, unit) prog" where
  "list_push_back value =
     bnd (gets create) (\<lambda>mk. list_push_back_no_create (mk value))"

text \<open>
  After a removal the loop body goes on with \<open>prev = head; head = head->next;\<close>, on the
  cell behind the removed one.
\<close>

primrec list_pop_loop :: "nat \<Rightarrow> 'a \<Rightarrow> int \<Rightarrow> addr \<Rightarrow> addr \<Rightarrow> ('a list_t, unit) prog" where
  "list_pop_loop 0 data once prev cur = halt Diverges"
| "list_pop_loop (Suc n) data once prev cur =
     (if cur = 0 then ret ()
      else bnd (load cur) (\<lambda>c.
        bnd (gets compare) (\<lambda>cmp.
        if cmp data (dat c) = 1 then
          seq (if prev = 0 then modify (\<lambda>l. l\<lparr>head := nxt c\<rparr>) else store_nxt prev (nxt c))
         (seq (free_cell cur)
           (if once \<noteq> 0 then ret ()
            else bnd (load (nxt c)) (\<lambda>d. list_pop_loop n data once (nxt c) (nxt d))))
        else list_pop_loop n data once cur (nxt c))))"

definition list_pop :: "'a \<Rightarrow> int \<Rightarrow> ('a list_t, unit) prog" where
  "list_pop data once =
     bnd (gets (\<lambda>l. (brk l, head l))) (\<lambda>(fuel, cur). list_pop_loop fuel data once 0 cur)"

text \<open>The result is the new value of \<open>*at\<close>; \<open>*prev\<close> is not changed.\<close>

definition list_pop_at :: "addr \<Rightarrow> addr \<Rightarrow> ('a list_t, addr) prog" where
  "list_pop_at prev at =
     bnd (load at) (\<lambda>c.
     seq (if prev \<noteq> 0 then store_nxt prev (nxt c)
          else if nxt c = 0 then modify (\<lambda>l. l\<lparr>head := 0\<rparr>)
          else ret ())
    (seq (free_cell at) (ret (nxt c))))"

primrec list_clear_loop :: "nat \<Rightarrow> addr \<Rightarrow> ('a list_t, unit) prog" where
  "list_clear_loop 0 cur = halt Diverges"
| "list_clear_loop (Suc n) cur =
     (if cur = 0 then ret ()
      else bnd (load cur) (\<lambda>c. seq (free_cell cur) (list_clear_loop n (nxt c))))"

definition list_clear :: "('a list_t, unit) prog" where
  "list_clear = bnd (gets (\<lambda>l. (brk l, head l))) (\<lambda>(fuel, cur). list_clear_loop fuel cur)"

text \<open>After \<open>list_destroy\<close> the caller's pointer is NULL: no cells, no head.\<close>

definition list_destroy :: "('a list_t, unit) prog" where
  "list_destroy = seq list_clear (modify (\<lambda>l. l\<lparr>head := 0\<rparr>))"

section \<open>Walks over a list of the state\<close>

text \<open>
  A read-only walk whose body may return early: the first \<open>Some\<close> ends it. The state keeps
  the list where \<open>getf\<close> finds it.
\<close>

primrec foreach_loop :: "('s \<Rightarrow> 'a list_t) \<Rightarrow> (addr \<Rightarrow> 'a \<Rightarrow> ('s, 'r option) prog)
    \<Rightarrow> nat \<Rightarrow> addr \<Rightarrow> ('s, 'r option) prog" where
  "foreach_loop getf body 0 p = halt Diverges"
| "foreach_loop getf body (Suc n) p =
     (if p = 0 then ret None
      else bnd (zoom getf (\<lambda>_ s. s) (load p)) (\<lambda>c.
           bnd (body p (dat c)) (\<lambda>r. case r of
             Some x \<Rightarrow> ret (Some x)
           | None \<Rightarrow> bnd (zoom getf (\<lambda>_ s. s) (load p)) (\<lambda>c. foreach_loop getf body n (nxt c)))))"

definition foreach :: "('s \<Rightarrow> 'a list_t) \<Rightarrow> (addr \<Rightarrow> 'a \<Rightarrow> ('s, 'r option) prog)
    \<Rightarrow> ('s, 'r option) prog" where
  "foreach getf body =
     bnd (gets (\<lambda>s. (brk (getf s), head (getf s)))) (\<lambda>(fuel, p). foreach_loop getf body fuel p)"

text \<open>
  The cursor loop of the servent: the body says whether the cell under the cursor goes
  (\<open>list_pop_at\<close>) or stays (\<open>prev = head; head = head->next\<close>).
\<close>

primrec sweep_loop :: "('s \<Rightarrow> 'a list_t) \<Rightarrow> ('a list_t \<Rightarrow> 's \<Rightarrow> 's)
    \<Rightarrow> ('a \<Rightarrow> ('s, bool) prog) \<Rightarrow> nat \<Rightarrow> addr \<Rightarrow> addr \<Rightarrow> ('s, unit) prog" where
  "sweep_loop getf putf body 0 prev at = halt Diverges"
| "sweep_loop getf putf body (Suc n) prev at =
     (if at = 0 then ret ()
      else bnd (zoom getf putf (load at)) (\<lambda>c.
           bnd (body (dat c)) (\<lambda>remove.
           if remove then bnd (zoom getf putf (list_pop_at prev at)) (\<lambda>at'.
             sweep_loop getf putf body n prev at')
           else bnd (zoom getf putf (load at)) (\<lambda>c. sweep_loop getf putf body n at (nxt c)))))"

definition sweep :: "('s \<Rightarrow> 'a list_t) \<Rightarrow> ('a list_t \<Rightarrow> 's \<Rightarrow> 's)
    \<Rightarrow> ('a \<Rightarrow> ('s, bool) prog) \<Rightarrow> ('s, unit) prog" where
  "sweep getf putf body =
     bnd (gets (\<lambda>s. (brk (getf s), head (getf s)))) (\<lambda>(fuel, at).
       sweep_loop getf putf body fuel 0 at)"

section \<open>What a store represents\<close>

definition first :: "(addr \<times> 'a) list \<Rightarrow> addr \<Rightarrow> addr" where
  "first as q = (case as of [] \<Rightarrow> q | a # _ \<Rightarrow> fst a)"

text \<open>The cells \<open>as\<close> are linked in this order and the last one points to \<open>q\<close>.\<close>

primrec linked :: "(addr \<rightharpoonup> 'a cell_t) \<Rightarrow> (addr \<times> 'a) list \<Rightarrow> addr \<Rightarrow> bool" where
  "linked m [] q = True"
| "linked m (a # as) q =
     (fst a \<noteq> 0 \<and> m (fst a) = Some \<lparr>nxt = first as q, dat = snd a\<rparr> \<and> linked m as q)"

definition owns :: "'a list_t \<Rightarrow> (addr \<times> 'a) list \<Rightarrow> bool" where
  "owns l as \<longleftrightarrow> linked (cells l) as 0 \<and> distinct (map fst as) \<and>
     dom (cells l) = set (map fst as) \<and> dom (cells l) \<subseteq> {1..<brk l} \<and> 0 < brk l"

definition repr :: "'a list_t \<Rightarrow> 'a list \<Rightarrow> bool" where
  "repr l xs \<longleftrightarrow> (\<exists>as. owns l as \<and> head l = first as 0 \<and> xs = map snd as)"

text \<open>The head points to a cell that has been freed.\<close>

definition dangling :: "'a list_t \<Rightarrow> bool" where
  "dangling l \<longleftrightarrow> head l \<noteq> 0 \<and> cells l (head l) = None"

lemma first_simps [simp]: "first [] q = q" "first (a # as) q = fst a"
  by (simp_all add: first_def)

lemma first_append: "first (as @ bs) q = first as (first bs q)"
  by (simp add: first_def split: list.splits)

lemma linked_append [simp]:
  "linked m (as @ bs) q \<longleftrightarrow> linked m as (first bs q) \<and> linked m bs q"
  by (induction as) (auto simp: first_append)

lemma linked_upd [simp]: "a \<notin> fst ` set as \<Longrightarrow> linked (m(a := v)) as q = linked m as q"
  by (induction as) auto

lemma linked_nonzero: "linked m as q \<Longrightarrow> x \<in> set as \<Longrightarrow> fst x \<noteq> 0"
  by (induction as) auto

lemma linked_relink:
  "linked m (as @ [a]) q \<Longrightarrow> fst a \<notin> fst ` set as \<Longrightarrow>
   linked (m(fst a \<mapsto> \<lparr>nxt = r, dat = snd a\<rparr>)) (as @ [a]) r"
  by simp

lemma owns_short:
  assumes "owns l as"
  shows "length as < brk l"
proof -
  have "length as = card (set (map fst as))"
    using assms by (metis owns_def distinct_card length_map)
  also have "\<dots> \<le> card {1..<brk l}"
    using assms by (intro card_mono) (auto simp: owns_def)
  also have "\<dots> < brk l" using assms by (simp add: owns_def)
  finally show ?thesis .
qed

lemma owns_fresh: "owns l as \<Longrightarrow> cells l (brk l) = None"
  by (auto simp: owns_def)

lemma load_owned [run_simps]:
  "cells l p = Some c \<Longrightarrow> p \<noteq> 0 \<Longrightarrow> load p l = (Inr c, l)"
  by (simp add: load_def)

lemma load_0 [run_simps, simp]: "load 0 l = (Inl (UB NullDeref), l)"
  by (simp add: load_def)

lemma load_freed [run_simps]: "p \<noteq> 0 \<Longrightarrow> cells l p = None \<Longrightarrow> load p l = (Inl (UB UseAfterFree), l)"
  by (simp add: load_def)

lemma free_cell_owned [run_simps]:
  "cells l p = Some c \<Longrightarrow> p \<noteq> 0 \<Longrightarrow> free_cell p l = (Inr (), l\<lparr>cells := (cells l)(p := None)\<rparr>)"
  by (simp add: free_cell_def seq_run load_owned)

lemma store_nxt_owned [run_simps]:
  "cells l p = Some c \<Longrightarrow> p \<noteq> 0 \<Longrightarrow>
   store_nxt p q l = (Inr (), l\<lparr>cells := (cells l)(p \<mapsto> c\<lparr>nxt := q\<rparr>)\<rparr>)"
  by (simp add: store_nxt_def bnd_run load_owned)

section \<open>Push\<close>

lemma repr_create: "repr (list_create cmp mk) []"
  by (auto simp: repr_def owns_def list_create_def intro!: exI [of _ "[]"])

lemma find_last_linked:
  "linked (cells l) as 0 \<Longrightarrow> length as < n \<Longrightarrow>
   find_last n prev (first as 0) l = (Inr (if as = [] then prev else fst (last as)), l)"
proof (induction as arbitrary: n prev)
  case Nil
  then show ?case by (cases n) auto
next
  case (Cons a as)
  then obtain m where n: "n = Suc m" by (cases n) auto
  with Cons show ?case by (simp add: bnd_run load_owned)
qed

lemma owns_push_empty:
  assumes "owns l []"
  shows "owns (l\<lparr>cells := (cells l)(brk l \<mapsto> \<lparr>nxt = 0, dat = x\<rparr>), brk := Suc (brk l), head := brk l\<rparr>)
    [(brk l, x)]"
  using assms by (auto simp: owns_def)

lemma owns_push_snoc:
  assumes "owns l (as @ [(p, y)])"
  shows "owns (l\<lparr>cells := (cells l)(brk l \<mapsto> \<lparr>nxt = 0, dat = x\<rparr>, p \<mapsto> \<lparr>nxt = brk l, dat = y\<rparr>),
      brk := Suc (brk l)\<rparr>) (as @ [(p, y), (brk l, x)])"
proof -
  from assms have dom: "dom (cells l) = insert p (fst ` set as)" and sub: "dom (cells l) \<subseteq> {1..<brk l}"
    and dist: "distinct (map fst as)" "p \<notin> fst ` set as" and pos: "0 < brk l"
    and lk: "linked (cells l) as p" "p \<noteq> 0"
    by (auto simp: owns_def)
  have new: "brk l \<notin> fst ` set as" "brk l \<noteq> p" using dom sub by auto
  then show ?thesis
    using dom sub dist pos lk by (auto simp: owns_def)
qed

text \<open>The shape of a pushed list.\<close>

definition pushed :: "'a list_t \<Rightarrow> 'a \<Rightarrow> 'a list_t" where
  "pushed l x = snd (list_push_back_no_create x l)"

lemma push_owned:
  assumes "owns l as" and "head l = first as 0"
  shows "list_push_back_no_create x l = (Inr (), pushed l x)"
    and "owns (pushed l x) (as @ [(brk l, x)])"
    and "head (pushed l x) = first (as @ [(brk l, x)]) 0"
    and "create (pushed l x) = create l" and "compare (pushed l x) = compare l"
proof -
  have fl: "find_last (brk l) 0 (head l) l = (Inr (if as = [] then 0 else fst (last as)), l)"
    unfolding assms(2) using assms(1) owns_short [OF assms(1)]
    by (intro find_last_linked) (simp_all add: owns_def)
  have all: "list_push_back_no_create x l = (Inr (), pushed l x) \<and> owns (pushed l x) (as @ [(brk l, x)])
    \<and> head (pushed l x) = first (as @ [(brk l, x)]) 0 \<and> create (pushed l x) = create l
    \<and> compare (pushed l x) = compare l"
  proof (cases as rule: rev_cases)
    case Nil
    then have "list_push_back_no_create x l = (Inr (),
      l\<lparr>cells := (cells l)(brk l \<mapsto> \<lparr>nxt = 0, dat = x\<rparr>), brk := Suc (brk l), head := brk l\<rparr>)"
      using fl by (simp add: list_push_back_no_create_def bnd_run malloc_cell_def)
    then show ?thesis
      using owns_push_empty [of l x] assms Nil by (simp add: pushed_def)
  next
    case (snoc bs b)
    obtain p y where b: "b = (p, y)" by (cases b)
    have p: "cells l p = Some \<lparr>nxt = 0, dat = y\<rparr>" "p \<noteq> 0" "p \<noteq> brk l"
      using assms(1) snoc b by (auto simp: owns_def)
    then have "list_push_back_no_create x l = (Inr (),
      l\<lparr>cells := (cells l)(brk l \<mapsto> \<lparr>nxt = 0, dat = x\<rparr>, p \<mapsto> \<lparr>nxt = brk l, dat = y\<rparr>),
        brk := Suc (brk l)\<rparr>)"
      using fl snoc b
      by (simp add: list_push_back_no_create_def bnd_run malloc_cell_def store_nxt_def load_def)
    then show ?thesis
      using owns_push_snoc [of l bs p y x] assms snoc b by (simp add: pushed_def first_append)
  qed
  then show "list_push_back_no_create x l = (Inr (), pushed l x)"
    and "owns (pushed l x) (as @ [(brk l, x)])"
    and "head (pushed l x) = first (as @ [(brk l, x)]) 0"
    and "create (pushed l x) = create l" and "compare (pushed l x) = compare l"
    by auto
qed

lemma push_no_create_repr:
  assumes "repr l xs"
  shows "list_push_back_no_create x l = (Inr (), pushed l x)" and "repr (pushed l x) (xs @ [x])"
    and "create (pushed l x) = create l"
proof -
  from assms obtain as where as: "owns l as" "head l = first as 0" "xs = map snd as"
    by (auto simp: repr_def)
  note push = push_owned [OF as(1,2), of x]
  show "list_push_back_no_create x l = (Inr (), pushed l x)" "create (pushed l x) = create l"
    by (rule push)+
  show "repr (pushed l x) (xs @ [x])"
    unfolding repr_def by (rule exI [of _ "as @ [(brk l, x)]"]) (simp add: push as)
qed

lemma push_repr:
  assumes "repr l xs"
  shows "list_push_back x l = (Inr (), pushed l (create l x))"
    and "repr (pushed l (create l x)) (xs @ [create l x])"
  using push_no_create_repr [OF assms, of "create l x"] by (simp_all add: list_push_back_def bnd_run)

text \<open>A push on a list whose head is dangling reads freed memory.\<close>

lemma repr_push:
  assumes "repr l xs"
  shows "repr (snd (list_push_back x l)) (xs @ [create l x])" "create (snd (list_push_back x l)) = create l"
  using push_repr [OF assms, of x] push_no_create_repr(3) [OF assms] by simp_all

lemma push_dangling:
  assumes "dangling l" and "1 < brk l"
  shows "list_push_back x l = (Inl (UB UseAfterFree), l)"
proof -
  obtain n where "brk l = Suc n" using assms(2) by (cases "brk l") auto
  then show ?thesis
    using assms by (simp add: list_push_back_def list_push_back_no_create_def bnd_run dangling_def load_freed)
qed

section \<open>Removal\<close>

lemma owns_remove_first:
  assumes "owns l ((p, x) # as)"
  shows "owns (l\<lparr>cells := (cells l)(p := None), head := h\<rparr>) as"
  using assms by (auto simp: owns_def)

lemma owns_head [simp]: "owns (l\<lparr>head := h\<rparr>) as = owns l as"
  by (simp add: owns_def)

lemma owns_remove_next:
  assumes "owns l (as @ (q, y) # (p, x) # bs)"
  shows "owns (l\<lparr>cells := (cells l)(q \<mapsto> \<lparr>nxt = first bs 0, dat = y\<rparr>, p := None)\<rparr>)
    (as @ (q, y) # bs)"
proof -
  let ?m = "(cells l)(q \<mapsto> \<lparr>nxt = first bs 0, dat = y\<rparr>, p := None)"
  have "q \<in> dom (cells l)" "p \<noteq> q" using assms by (auto simp: owns_def)
  then have d: "dom ?m = dom (cells l) - {p}" by auto
  have e: "dom (cells l) - {p} = set (map fst (as @ (q, y) # bs))"
    using assms by (auto simp: owns_def)
  have "dom (cells l) \<subseteq> {1..<brk l}" using assms unfolding owns_def by blast
  then have "dom ?m \<subseteq> {1..<brk l}" unfolding d by (rule subset_trans [OF Diff_subset])
  moreover have "dom ?m = set (map fst (as @ (q, y) # bs))" unfolding d by (rule e)
  moreover have "linked ?m (as @ (q, y) # bs) 0" "distinct (map fst (as @ (q, y) # bs))"
    using assms by (auto simp: owns_def)
  moreover have "0 < brk l" using assms unfolding owns_def by blast
  ultimately show ?thesis unfolding owns_def list_t.select_convs list_t.update_convs by simp
qed

text \<open>\<open>list_pop_at\<close> on the first cell, and on a cell with a predecessor.\<close>

lemma pop_at_first:
  assumes "owns l ((p, x) # as)"
  shows "list_pop_at 0 p l = (Inr (first as 0),
    l\<lparr>cells := (cells l)(p := None), head := (if as = [] then 0 else head l)\<rparr>)"
proof -
  have p: "cells l p = Some \<lparr>nxt = first as 0, dat = x\<rparr>" "p \<noteq> 0"
    using assms by (auto simp: owns_def)
  have "first as 0 = 0 \<longleftrightarrow> as = []"
    using assms by (cases as) (auto simp: owns_def)
  with p show ?thesis
    by (simp add: list_pop_at_def bnd_run seq_run load_def free_cell_def)
qed

lemma pop_at_next:
  assumes "owns l (as @ (q, y) # (p, x) # bs)"
  shows "list_pop_at q p l = (Inr (first bs 0),
    l\<lparr>cells := (cells l)(q \<mapsto> \<lparr>nxt = first bs 0, dat = y\<rparr>, p := None)\<rparr>)"
proof -
  have "cells l p = Some \<lparr>nxt = first bs 0, dat = x\<rparr>" "p \<noteq> 0"
    "cells l q = Some \<lparr>nxt = p, dat = y\<rparr>" "q \<noteq> 0" "p \<noteq> q"
    using assms by (auto simp: owns_def)
  then show ?thesis
    by (simp add: list_pop_at_def bnd_run seq_run load_def free_cell_def store_nxt_def)
qed

lemma list_clear_loop_owned:
  "owns l as \<Longrightarrow> length as < n \<Longrightarrow>
   list_clear_loop n (first as 0) l = (Inr (), l\<lparr>cells := Map.empty\<rparr>)"
proof (induction as arbitrary: l n)
  case Nil
  then show ?case by (cases n) (auto simp: owns_def)
next
  case (Cons a as)
  obtain p x where a: "a = (p, x)" by (cases a)
  from Cons.prems obtain m where n: "n = Suc m" by (cases n) auto
  have p: "cells l p = Some \<lparr>nxt = first as 0, dat = x\<rparr>" "p \<noteq> 0"
    using Cons.prems a by (auto simp: owns_def)
  have "owns (l\<lparr>cells := (cells l)(p := None), head := head l\<rparr>) as"
    using Cons.prems a by (intro owns_remove_first) auto
  then have "list_clear_loop m (first as 0) (l\<lparr>cells := (cells l)(p := None)\<rparr>)
      = (Inr (), l\<lparr>cells := (cells l)(p := None)\<rparr>\<lparr>cells := Map.empty\<rparr>)"
    using Cons.prems n by (intro Cons.IH) auto
  then show ?case
    using p a n by (simp add: bnd_run seq_run load_def free_cell_def)
qed

text \<open>\<open>list_clear\<close> frees every cell and leaves the head as it was.\<close>

lemma list_clear_repr:
  assumes "repr l xs"
  shows "list_clear l = (Inr (), l\<lparr>cells := Map.empty\<rparr>)"
proof -
  from assms obtain as where as: "owns l as" "head l = first as 0"
    by (auto simp: repr_def)
  then show ?thesis
    using list_clear_loop_owned [OF as(1) owns_short] by (simp add: list_clear_def bnd_run)
qed

lemma list_destroy_repr:
  assumes "repr l xs"
  shows "list_destroy l = (Inr (), l\<lparr>cells := Map.empty, head := 0\<rparr>)"
  by (simp add: list_destroy_def seq_run list_clear_repr [OF assms])

text \<open>\<open>list_pop\<close> with \<open>once\<close>: the first match goes.\<close>

primrec remove_match :: "('a \<Rightarrow> bool) \<Rightarrow> 'a list \<Rightarrow> 'a list" where
  "remove_match f [] = []"
| "remove_match f (x # xs) = (if f x then xs else x # remove_match f xs)"

lemma remove_match_append:
  "list_all (\<lambda>x. \<not> f x) xs \<Longrightarrow> remove_match f (xs @ ys) = xs @ remove_match f ys"
  by (induction xs) auto

lemma list_pop_loop_skip:
  assumes "owns l (as @ bs)" and "list_all (\<lambda>x. compare l data (snd x) \<noteq> 1) as"
  shows "list_pop_loop (length as + n) data once prev (first (as @ bs) 0) l =
    list_pop_loop n data once (if as = [] then prev else fst (last as)) (first bs 0) l"
proof -
  have "linked (cells l) (as @ bs) 0" using assms by (simp add: owns_def)
  then show ?thesis using assms(2)
  proof (induction as arbitrary: prev)
    case Nil
    then show ?case by simp
  next
    case (Cons a as)
    then show ?case by (simp add: bnd_run load_def)
  qed
qed

lemma split_first_match:
  assumes "\<not> list_all (\<lambda>x. \<not> f x) xs"
  obtains ys y zs where "xs = ys @ y # zs" "list_all (\<lambda>x. \<not> f x) ys" "f y"
proof -
  have "\<exists>x\<in>set xs. f x" using assms by (auto simp: list_all_iff)
  then obtain ys y zs where "xs = ys @ y # zs" "f y" "\<forall>z\<in>set ys. \<not> f z"
    using split_list_first_prop by metis
  then show ?thesis using that by (auto simp: list_all_iff)
qed

lemma list_pop_once_repr:
  assumes "repr l xs" and "once \<noteq> 0"
  obtains l' where "list_pop data once l = (Inr (), l')"
    and "repr l' (remove_match (\<lambda>x. compare l data x = 1) xs)"
proof -
  let ?f = "\<lambda>x. compare l data x = 1"
  from assms obtain as where as: "owns l as" "head l = first as 0" "xs = map snd as"
    by (auto simp: repr_def)
  obtain n where n: "brk l = length as + Suc n"
    using owns_short [OF as(1)] less_imp_Suc_add by fastforce
  have pop: "list_pop data once l = list_pop_loop (length as + Suc n) data once 0 (first as 0) l"
    using n as by (simp add: list_pop_def bnd_run)
  show ?thesis
  proof (cases "list_all (\<lambda>x. \<not> ?f (snd x)) as")
    case True
    have "list_pop data once l = (Inr (), l)"
      using list_pop_loop_skip [of l as "[]" data "Suc n" once 0] as True pop by simp
    moreover have "list_all (\<lambda>x. \<not> ?f x) xs" using True as by (simp add: list_all_iff)
    then have "remove_match ?f xs = xs" using remove_match_append [of ?f xs "[]"] by simp
    ultimately show ?thesis using assms that [of l] by simp
  next
    case False
    then obtain ys y zs where s: "as = ys @ y # zs" "list_all (\<lambda>x. \<not> ?f (snd x)) ys" "?f (snd y)"
      using split_first_match [of "\<lambda>x. ?f (snd x)" as] by metis
    obtain p v where y: "y = (p, v)" by (cases y)
    have rm: "remove_match ?f xs = map snd (ys @ zs)"
      using s as y remove_match_append [of ?f "map snd ys"] by (simp add: list_all_iff)
    have p: "cells l p = Some \<lparr>nxt = first zs 0, dat = v\<rparr>" "p \<noteq> 0"
      using as s y by (auto simp: owns_def)
    have run: "list_pop data once l =
        list_pop_loop (Suc (length zs + Suc n)) data once (if ys = [] then 0 else fst (last ys)) p l"
      using list_pop_loop_skip [of l ys "y # zs" data "length zs + Suc (Suc n)" once 0] as s y pop
      by (simp add: add.assoc)
    show ?thesis
    proof (cases ys rule: rev_cases)
      case Nil
      let ?l = "l\<lparr>cells := (cells l)(p := None), head := first zs 0\<rparr>"
      have "list_pop data once l = (Inr (), ?l)"
        using run p Nil s y assms(2) by (simp add: bnd_run seq_run load_def free_cell_def)
      moreover have "owns ?l zs"
        using as s y Nil by (intro owns_remove_first) auto
      ultimately show ?thesis using that [of ?l] rm Nil by (auto simp: repr_def)
    next
      case (snoc us u)
      obtain q w where u: "u = (q, w)" by (cases u)
      let ?l = "l\<lparr>cells := (cells l)(q \<mapsto> \<lparr>nxt = first zs 0, dat = w\<rparr>, p := None)\<rparr>"
      have q: "cells l q = Some \<lparr>nxt = p, dat = w\<rparr>" "q \<noteq> 0" "p \<noteq> q"
        using as s y snoc u by (auto simp: owns_def)
      have "list_pop data once l = (Inr (), ?l)"
        using run p q snoc s y u assms(2)
        by (simp add: bnd_run seq_run load_def free_cell_def store_nxt_def)
      moreover have "owns ?l (us @ (q, w) # zs)"
        using as s y snoc u by (intro owns_remove_next) auto
      moreover have "head ?l = first (us @ (q, w) # zs) 0"
        using as s y snoc u by (simp add: first_append)
      ultimately show ?thesis
        using that [of ?l] rm snoc u unfolding repr_def
        by (metis append.assoc append_Cons append_Nil)
    qed
  qed
qed

section \<open>The walks, over the represented list\<close>

text \<open>
  A list field of a larger state, as a pair of a reader and a writer with the laws of a
  field. The operations of a list and the walks are used through it.
\<close>

primrec sweep_spec :: "('a \<Rightarrow> ('s, bool) prog) \<Rightarrow> 'a list \<Rightarrow> ('s, bool list) prog" where
  "sweep_spec body [] = ret []"
| "sweep_spec body (x # xs) =
     bnd (body x) (\<lambda>rm. bnd (sweep_spec body xs) (\<lambda>rms. ret (rm # rms)))"

definition kept :: "'a list \<Rightarrow> bool list \<Rightarrow> 'a list" where
  "kept xs rms = map fst (filter (\<lambda>p. \<not> snd p) (zip xs rms))"

lemma kept_simps [simp]:
  "kept [] rms = []" "kept (x # xs) (rm # rms) = (if rm then kept xs rms else x # kept xs rms)"
  by (simp_all add: kept_def)

lemma kept_map: "kept (map f xs) rms = map f (kept xs rms)"
proof (induction xs arbitrary: rms)
  case (Cons x xs)
  then show ?case by (cases rms) (auto simp: kept_def)
qed simp

lemma kept_all_removed: "False \<notin> set rms \<Longrightarrow> kept xs rms = []"
proof (induction xs arbitrary: rms)
  case (Cons x xs)
  then show ?case by (cases rms) (auto simp: kept_def)
qed simp

lemma set_kept: "set (kept xs rms) \<subseteq> set xs"
proof (induction xs arbitrary: rms)
  case (Cons x xs)
  then show ?case by (cases rms) (auto simp: kept_def)
qed simp

lemma length_sweep_spec: "sweep_spec body xs s = (Inr rms, t) \<Longrightarrow> length rms = length xs"
proof (induction xs arbitrary: s rms)
  case (Cons x xs)
  from Cons.prems show ?case
    by (auto elim!: bnd_InrE dest: Cons.IH simp: ret_def)
qed simp

lemma kept_nonempty: "length rms = length xs \<Longrightarrow> False \<in> set rms \<Longrightarrow> kept xs rms \<noteq> []"
proof (induction xs arbitrary: rms)
  case (Cons x xs)
  then show ?case by (cases rms) auto
qed simp

definition indep :: "('a list_t \<Rightarrow> 's \<Rightarrow> 's) \<Rightarrow> ('s, 'b) prog \<Rightarrow> bool" where
  "indep putf m \<longleftrightarrow> (\<forall>l s. m (putf l s) = (case m s of (r, t) \<Rightarrow> (r, putf l t)))"

primrec foreach_spec :: "(addr \<Rightarrow> 'a \<Rightarrow> ('s, 'r option) prog) \<Rightarrow> (addr \<times> 'a) list
    \<Rightarrow> ('s, 'r option) prog" where
  "foreach_spec body [] = ret None"
| "foreach_spec body (a # as) =
     bnd (body (fst a) (snd a)) (\<lambda>r. case r of Some x \<Rightarrow> ret (Some x) | None \<Rightarrow> foreach_spec body as)"

lemma foreach_loop_owned:
  assumes "\<And>p x s. getf (snd (body p x s)) = getf s"
  shows "linked (cells (getf s)) as 0 \<Longrightarrow> length as < n \<Longrightarrow>
    foreach_loop getf body n (first as 0) s = foreach_spec body as s"
proof (induction as arbitrary: s n)
  case Nil
  then show ?case by (cases n) auto
next
  case (Cons a as)
  then obtain m where n: "n = Suc m" by (cases n) auto
  obtain r t where b: "body (fst a) (snd a) s = (r, t)" by (cases "body (fst a) (snd a) s")
  with assms [of "fst a" "snd a" s] have t: "getf t = getf s" by simp
  have "foreach_loop getf body m (first as 0) t = foreach_spec body as t"
    using Cons.prems n t by (intro Cons.IH) auto
  then show ?case
    using Cons.prems n b t
    by (simp add: bnd_run zoom_run load_def split: sum.splits option.splits)
qed

lemma foreach_owned:
  assumes "\<And>p x s. getf (snd (body p x s)) = getf s"
    and "owns (getf s) as" and "head (getf s) = first as 0"
  shows "foreach getf body s = foreach_spec body as s"
  using foreach_loop_owned [of getf body s as "brk (getf s)"] assms owns_short [OF assms(2)]
  by (simp add: foreach_def bnd_run owns_def)

lemma keeps_zoom_read: "keeps P (zoom getf (\<lambda>_ s. s) m)"
  by (rule keeps_zoom)

lemma keeps_foreach [keep_rules]:
  assumes "\<And>p x. keeps P (body p x)"
  shows "keeps P (foreach getf body)"
proof -
  have "keeps P (foreach_loop getf body n p)" for n p
  proof (induction n arbitrary: p)
    case 0
    show ?case unfolding foreach_loop.simps by (intro keep_rules)
  next
    case (Suc n)
    show ?case unfolding foreach_loop.simps
      by (intro keep_rules keeps_zoom_read assms Suc.IH)
  qed
  then show ?thesis unfolding foreach_def by (intro keep_rules)
qed

lemma keeps_sweep:
  assumes "\<And>x. keeps P (body x)" and "\<And>l s. P s \<Longrightarrow> P (putf l s)"
  shows "keeps P (sweep getf putf body)"
proof -
  have "keeps P (sweep_loop getf putf body n p q)" for n p q
  proof (induction n arbitrary: p q)
    case 0
    show ?case unfolding sweep_loop.simps by (intro keep_rules)
  next
    case (Suc n)
    show ?case unfolding sweep_loop.simps
      by (intro keep_rules keeps_zoom assms(1) Suc.IH) (rule assms(2), assumption)+
  qed
  then show ?thesis unfolding sweep_def by (intro keep_rules)
qed

text \<open>The same where the body relies on a property of the elements that \<open>P\<close> promises.\<close>

lemma keeps_sweep_stored:
  assumes "\<And>x. Q x \<Longrightarrow> keeps P (body x)"
    and "\<And>s p c. P s \<Longrightarrow> cells (getf s) p = Some c \<Longrightarrow> Q (dat c)"
    and "\<And>p. keeps P (zoom getf putf (load p))"
    and "\<And>p q. keeps P (zoom getf putf (list_pop_at p q))"
  shows "keeps P (sweep getf putf body)"
proof -
  have ld: "gives P (\<lambda>c. Q (dat c)) (zoom getf putf (load p))" for p
    by (rule givesI [OF assms(3)])
      (auto simp: zoom_def load_def dest: assms(2) split: if_splits option.splits)
  have "keeps P (sweep_loop getf putf body n p q)" for n p q
  proof (induction n arbitrary: p q)
    case 0
    show ?case unfolding sweep_loop.simps by (intro keep_rules)
  next
    case (Suc n)
    show ?case unfolding sweep_loop.simps
      by (intro keeps_if keeps_ret keeps_bnd_gives [OF ld] keeps_bnd assms(1,3,4) Suc.IH)
  qed
  then show ?thesis unfolding sweep_def by (intro keep_rules)
qed

locale list_field =
  fixes getf :: "'s \<Rightarrow> 'a list_t"
    and putf :: "'a list_t \<Rightarrow> 's \<Rightarrow> 's"
  assumes get_put: "getf (putf l s) = l"
    and put_get: "putf (getf s) s = s"
    and put_put: "putf l (putf l' s) = putf l s"
begin

lemma zoom_put: "zoom getf putf m (putf l s) = (case m l of (r, t) \<Rightarrow> (r, putf t s))"
  by (simp add: zoom_run get_put put_put)

lemma zoom_get: "zoom getf putf m s = (case m (getf s) of (r, t) \<Rightarrow> (r, putf t s))"
  by (simp add: zoom_run)

lemma push_field:
  assumes "repr (getf s) xs"
  obtains l where "zoom getf putf (list_push_back x) s = (Inr (), putf l s)"
    and "repr l (xs @ [create (getf s) x])" and "create l = create (getf s)"
  using that [of "pushed (getf s) (create (getf s) x)"] push_repr [OF assms]
    push_no_create_repr(3) [OF assms] by (simp add: zoom_run)

lemma sweep_loop_owned:
  assumes "\<And>x. indep putf (body x)"
  shows "owns l (ks @ rs) \<Longrightarrow> length rs < n \<Longrightarrow> sweep_spec body (map snd rs) s = (Inr rms, t) \<Longrightarrow>
    \<exists>l'. sweep_loop getf putf body n (if ks = [] then 0 else fst (last ks)) (first rs 0) (putf l s)
        = (Inr (), putf l' t) \<and>
      owns l' (ks @ kept rs rms) \<and>
      head l' = (if ks = [] \<and> rs \<noteq> [] \<and> False \<notin> set rms then 0 else head l) \<and>
      create l' = create l \<and> brk l' = brk l"
proof (induction rs arbitrary: ks l n s rms)
  case Nil
  then obtain m where "n = Suc m" by (cases n) auto
  with Nil show ?case by (intro exI [of _ l]) simp
next
  case (Cons a rs)
  obtain p x where a: "a = (p, x)" by (cases a)
  obtain m where n: "n = Suc m" "length rs < m" using Cons.prems by (cases n) auto
  from Cons.prems(3) a obtain rm rms' s1 where b: "body x s = (Inr rm, s1)"
    and spec: "sweep_spec body (map snd rs) s1 = (Inr rms', t)" and rms: "rms = rm # rms'"
    by (auto elim!: bnd_InrE simp: ret_def)
  have rs0: "rms' = []" if "rs = []"
    using length_sweep_spec [OF spec] that by simp
  have bl: "body x (putf l s) = (Inr rm, putf l s1)"
    using assms [of x] b by (simp add: indep_def)
  have p: "cells l p = Some \<lparr>nxt = first rs 0, dat = x\<rparr>" "p \<noteq> 0"
    using Cons.prems(1) a by (auto simp: owns_def)
  show ?case
  proof (cases rm)
    case False
    have "\<exists>l'. sweep_loop getf putf body m p (first rs 0) (putf l s1) = (Inr (), putf l' t) \<and>
      owns l' ((ks @ [a]) @ kept rs rms') \<and> head l' = head l \<and> create l' = create l \<and> brk l' = brk l"
      using Cons.IH [of l "ks @ [a]" m s1 rms'] Cons.prems n spec a by simp
    then show ?thesis
      using n a p bl False rms by (auto simp: bnd_run zoom_put load_def)
  next
    case True
    show ?thesis
    proof (cases ks rule: rev_cases)
      case Nil
      let ?l = "l\<lparr>cells := (cells l)(p := None), head := (if rs = [] then 0 else head l)\<rparr>"
      have pop: "list_pop_at 0 p l = (Inr (first rs 0), ?l)"
        using Cons.prems a Nil by (intro pop_at_first) auto
      have "owns ?l rs"
        using Cons.prems a Nil by (intro owns_remove_first) auto
      then obtain l' where "sweep_loop getf putf body m 0 (first rs 0) (putf ?l s1) = (Inr (), putf l' t)"
        "owns l' (kept rs rms')" "head l' = (if rs \<noteq> [] \<and> False \<notin> set rms' then 0 else head ?l)"
        "create l' = create l" "brk l' = brk l"
        using Cons.IH [of ?l "[]" m s1 rms'] n spec by auto
      then show ?thesis
        using n a p bl True rms pop Nil rs0 by (intro exI [of _ l']) (simp add: bnd_run zoom_put load_def)
    next
      case (snoc us u)
      obtain q y where u: "u = (q, y)" by (cases u)
      let ?l = "l\<lparr>cells := (cells l)(q \<mapsto> \<lparr>nxt = first rs 0, dat = y\<rparr>, p := None)\<rparr>"
      have pop: "list_pop_at q p l = (Inr (first rs 0), ?l)"
        using Cons.prems a snoc u by (intro pop_at_next [of l us q y p x rs]) auto
      have "owns ?l (ks @ rs)"
        using Cons.prems a snoc u owns_remove_next [of l us q y p x rs] by simp
      then obtain l' where "sweep_loop getf putf body m q (first rs 0) (putf ?l s1) = (Inr (), putf l' t)"
        "owns l' (ks @ kept rs rms')" "head l' = head l" "create l' = create l" "brk l' = brk l"
        using Cons.IH [of ?l ks m s1 rms'] n spec snoc u by auto
      then show ?thesis
        using n a p bl True rms pop snoc u by (intro exI [of _ l']) (simp add: bnd_run zoom_put load_def)
    qed
  qed
qed

text \<open>
  The whole loop. If the first cell stays, or nothing stays, the list is then what the
  body kept; if the first cell goes and a later one stays, the head is left dangling.
\<close>

lemma sweep_field:
  assumes "\<And>x. indep putf (body x)" and "repr (getf s) xs"
    and "sweep_spec body xs s = (Inr rms, t)"
  obtains l' where "sweep getf putf body s = (Inr (), putf l' t)"
    and "xs = [] \<or> \<not> hd rms \<or> False \<notin> set rms \<Longrightarrow> repr l' (kept xs rms)"
    and "xs \<noteq> [] \<Longrightarrow> hd rms \<Longrightarrow> False \<in> set rms \<Longrightarrow> dangling l' \<and> 1 < brk l'"
    and "create l' = create (getf s)"
proof -
  from assms(2) obtain as where as: "owns (getf s) as" "head (getf s) = first as 0" "xs = map snd as"
    by (auto simp: repr_def)
  obtain l' where run: "sweep_loop getf putf body (brk (getf s)) 0 (first as 0) s = (Inr (), putf l' t)"
    and own: "owns l' (kept as rms)"
    and hd: "head l' = (if as \<noteq> [] \<and> False \<notin> set rms then 0 else head (getf s))"
    and cr: "create l' = create (getf s)" "brk l' = brk (getf s)"
    using sweep_loop_owned [where body = body, OF assms(1), where l = "getf s" and ks = "[]" and rs = as
        and n = "brk (getf s)" and s = s and rms = rms and t = t]
      as assms(3) owns_short [OF as(1)] by (auto simp: put_get)
  have len: "length rms = length as" using length_sweep_spec [OF assms(3)] as by simp
  show ?thesis
  proof (rule that [of l'])
    show "sweep getf putf body s = (Inr (), putf l' t)"
      using run as(2) by (simp add: sweep_def bnd_run)
    show "create l' = create (getf s)" by (rule cr)
    show "repr l' (kept xs rms)" if "xs = [] \<or> \<not> hd rms \<or> False \<notin> set rms"
    proof -
      have "head l' = first (kept as rms) 0"
      proof (cases as)
        case Nil
        then show ?thesis using hd as by simp
      next
        case (Cons a bs)
        then obtain r rs where rms: "rms = r # rs" using len by (cases rms) auto
        show ?thesis
          using hd as(2,3) that Cons rms kept_all_removed [of rms as] by auto
      qed
      then show ?thesis using own as(3) by (auto simp: repr_def kept_map)
    qed
    show "dangling l' \<and> 1 < brk l'" if prem: "xs \<noteq> []" "hd rms" "False \<in> set rms"
    proof -
      obtain a bs where ab: "as = a # bs" using prem as by (cases as) auto
      then obtain rs where rms: "rms = True # rs" using len prem ab by (cases rms) auto
      have h: "head l' = fst a" "fst a \<noteq> 0" using hd as ab prem by (auto simp: owns_def)
      have "dom (cells l') = fst ` set (kept bs rs)" using own ab rms by (simp add: owns_def)
      moreover have "fst ` set (kept bs rs) \<subseteq> fst ` set bs"
        using set_kept by (rule image_mono)
      moreover have "fst a \<notin> fst ` set bs" using as(1) ab by (auto simp: owns_def)
      ultimately have "fst a \<notin> dom (cells l')" by auto
      then have "dangling l'" using h by (auto simp: dangling_def)
      moreover have "fst a \<in> {1..<brk l'}" using as(1) ab cr by (auto simp: owns_def)
      ultimately show ?thesis by auto
    qed
  qed
qed

end

section \<open>Properties\<close>

text \<open>A push appends the copy of the value, whatever the list holds.\<close>

lemma list_push_appends:
  assumes "repr l xs"
  shows "\<exists>l'. list_push_back x l = (Inr (), l') \<and> repr l' (xs @ [create l x])"
  using push_repr [OF assms] by blast

text \<open>A list with the elements 1 and 2, to evaluate the model on.\<close>

definition sample_list :: "int list_t" where
  "sample_list = snd (bnd (list_push_back 1) (\<lambda>_. list_push_back 2) (list_create None (\<lambda>x. x)))"

lemma sample_list_repr: "repr sample_list [1, 2]" and sample_list_compare: "compare sample_list = dummy_compare"
proof -
  let ?l0 = "list_create None (\<lambda>x. x) :: int list_t"
  let ?l1 = "pushed ?l0 1"
  have 0: "repr ?l0 []" "create ?l0 = (\<lambda>x. x)" "compare ?l0 = dummy_compare"
    by (simp_all add: repr_create) (simp_all add: list_create_def)
  have o0: "owns ?l0 []" "head ?l0 = first [] 0" using 0(1) by (auto simp: repr_def)
  have 1: "list_push_back 1 ?l0 = (Inr (), ?l1)" "repr ?l1 [1]" "create ?l1 = (\<lambda>x. x)"
      "compare ?l1 = dummy_compare"
    using push_repr [OF 0(1), of 1] push_owned(4,5) [OF o0, of 1] 0 by simp_all
  then obtain as where o1: "owns ?l1 as" "head ?l1 = first as 0" by (auto simp: repr_def)
  have "sample_list = pushed ?l1 2"
    using 1 push_repr(1) [OF 1(2), of 2] by (simp add: sample_list_def bnd_run)
  then show "repr sample_list [1, 2]" and "compare sample_list = dummy_compare"
    using push_repr(2) [OF 1(2), of 2] push_owned(5) [OF o1, of 2] 1(3,4) by simp_all
qed

lemma list_push_appends_witness:
  "\<exists>l'. list_push_back 3 sample_list = (Inr (), l') \<and> repr l' [1, 2, create sample_list 3]"
  using list_push_appends [OF sample_list_repr, of 3] by simp

text \<open>\<open>list_pop\<close> with \<open>once\<close> removes the first element the comparison accepts, and no other.\<close>

lemma list_pop_removes_first:
  assumes "repr l xs" and "once \<noteq> 0"
  shows "\<exists>l'. list_pop data once l = (Inr (), l') \<and> repr l' (remove_match (\<lambda>x. compare l data x = 1) xs)"
  using list_pop_once_repr [OF assms] by metis

lemma list_pop_removes_first_witness:
  "\<exists>l'. list_pop 1 1 sample_list = (Inr (), l') \<and> repr l' [2]"
  using list_pop_removes_first [OF sample_list_repr, of 1 1]
  by (simp add: sample_list_compare dummy_compare_def)

text \<open>
  Without \<open>once\<close> the loop steps over the cell behind a removed one; where the removed cell
  was the last, it reads \<open>NULL->next\<close>.
\<close>

lemma list_pop_all_last:
  assumes "repr l (xs @ [y])" and "list_all (\<lambda>x. compare l data x \<noteq> 1) xs"
    and "compare l data y = 1"
  shows "fst (list_pop data 0 l) = Inl (UB NullDeref)"
proof -
  from assms obtain bs where bs: "owns l bs" "head l = first bs 0" "xs @ [y] = map snd bs"
    by (auto simp: repr_def)
  then obtain as b where ab: "bs = as @ [b]" "map snd as = xs" "snd b = y"
    by (cases bs rule: rev_cases) auto
  obtain p where b: "b = (p, y)" using ab by (cases b) auto
  obtain n where n: "brk l = length as + Suc n"
    using owns_short [OF bs(1)] ab less_imp_Suc_add by fastforce
  have p: "cells l p = Some \<lparr>nxt = 0, dat = y\<rparr>" "p \<noteq> 0"
    using bs ab b by (auto simp: owns_def)
  have "list_all (\<lambda>x. compare l data (snd x) \<noteq> 1) as"
    using assms(2) unfolding ab(2) [symmetric] by (simp add: list_all_iff)
  then have run: "list_pop data 0 l =
      list_pop_loop (Suc n) data 0 (if as = [] then 0 else fst (last as)) p l"
    using list_pop_loop_skip [of l as "[b]" data "Suc n" 0 0] bs ab b n
    by (simp add: list_pop_def bnd_run)
  show ?thesis
  proof (cases as rule: rev_cases)
    case Nil
    then show ?thesis
      using run p assms(3) by (simp add: bnd_run seq_run load_def free_cell_def)
  next
    case (snoc us u)
    then have "cells l (fst u) = Some \<lparr>nxt = p, dat = snd u\<rparr>" "fst u \<noteq> 0" "p \<noteq> fst u"
      using bs ab b by (auto simp: owns_def)
    then show ?thesis
      using run p assms(3) snoc
      by (simp add: bnd_run seq_run load_def free_cell_def store_nxt_def)
  qed
qed

theorem list_pop_all_last_witness: "fst (list_pop 2 0 sample_list) = Inl (UB NullDeref)"
  by (rule list_pop_all_last [where xs = "[1]" and y = 2])
    (simp_all add: sample_list_repr sample_list_compare dummy_compare_def)

end
