(* ===== verification/Server_State.thy ===== *)
theory Server_State
  imports Packets Networking Clist
begin

text \<open>
  The servent's state (\<open>server_internal.h\<close>, \<open>request.h\<close>, \<open>server_defines.h\<close>) and the
  utilities on it (\<open>server_util.c\<close>, \<open>request.c\<close>). The central invariant is
  \<open>neighbours_ok\<close>: the number of neighbours counts the used slots of the array.
\<close>

section \<open>Requests\<close>

record search_request_t =
  source_sock :: int
  ip_source :: cstr
  port_source :: cstr
  sr_filename :: cstr
  ttl :: byte
  nb_ips :: byte
  sr_ips :: "cstr list"
  sr_ports :: "cstr list"

record search_request_log_t =
  delete_timer :: int
  source_ip :: cstr
  source_port :: cstr
  log_filename :: cstr

record download_request_t =
  dl_ip :: cstr
  dl_port :: cstr
  dl_filename :: cstr

record remote_download_request_t =
  rdl_socket :: int
  rdl_filename :: cstr

text \<open>A request: its type and the structure \<open>void* request\<close> points to.\<close>

datatype request_t =
    REQUEST_SEARCH_LOCAL cstr
  | REQUEST_DOWNLOAD_LOCAL download_request_t
  | REQUEST_SEARCH_REMOTE search_request_t
  | REQUEST_DOWNLOAD_REMOTE remote_download_request_t

text \<open>The functions a list copies its elements with; the copies are equal.\<close>

definition add_new_request :: "request_t \<Rightarrow> request_t" where
  "add_new_request req = req"

definition add_new_search_request_log :: "search_request_log_t \<Rightarrow> search_request_log_t" where
  "add_new_search_request_log log_request = log_request"

definition add_new_socket :: "int \<Rightarrow> int" where
  "add_new_socket s = s"

section \<open>The servent\<close>

definition MIN_NEIGHBOURS :: nat where "MIN_NEIGHBOURS = 2"
definition MAX_NEIGHBOURS :: nat where "MAX_NEIGHBOURS = 5"
definition JOIN_MAX_ATTEMPTS :: int where "JOIN_MAX_ATTEMPTS = 5"

definition CONTACT_PORT :: cstr where "CONTACT_PORT = cs ''10000''"
definition CONTACT_POINT :: cstr where "CONTACT_POINT = cs ''134.214.88.230''"
definition SEARCH_DIRECTORY :: cstr where "SEARCH_DIRECTORY = cs ''files''"

lemmas server_defines = MIN_NEIGHBOURS_def MAX_NEIGHBOURS_def JOIN_MAX_ATTEMPTS_def

text \<open>The contact port of a slot is NULL (\<open>None\<close>) or a string.\<close>

record socket_contact_t =
  sc_sock :: int
  sc_port :: "cstr option"

text \<open>
  \<open>self_ip\<close> is NULL, a string, or a pointer to a string that has been freed. A list of the
  servent is used after \<open>list_create\<close> only. \<open>loop_flag\<close> is the global \<open>_loop\<close>.
\<close>

record server_t = os +
  listening_socket :: int
  neighbours :: "socket_contact_t list"
  nb_neighbours :: int
  client_socket :: int
  handshake_flag :: int
  awaiting_sockets :: "int list_t"
  pending_requests :: "request_t list_t"
  received_search_requests :: "search_request_log_t list_t"
  pending_downloads :: "int list_t"
  self_ip :: cptr
  loop_flag :: int

type_synonym 'a server_prog = "(server_t, 'a) prog"

definition deref_port :: "cstr option \<Rightarrow> ('s, cstr) prog" where
  "deref_port p = (case p of None \<Rightarrow> halt (UB NullDeref) | Some x \<Rightarrow> ret x)"

text \<open>The four lists of the servent as fields of its state.\<close>

abbreviation (input) put_awaiting :: "int list_t \<Rightarrow> server_t \<Rightarrow> server_t" where
  "put_awaiting l s \<equiv> s\<lparr>awaiting_sockets := l\<rparr>"

abbreviation (input) put_requests :: "request_t list_t \<Rightarrow> server_t \<Rightarrow> server_t" where
  "put_requests l s \<equiv> s\<lparr>pending_requests := l\<rparr>"

abbreviation (input) put_logs :: "search_request_log_t list_t \<Rightarrow> server_t \<Rightarrow> server_t" where
  "put_logs l s \<equiv> s\<lparr>received_search_requests := l\<rparr>"

abbreviation (input) put_downloads :: "int list_t \<Rightarrow> server_t \<Rightarrow> server_t" where
  "put_downloads l s \<equiv> s\<lparr>pending_downloads := l\<rparr>"

interpretation awaiting: list_field awaiting_sockets put_awaiting
  by unfold_locales simp_all

interpretation requests: list_field pending_requests put_requests
  by unfold_locales simp_all

interpretation logs: list_field received_search_requests put_logs
  by unfold_locales simp_all

interpretation downloads: list_field pending_downloads put_downloads
  by unfold_locales simp_all

definition push_awaiting :: "int \<Rightarrow> unit server_prog" where
  "push_awaiting sk = zoom awaiting_sockets put_awaiting (list_push_back sk)"

definition push_request :: "request_t \<Rightarrow> unit server_prog" where
  "push_request r = zoom pending_requests put_requests (list_push_back r)"

definition push_download :: "int \<Rightarrow> unit server_prog" where
  "push_download sk = zoom pending_downloads put_downloads (list_push_back sk)"

section \<open>\<open>server_util.c\<close>\<close>

definition extract_neighbour_from_response :: "int \<Rightarrow> (cstr \<times> cstr) server_prog" where
  "extract_neighbour_from_response s =
     bnd (read_lstr s) (\<lambda>ip. bnd (read_lstr s) (\<lambda>port. ret (ip, port)))"

text \<open>
  The addresses and contact ports of the neighbours, in the order of the array. The name of
  the peer is read into a \<open>struct sockaddr\<close>, which has no room for an IPv6 address; of any
  other family the buffer keeps what \<open>malloc\<close> left in it.
\<close>

primrec neighbour_names :: "socket_contact_t list \<Rightarrow> (cstr option \<times> cstr option) list server_prog" where
  "neighbour_names [] = ret []"
| "neighbour_names (n # ns) =
     (if sc_sock n \<noteq> - 1 then
        bnd (gets (\<lambda>s. peername s (sc_sock n))) (\<lambda>addr. case addr of
          Inet ip p \<Rightarrow> bnd (neighbour_names ns) (\<lambda>r. ret ((Some ip, sc_port n) # r))
        | Inet6 ip p \<Rightarrow> halt (UB OutOfBounds)
        | OtherFamily \<Rightarrow> bnd (neighbour_names ns) (\<lambda>r. ret ((None, sc_port n) # r)))
      else neighbour_names ns)"

text \<open>\<open>send_neighbours_list\<close> of \<open>server_packets.c\<close>; the strings are written after their length.\<close>

primrec write_names :: "(cstr option \<times> cstr option) list \<Rightarrow> pbuf \<Rightarrow> pbuf server_prog" where
  "write_names [] p = ret p"
| "write_names (m # ms) p =
     bnd (as_string (fst m)) (\<lambda>ip.
     bnd (deref_port (snd m)) (\<lambda>port.
     bnd (write_lstr p ip) (\<lambda>p.
     bnd (write_lstr p port) (\<lambda>p. write_names ms p))))"

definition send_neighbours_list :: "int \<Rightarrow> (cstr option \<times> cstr option) list \<Rightarrow> unit server_prog" where
  "send_neighbours_list s names =
     (let nb = u8 (length names);
          data = PBuf (PKT_ID_SIZE + 1 + unat nb * (INET6_ADDRSTRLEN + 5 + 2 * 1)) []
      in bnd (write_to_packet data [SMSG_NEIGHBOURS] PKT_ID_SIZE) (\<lambda>p.
         bnd (write_to_packet p [nb] 1) (\<lambda>p.
         bnd (write_names names p) (\<lambda>p.
         bnd (write_to_fd s (pbytes p)) (\<lambda>_. ret ())))))"

definition compute_and_send_neighbours :: "int \<Rightarrow> unit server_prog" where
  "compute_and_send_neighbours s =
     bnd (gets neighbours) (\<lambda>ns.
     bnd (neighbour_names ns) (\<lambda>names. send_neighbours_list s names))"

text \<open>The first free slot of the array.\<close>

primrec free_slot :: "socket_contact_t list \<Rightarrow> nat \<Rightarrow> nat option" where
  "free_slot [] i = None"
| "free_slot (n # ns) i = (if sc_sock n = - 1 then Some i else free_slot ns (Suc i))"

definition add_neighbour :: "int \<Rightarrow> cstr \<Rightarrow> unit server_prog" where
  "add_neighbour s contact_port =
     bnd (gets nb_neighbours) (\<lambda>nb.
     if nb = int MAX_NEIGHBOURS then ret ()
     else bnd (extract_ip_from_socket s 1) (\<lambda>ip.
       bnd (as_string ip) (\<lambda>_.
       bnd (gets neighbours) (\<lambda>ns.
       case free_slot ns 0 of
         Some i \<Rightarrow> modify (\<lambda>v. v\<lparr>neighbours := (neighbours v)[i := \<lparr>sc_sock = s, sc_port = Some contact_port\<rparr>],
                        nb_neighbours := nb_neighbours v + 1\<rparr>)
       | None \<Rightarrow> ret ()))))"

section \<open>The invariant of the neighbours\<close>

definition used :: "socket_contact_t list \<Rightarrow> nat" where
  "used ns = length (filter (\<lambda>n. sc_sock n \<noteq> - 1) ns)"

definition neighbours_ok :: "'z server_t_scheme \<Rightarrow> bool" where
  "neighbours_ok s \<longleftrightarrow> length (neighbours s) = MAX_NEIGHBOURS \<and>
     nb_neighbours s = int (used (neighbours s)) \<and>
     (\<forall>n \<in> set (neighbours s). sc_sock n \<noteq> - 1 \<longrightarrow> sc_port n \<noteq> None)"

lemma used_le: "used ns \<le> length ns"
  by (simp add: used_def)

lemma used_simps [simp]:
  "used [] = 0" "used (n # ns) = (if sc_sock n = - 1 then used ns else Suc (used ns))"
  "used (ms @ ns) = used ms + used ns"
  by (simp_all add: used_def)

lemma free_slot_Some:
  "free_slot ns i = Some j \<Longrightarrow>
   \<exists>k. j = i + k \<and> k < length ns \<and> sc_sock (ns ! k) = - 1 \<and> (\<forall>l < k. sc_sock (ns ! l) \<noteq> - 1)"
proof (induction ns arbitrary: i)
  case (Cons n ns)
  show ?case
  proof (cases "sc_sock n = - 1")
    case False
    then obtain k where "j = Suc i + k" "k < length ns" "sc_sock (ns ! k) = - 1"
        "\<forall>l < k. sc_sock (ns ! l) \<noteq> - 1"
      using Cons.IH [of "Suc i"] Cons.prems by auto
    with False show ?thesis
      by (intro exI [of _ "Suc k"]) (auto simp: less_Suc_eq_0_disj)
  qed (use Cons.prems in auto)
qed simp

lemma free_slot_None: "free_slot ns i = None \<longleftrightarrow> used ns = length ns"
proof (induction ns arbitrary: i)
  case (Cons n ns)
  then show ?case using used_le [of ns] by auto
qed simp

lemma used_update:
  "k < length ns \<Longrightarrow> sc_sock (ns ! k) = - 1 \<Longrightarrow> sc_sock n \<noteq> - 1 \<Longrightarrow> used (ns[k := n]) = Suc (used ns)"
  by (induction ns arbitrary: k) (auto split: nat.splits simp: nth_Cons)

lemma used_release:
  "k < length ns \<Longrightarrow> sc_sock (ns ! k) \<noteq> - 1 \<Longrightarrow> sc_sock n = - 1 \<Longrightarrow> Suc (used (ns[k := n])) = used ns"
  by (induction ns arbitrary: k) (auto split: nat.splits simp: nth_Cons)

lemma neighbours_okI:
  "length (neighbours s) = MAX_NEIGHBOURS \<Longrightarrow> nb_neighbours s = int (used (neighbours s)) \<Longrightarrow>
   (\<And>n. n \<in> set (neighbours s) \<Longrightarrow> sc_sock n \<noteq> - 1 \<Longrightarrow> sc_port n \<noteq> None) \<Longrightarrow> neighbours_ok s"
  by (simp add: neighbours_ok_def)

lemma neighbours_ok_bounds:
  "neighbours_ok s \<Longrightarrow> 0 \<le> nb_neighbours s \<and> nb_neighbours s \<le> int MAX_NEIGHBOURS"
  using used_le [of "neighbours s"] by (auto simp: neighbours_ok_def)

lemma add_neighbour_keeps: "s \<noteq> - 1 \<Longrightarrow> keeps neighbours_ok (add_neighbour s p)"
proof (rule keepsI)
  fix v :: server_t
  assume s: "s \<noteq> - 1" and ok: "neighbours_ok v"
  show "neighbours_ok (snd (add_neighbour s p v))"
  proof (cases "free_slot (neighbours v) 0")
    case None
    then show ?thesis using ok
      by (simp add: add_neighbour_def bnd_run extract_ip_run split: sockaddr.splits)
  next
    case (Some i)
    then have i: "i < length (neighbours v)" "sc_sock (neighbours v ! i) = - 1"
      using free_slot_Some by fastforce+
    let ?n = "\<lparr>sc_sock = s, sc_port = Some p\<rparr>"
    have "neighbours_ok (v\<lparr>neighbours := (neighbours v)[i := ?n], nb_neighbours := nb_neighbours v + 1\<rparr>)"
      using ok i s used_update [OF i, of ?n] set_update_subset_insert [of "neighbours v" i ?n]
      by (intro neighbours_okI) (auto simp: neighbours_ok_def)
    then show ?thesis using ok Some
      by (simp add: add_neighbour_def bnd_run extract_ip_run split: sockaddr.splits)
  qed
qed

interpretation nb: os_frame "neighbours_ok :: server_t \<Rightarrow> bool"
  by unfold_locales (simp_all add: neighbours_ok_def)

lemma deref_keeps [keep_rules]: "keeps P (deref p)"
  by (simp add: keeps_def deref_def split: cptr.splits)

lemma deref_port_keeps [keep_rules]: "keeps P (deref_port p)"
  by (simp add: keeps_def deref_port_def split: option.splits)

lemma write_names_keeps [keep_rules]: "keeps P (write_names ms p)"
proof (induction ms arbitrary: p)
  case Nil
  show ?case unfolding write_names.simps by (rule keeps_ret)
next
  case (Cons m ms)
  show ?case unfolding write_names.simps by (intro keep_rules Cons.IH)
qed

lemma keeps_case_sockaddr [keep_rules]:
  "(\<And>i p. keeps P (f i p)) \<Longrightarrow> (\<And>i p. keeps P (g i p)) \<Longrightarrow> keeps P h \<Longrightarrow>
   keeps P (case a of Inet i p \<Rightarrow> f i p | Inet6 i p \<Rightarrow> g i p | OtherFamily \<Rightarrow> h)"
  by (simp split: sockaddr.splits)

lemma neighbour_names_keeps [keep_rules]: "keeps P (neighbour_names ns)"
proof (induction ns)
  case Nil
  show ?case unfolding neighbour_names.simps by (rule keeps_ret)
next
  case (Cons n ns)
  show ?case unfolding neighbour_names.simps by (intro keep_rules Cons.IH)
qed

text \<open>
  An invariant of the servent that depends neither on descriptors nor on the queues the
  handlers push to. It is kept by every operation of this theory but \<open>add_neighbour\<close>.
\<close>

locale server_frame = os_frame P for P :: "server_t \<Rightarrow> bool" +
  assumes frame_requests: "P (s\<lparr>pending_requests := q\<rparr>) = P s"
    and frame_downloads: "P (s\<lparr>pending_downloads := d\<rparr>) = P s"
begin

lemma keeps_push_request: "keeps P (push_request r)"
  unfolding push_request_def by (rule keeps_zoom) (simp add: frame_requests)

lemma keeps_push_download: "keeps P (push_download d)"
  unfolding push_download_def by (rule keeps_zoom) (simp add: frame_downloads)

lemma keeps_extract_neighbour: "keeps P (extract_neighbour_from_response s)"
  unfolding extract_neighbour_from_response_def by (intro keep_rules keeps_read_lstr)

lemma keeps_send_neighbours_list: "keeps P (send_neighbours_list s names)"
  unfolding send_neighbours_list_def Let_def by (intro keep_rules keeps_write_to_fd)

lemma keeps_compute_and_send: "keeps P (compute_and_send_neighbours s)"
  unfolding compute_and_send_neighbours_def by (intro keep_rules keeps_send_neighbours_list)

end

interpretation nbs: server_frame "neighbours_ok :: server_t \<Rightarrow> bool"
  by unfold_locales (simp_all add: neighbours_ok_def)

text \<open>A handler of requests that finds a packet queues the request at the end.\<close>

lemma push_request_run:
  assumes "repr (pending_requests s) rs" and "create (pending_requests s) = add_new_request"
  obtains l where "push_request r s = (Inr (), s\<lparr>pending_requests := l\<rparr>)"
    and "repr l (rs @ [r])" and "create l = add_new_request"
  using requests.push_field [OF assms(1), of r] assms(2)
  unfolding push_request_def add_new_request_def by metis

section \<open>A servent to evaluate the model on\<close>

definition sample_servent :: server_t where
  "sample_servent = \<lparr>rx = (\<lambda>_. []), wx = (\<lambda>_. []), script = (\<lambda>_. []), junk = [],
     peername = (\<lambda>_. Inet (cs ''10.0.0.2'') 4000), sockname = (\<lambda>_. Inet (cs ''10.0.0.1'') 2000),
     resolver = (\<lambda>_ port. Inr [Some (cs ''10.0.0.3'', port)]),
     files = [(cs ''files/song'', [1, 2, 3])], evs = [],
     listening_socket = 3,
     neighbours = [\<lparr>sc_sock = 6, sc_port = Some (cs ''2000'')\<rparr>, \<lparr>sc_sock = - 1, sc_port = None\<rparr>,
       \<lparr>sc_sock = 7, sc_port = Some (cs ''3000'')\<rparr>, \<lparr>sc_sock = - 1, sc_port = None\<rparr>,
       \<lparr>sc_sock = - 1, sc_port = None\<rparr>],
     nb_neighbours = 2, client_socket = 4, handshake_flag = 1,
     awaiting_sockets = list_create (Some compare_ints) add_new_socket,
     pending_requests = list_create None add_new_request,
     received_search_requests = list_create None add_new_search_request_log,
     pending_downloads = list_create None add_new_socket,
     self_ip = Live (cs ''10.0.0.1''), loop_flag = 1\<rparr>"

lemma sample_ok: "neighbours_ok sample_servent"
  by (simp add: neighbours_ok_def sample_servent_def MAX_NEIGHBOURS_def)

end
