(* ===== verification/Server_Packets.thy ===== *)
theory Server_Packets
  imports Server_State
begin

text \<open>
  \<open>server_packets.c\<close>: the packets the servent sends to other servents. Each sender is
  proved to send the packet of \<open>packets_doc.h\<close> within the memory it allocates.
\<close>

section \<open>The senders\<close>

text \<open>
  \<open>extract_port_from_socket(server->listening_socket, listening_port, 0)\<close> and
  \<open>listening_port\<close> used as a string.
\<close>

definition own_port :: "cstr server_prog" where
  "own_port =
     bnd (gets listening_socket) (\<lambda>ls. bnd (extract_port_from_socket ls 0) as_string)"

definition answer_join_request :: "int \<Rightarrow> byte \<Rightarrow> unit server_prog" where
  "answer_join_request s join =
     (let data = PBuf (PKT_ID_SIZE + 1 + 1 + 5) [] in
      bnd (write_to_packet data [SMSG_JOIN] PKT_ID_SIZE) (\<lambda>p.
      bnd (write_to_packet p [join] 1) (\<lambda>p.
      bnd (if join = 1 then
             bnd own_port (\<lambda>listening_port. write_lstr p listening_port)
           else ret p) (\<lambda>p.
      bnd (write_to_fd s (pbytes p)) (\<lambda>_. ret ())))))"

text \<open>The socket of the request, \<open>-1\<close> when the connection failed.\<close>

definition send_neighbours_request :: "cstr \<Rightarrow> cstr \<Rightarrow> int server_prog" where
  "send_neighbours_request ip port =
     bnd (connect_to ip port) (\<lambda>(res, sk).
     if res \<noteq> CONNECT_OK then ret (- 1)
     else case sk of None \<Rightarrow> ret (- 1) | Some socket \<Rightarrow>
       bnd (write_to_fd socket [CMSG_NEIGHBOURS]) (\<lambda>_. ret socket))"

definition send_join_request :: "cstr \<Rightarrow> cstr \<Rightarrow> byte \<Rightarrow> int server_prog" where
  "send_join_request ip port rescue =
     bnd (connect_to ip port) (\<lambda>(res, sk).
     if res \<noteq> CONNECT_OK then ret (- 1)
     else case sk of None \<Rightarrow> ret (- 1) | Some socket \<Rightarrow>
       (let data = PBuf (PKT_ID_SIZE + 1 + 1 + 5) [] in
        bnd (write_to_packet data [CMSG_JOIN] PKT_ID_SIZE) (\<lambda>p.
        bnd (write_to_packet p [rescue] 1) (\<lambda>p.
        bnd own_port (\<lambda>listening_port.
        bnd (write_lstr p listening_port) (\<lambda>p.
        bnd (write_to_fd socket (pbytes p)) (\<lambda>_. ret socket)))))))"

definition broadcast_packet :: "byte list \<Rightarrow> unit server_prog" where
  "broadcast_packet packet =
     for_list [0..<MAX_NEIGHBOURS] (\<lambda>i.
       bnd (gets (\<lambda>s. sc_sock (neighbours s ! i))) (\<lambda>sk.
       if sk \<noteq> - 1 then bnd (write_to_fd sk packet) (\<lambda>_. ret ()) else ret ()))"

definition broadcast_packet_to :: "int list \<Rightarrow> nat \<Rightarrow> byte list \<Rightarrow> unit server_prog" where
  "broadcast_packet_to sockets nb_sockets packet =
     for_list [0..<nb_sockets] (\<lambda>i. bnd (write_to_fd (sockets ! i) packet) (\<lambda>_. ret ()))"

definition leave_network :: "unit server_prog" where
  "leave_network = broadcast_packet [CMSG_LEAVE]"

section \<open>What they send\<close>

definition listening_port :: "server_t \<Rightarrow> cstr option" where
  "listening_port s = (case sockname s (listening_socket s) of
     Inet ip p \<Rightarrow> Some (dec (unat p)) | Inet6 ip p \<Rightarrow> Some (dec (unat p)) | OtherFamily \<Rightarrow> None)"

lemma own_port_run [run_simps]:
  "own_port s = ((case listening_port s of None \<Rightarrow> Inl (UB Uninit) | Some x \<Rightarrow> Inr x), s)"
  by (simp add: own_port_def bnd_run extract_port_run listening_port_def sock_name_def
      split: sockaddr.splits)

lemma listening_port_short:
  "listening_port s = Some x \<Longrightarrow> length x \<le> 5 \<and> is_cstr x \<and> wf_lstr x"
proof -
  assume "listening_port s = Some x"
  then obtain p :: "16 word" where "x = dec (unat p)"
    by (auto simp: listening_port_def split: sockaddr.splits)
  then show ?thesis using length_dec_port [of p] by (simp add: wf_lstr_def)
qed

lemma own_port_keeps [keep_rules]: "keeps P own_port"
  by (simp add: keeps_def own_port_run)

text \<open>The effect of a packet on a descriptor that accepts it whole.\<close>

definition after_send :: "int \<Rightarrow> byte list \<Rightarrow> 'z os_scheme \<Rightarrow> 'z os_scheme" where
  "after_send fd bs s = s\<lparr>evs := evs s @ [Wrote fd bs]\<rparr>"

lemma answer_join_accept:
  assumes "listening_port s = Some x" and "wx s fd = []"
  shows "answer_join_request fd 1 s = (Inr (), after_send fd (encode (PJoinAccepted x)) s)"
  using assms listening_port_short [OF assms(1)]
  by (simp add: answer_join_request_def Let_def bnd_run own_port_run write_to_packet_run
      write_lstr_run write_to_fd_free after_send_def)

lemma answer_join_refuse:
  assumes "join \<noteq> 1" and "wx s fd = []"
  shows "answer_join_request fd join s = (Inr (), after_send fd (encode (PJoinRefused join)) s)"
  using assms
  by (simp add: answer_join_request_def Let_def bnd_run write_to_packet_run write_to_fd_free after_send_def)

lemma enc_machine_Pair: "enc_machine (i, p) = enc_lstr i @ enc_lstr p"
  by (simp add: enc_machine_def)

text \<open>
  The list of machines fits where every address has at most \<open>INET6_ADDRSTRLEN\<close> bytes and
  every port at most 5.
\<close>

definition short_machine :: "machine \<Rightarrow> bool" where
  "short_machine m \<longleftrightarrow> length (fst m) \<le> INET6_ADDRSTRLEN \<and> length (snd m) \<le> 5"

lemma length_enc_machines_short:
  "list_all short_machine ms \<Longrightarrow> length (enc_machines ms) \<le> length ms * (INET6_ADDRSTRLEN + 5 + 2)"
  by (induction ms) (auto simp: short_machine_def)

lemma write_names_run:
  "list_all short_machine ms \<Longrightarrow> length (pbytes p) + length ms * (INET6_ADDRSTRLEN + 5 + 2) \<le> pcap p \<Longrightarrow>
   write_names (map (\<lambda>m. (Some (fst m), Some (snd m))) ms) p s =
     (Inr (PBuf (pcap p) (pbytes p @ enc_machines ms)), s)"
proof (induction ms arbitrary: p)
  case Nil
  then show ?case by (cases p) simp
next
  case (Cons m ms)
  then show ?case
    by (simp add: bnd_run deref_port_def write_lstr_run short_machine_def INET6_ADDRSTRLEN_def
        enc_machine_def)
qed

lemma send_neighbours_list_run:
  assumes "list_all short_machine ms" and "length ms < 256" and "wx s fd = []"
  shows "send_neighbours_list fd (map (\<lambda>m. (Some (fst m), Some (snd m))) ms) s =
    (Inr (), after_send fd (encode (PNeighboursList ms)) s)"
  using assms
  by (simp add: send_neighbours_list_def Let_def bnd_run write_to_packet_run write_names_run
      write_to_fd_free after_send_def enc_counted_def)

text \<open>A broadcast sends the packet once to every neighbour, in the order of the array.\<close>

definition neighbour_socks :: "server_t \<Rightarrow> int list" where
  "neighbour_socks s = filter (\<lambda>k. k \<noteq> - 1) (map sc_sock (neighbours s))"

definition after_broadcast :: "int list \<Rightarrow> byte list \<Rightarrow> 'z os_scheme \<Rightarrow> 'z os_scheme" where
  "after_broadcast fds bs s = s\<lparr>evs := evs s @ map (\<lambda>fd. Wrote fd bs) fds\<rparr>"

lemma broadcast_upto:
  assumes "bs \<noteq> []"
  shows "k \<le> length (neighbours s) \<Longrightarrow> (\<And>fd. wx s fd = []) \<Longrightarrow>
    for_list [0..<k] (\<lambda>i.
       bnd (gets (\<lambda>s. sc_sock (neighbours s ! i))) (\<lambda>sk.
       if sk \<noteq> - 1 then bnd (write_to_fd sk bs) (\<lambda>_. ret ()) else ret ())) s =
     (Inr (), after_broadcast (filter (\<lambda>k. k \<noteq> - 1) (map sc_sock (take k (neighbours s)))) bs s)"
proof (induction k)
  case 0
  then show ?case by (simp add: after_broadcast_def)
next
  case (Suc k)
  then show ?case
    using assms by (simp add: for_list_append seq_run bnd_run after_broadcast_def write_to_fd_free
        take_Suc_conv_app_nth)
qed

lemma broadcast_packet_run:
  assumes "bs \<noteq> []" and "length (neighbours s) = MAX_NEIGHBOURS" and "\<And>fd. wx s fd = []"
  shows "broadcast_packet bs s = (Inr (), after_broadcast (neighbour_socks s) bs s)"
  using broadcast_upto [OF assms(1), of MAX_NEIGHBOURS s] assms
  by (simp add: broadcast_packet_def neighbour_socks_def)

lemma broadcast_to_run:
  assumes "bs \<noteq> []" and "\<And>fd. wx s fd = []"
  shows "k \<le> length fds \<Longrightarrow>
    broadcast_packet_to fds k bs s = (Inr (), after_broadcast (take k fds) bs s)"
proof (induction k)
  case 0
  then show ?case by (simp add: broadcast_packet_to_def after_broadcast_def)
next
  case (Suc k)
  then show ?case
    using assms by (simp add: broadcast_packet_to_def for_list_append seq_run bnd_run
        after_broadcast_def write_to_fd_free take_Suc_conv_app_nth)
qed

context server_frame
begin

lemma keeps_answer_join_request: "keeps P (answer_join_request s j)"
  unfolding answer_join_request_def Let_def by (intro keep_rules keeps_write_to_fd)

lemma keeps_send_neighbours_request: "keeps P (send_neighbours_request ip port)"
  unfolding send_neighbours_request_def by (intro keep_rules keeps_write_to_fd keeps_connect_to)

lemma keeps_send_join_request: "keeps P (send_join_request ip port r)"
  unfolding send_join_request_def Let_def by (intro keep_rules keeps_write_to_fd keeps_connect_to)

lemma keeps_broadcast_packet: "keeps P (broadcast_packet bs)"
  unfolding broadcast_packet_def by (intro keep_rules keeps_write_to_fd)

lemma keeps_broadcast_packet_to: "keeps P (broadcast_packet_to fds n bs)"
  unfolding broadcast_packet_to_def by (intro keep_rules keeps_write_to_fd)

lemma keeps_leave_network: "keeps P leave_network"
  unfolding leave_network_def by (rule keeps_broadcast_packet)

end

section \<open>Properties\<close>

text \<open>The machines a servent announces: its neighbours, all of them IPv4.\<close>

definition announced :: "server_t \<Rightarrow> machine list" where
  "announced s = map (\<lambda>n. (case peername s (sc_sock n) of Inet ip p \<Rightarrow> ip | _ \<Rightarrow> [],
      case sc_port n of Some p \<Rightarrow> p | None \<Rightarrow> []))
    (filter (\<lambda>n. sc_sock n \<noteq> - 1) (neighbours s))"

definition all_ipv4 :: "server_t \<Rightarrow> bool" where
  "all_ipv4 s \<longleftrightarrow> list_all (\<lambda>n. sc_sock n = - 1 \<or> (\<exists>ip p. peername s (sc_sock n) = Inet ip p)) (neighbours s)"

lemma neighbour_names_run:
  "list_all (\<lambda>n. sc_sock n = - 1 \<or> (\<exists>ip p. peername s (sc_sock n) = Inet ip p)) ns \<Longrightarrow>
   list_all (\<lambda>n. sc_sock n = - 1 \<or> sc_port n \<noteq> None) ns \<Longrightarrow>
   neighbour_names ns s = (Inr (map (\<lambda>m. (Some (fst m), Some (snd m)))
     (map (\<lambda>n. (case peername s (sc_sock n) of Inet ip p \<Rightarrow> ip | _ \<Rightarrow> [],
        case sc_port n of Some p \<Rightarrow> p | None \<Rightarrow> [])) (filter (\<lambda>n. sc_sock n \<noteq> - 1) ns))), s)"
  by (induction ns) (auto simp: bnd_run)

text \<open>
  C26. A servent asked for its neighbours sends the packet of \<open>packets_doc.h\<close> with the addresses
  and contact ports of all its neighbours, in the order of its table, within the memory it
  allocates.
\<close>

theorem neighbours_announced:
  assumes "neighbours_ok s" and "all_ipv4 s" and "list_all short_machine (announced s)" and "wx s fd = []"
  shows "compute_and_send_neighbours fd s = (Inr (), after_send fd (encode (PNeighboursList (announced s))) s)"
proof -
  have p: "list_all (\<lambda>n. sc_sock n = - 1 \<or> sc_port n \<noteq> None) (neighbours s)"
    using assms(1) by (auto simp: neighbours_ok_def list_all_iff)
  have "length (announced s) \<le> length (neighbours s)" by (simp add: announced_def)
  then have "length (announced s) < 256" using assms(1) by (simp add: neighbours_ok_def MAX_NEIGHBOURS_def)
  then have "send_neighbours_list fd (map (\<lambda>m. (Some (fst m), Some (snd m))) (announced s)) s =
      (Inr (), after_send fd (encode (PNeighboursList (announced s))) s)"
    using assms(3,4) by (intro send_neighbours_list_run)
  then show ?thesis
    using neighbour_names_run [of s "neighbours s"] assms(2) p
    by (simp add: compute_and_send_neighbours_def bnd_run all_ipv4_def announced_def)
qed

theorem neighbours_announced_witness:
  "announced sample_servent = [(cs ''10.0.0.2'', cs ''2000''), (cs ''10.0.0.2'', cs ''3000'')] \<and>
   compute_and_send_neighbours 9 sample_servent =
     (Inr (), after_send 9 (encode (PNeighboursList (announced sample_servent))) sample_servent)"
  by (intro conjI neighbours_announced sample_ok)
    (simp_all add: announced_def all_ipv4_def sample_servent_def short_machine_def INET6_ADDRSTRLEN_def)

end
