(* ===== verification/Server_Join.thy ===== *)
theory Server_Join
  imports Server_Packets
begin

text \<open>
  \<open>server_join.c\<close>: how a servent acquires neighbours, answers those that want to become
  one, and reacts to one that leaves. The recursion of \<open>join_network_through\<close> is bounded by
  its number of attempts.
\<close>

section \<open>The operations\<close>

definition same_name :: "cstr \<Rightarrow> cstr \<Rightarrow> socket_contact_t \<Rightarrow> bool server_prog" where
  "same_name ip port n =
     (if sc_sock n \<noteq> - 1 then
        bnd (extract_ip_port_from_socket (sc_sock n) 1) (\<lambda>(i, p).
        bnd (as_string i) (\<lambda>sock_ip.
        if sock_ip = ip then bnd (as_string p) (\<lambda>sock_port. ret (sock_port = port))
        else ret False))
      else ret False)"

text \<open>0 when the name is the one of a neighbour, 1 otherwise.\<close>

primrec ensure_absent_loop :: "cstr \<Rightarrow> cstr \<Rightarrow> socket_contact_t list \<Rightarrow> int server_prog" where
  "ensure_absent_loop ip port [] = ret 1"
| "ensure_absent_loop ip port (n # ns) =
     bnd (same_name ip port n) (\<lambda>same. if same then ret 0 else ensure_absent_loop ip port ns)"

definition ensure_absent_ip :: "cstr \<Rightarrow> cstr \<Rightarrow> int server_prog" where
  "ensure_absent_ip ip port = bnd (gets neighbours) (ensure_absent_loop ip port)"

text \<open>\<open>join\<close>; the list of sockets is a variable of the caller, its new value the result.\<close>

definition join :: "cstr \<Rightarrow> cstr \<Rightarrow> int list_t \<Rightarrow> byte \<Rightarrow> int list_t server_prog" where
  "join ip port sockets force =
     bnd (ensure_absent_ip ip port) (\<lambda>absent.
     if absent = 0 then ret sockets
     else bnd (send_join_request ip port force) (\<lambda>res.
     if res = - 1 then ret sockets
     else local_run sockets (list_push_back res)))"

definition handle_join_response :: "int \<Rightarrow> byte server_prog" where
  "handle_join_response s =
     bnd (read_u8 s) (\<lambda>opcode.
     if opcode \<noteq> SMSG_JOIN then halt AssertFail else read_u8 s)"

definition join_response_body :: "addr \<Rightarrow> int \<Rightarrow> unit option server_prog" where
  "join_response_body p sk =
     bnd (handle_join_response sk) (\<lambda>res.
     if res = 1 then
       bnd (read_lstr sk) (\<lambda>port. seq (add_neighbour sk port) (ret None))
     else seq (sys_close sk) (ret None))"

definition handle_join_responses :: "int list_t \<Rightarrow> unit server_prog" where
  "handle_join_responses targets =
     bnd (foreach (\<lambda>_. targets) join_response_body) (\<lambda>_. ret ())"

text \<open>
  \<open>strcpy\<close> into the next entry of \<open>ips[MAX_NEIGHBOURS][INET6_ADDRSTRLEN + 1]\<close> and of
  \<open>ports[MAX_NEIGHBOURS][6]\<close>; \<open>index\<close> is the number of entries filled.
\<close>

definition copy_name :: "machine list \<Rightarrow> cstr \<Rightarrow> cstr \<Rightarrow> machine list server_prog" where
  "copy_name names ip port =
     (if length names < MAX_NEIGHBOURS \<and> length ip \<le> INET6_ADDRSTRLEN \<and> length port \<le> 5
      then ret (names @ [(ip, port)]) else halt (UB OutOfBounds))"

definition is_self :: "cstr \<Rightarrow> bool server_prog" where
  "is_self ip = bnd (gets self_ip) (\<lambda>p.
     if p = NullPtr then ret False else bnd (deref p) (\<lambda>self. ret (ip = self)))"

text \<open>The loop over the neighbours the remote announced.\<close>

primrec join_announced :: "int \<Rightarrow> nat \<Rightarrow> machine list \<Rightarrow> int list_t
    \<Rightarrow> (machine list \<times> int list_t) server_prog" where
  "join_announced socket 0 names awaiting = ret (names, awaiting)"
| "join_announced socket (Suc n) names awaiting =
     bnd (extract_neighbour_from_response socket) (\<lambda>(current_ip, current_port).
     bnd (is_self current_ip) (\<lambda>self.
     if self then join_announced socket n names awaiting
     else bnd (copy_name names current_ip current_port) (\<lambda>names.
          bnd (join current_ip current_port awaiting 0) (\<lambda>awaiting.
          join_announced socket n names awaiting))))"

text \<open>
  When \<open>self_ip\<close> is NULL it is set to the text of our own address, which is then freed.
\<close>

definition deduce_self_ip :: "int \<Rightarrow> unit server_prog" where
  "deduce_self_ip socket =
     bnd (gets self_ip) (\<lambda>p.
     if p = NullPtr then
       bnd (extract_ip_port_from_socket socket 0) (\<lambda>(ip, port).
       bnd (as_string ip) (\<lambda>_. modify (\<lambda>s. s\<lparr>self_ip := FreedPtr\<rparr>)))
     else ret ())"

text \<open>\<open>join_through k\<close> is \<open>join_network_through\<close> with \<open>nb_attempts = k - 1\<close>.\<close>

primrec join_through :: "nat \<Rightarrow> cstr \<Rightarrow> cstr \<Rightarrow> int server_prog" where
  "join_through 0 ip port = ret 0"
| "join_through (Suc k) ip port =
     seq (print (cs ''toto'' @ [10])) (
     bnd (send_neighbours_request ip port) (\<lambda>socket.
     if socket = - 1 then ret (- 1)
     else seq (deduce_self_ip socket) (
       bnd (read_u8 socket) (\<lambda>opcode.
       if opcode \<noteq> SMSG_NEIGHBOURS then seq (sys_close socket) (ret (- 1))
       else
         bnd (read_u8 socket) (\<lambda>nb.
         bnd (join_announced socket (unat nb) [] (list_create (Some compare_ints) add_new_socket))
           (\<lambda>(names, awaiting).
         seq (sys_close socket) (
         bnd (if unat nb < MAX_NEIGHBOURS then
                bnd (copy_name names ip port) (\<lambda>names.
                bnd (join ip port awaiting (if nb = 0 then 1 else 0)) (\<lambda>awaiting.
                ret (names, awaiting)))
              else ret (names, awaiting)) (\<lambda>(names, awaiting).
         seq (handle_join_responses awaiting) (
         bnd (gets nb_neighbours) (\<lambda>ours.
         seq (if unat nb > 0 \<and> ours < int MIN_NEIGHBOURS then
                for_list names (\<lambda>m.
                  seq (print (cs ''Voisins suppl'' @ [195, 169] @ cs ''mentaires sur '' @ fst m @ cs '':'' @ snd m @ [10]))
                      (bnd (join_through k (fst m) (snd m)) (\<lambda>_. ret ())))
              else ret ())
         (bnd (local_run awaiting list_destroy) (\<lambda>_. ret 0))))))))))))"

definition join_network_through :: "cstr \<Rightarrow> cstr \<Rightarrow> int \<Rightarrow> int server_prog" where
  "join_network_through ip port nb_attempts = join_through (nat (nb_attempts + 1)) ip port"

definition join_network :: "cstr option \<Rightarrow> cstr option \<Rightarrow> int server_prog" where
  "join_network ip port =
     (case ip of
        None \<Rightarrow> (case port of
            None \<Rightarrow> join_network_through CONTACT_POINT CONTACT_PORT JOIN_MAX_ATTEMPTS
          | Some p \<Rightarrow> join_network_through CONTACT_POINT p JOIN_MAX_ATTEMPTS)
      | Some i \<Rightarrow> (case port of
            None \<Rightarrow> join_network_through i CONTACT_PORT JOIN_MAX_ATTEMPTS
          | Some p \<Rightarrow> join_network_through i p JOIN_MAX_ATTEMPTS))"

definition JOIN_CHANCE :: int where "JOIN_CHANCE = 50"
definition JOIN_CHANCE_MOD :: int where "JOIN_CHANCE_MOD = 100"

text \<open>The answer to a request to join: refused when full, never when rescued, else by chance.\<close>

definition join_answer :: "byte \<Rightarrow> byte server_prog" where
  "join_answer rescue =
     bnd (gets nb_neighbours) (\<lambda>nb.
     if nb = int MAX_NEIGHBOURS then ret 0
     else if rescue = 1 then ret 1
     else bnd (sys RandCall) (\<lambda>r. ret (if r mod JOIN_CHANCE_MOD < JOIN_CHANCE then 1 else 0)))"

definition handle_join_request :: "int \<Rightarrow> byte server_prog" where
  "handle_join_request sk =
     seq (bnd (gets self_ip) (\<lambda>p.
          if p = NullPtr then
            bnd (extract_ip_from_socket sk 0) (\<lambda>ip.
            bnd (as_string ip) (\<lambda>x. modify (\<lambda>s. s\<lparr>self_ip := Live x\<rparr>)))
          else ret ()))
     (bnd (read_u8 sk) (\<lambda>rescue.
      bnd (read_lstr sk) (\<lambda>port.
      bnd (join_answer rescue) (\<lambda>answer.
      seq (answer_join_request sk answer)
     (seq (if answer = 1 then add_neighbour sk port else ret ())
          (ret answer))))))"

text \<open>
  The search for a neighbour to join the network through again: the slots in order, until
  one whose name is not empty.
\<close>

primrec rejoin_loop :: "nat list \<Rightarrow> unit server_prog" where
  "rejoin_loop [] = ret ()"
| "rejoin_loop (i # is) =
     bnd (gets (\<lambda>s. sc_sock (neighbours s ! i))) (\<lambda>sk.
     if sk \<noteq> - 1 then
       bnd (extract_ip_port_from_socket sk 1) (\<lambda>(i, p).
       bnd (as_string i) (\<lambda>contact_ip.
       bnd (as_string p) (\<lambda>contact_port.
       if contact_ip = [] \<or> contact_port = [] then rejoin_loop is
       else bnd (join_network_through contact_ip contact_port JOIN_MAX_ATTEMPTS) (\<lambda>_. ret ()))))
     else rejoin_loop is)"

text \<open>\<open>departed\<close> is a pointer into the array of neighbours: its index.\<close>

definition handle_leave :: "nat \<Rightarrow> int server_prog" where
  "handle_leave departed =
     bnd (gets (\<lambda>s. sc_sock (neighbours s ! departed))) (\<lambda>sk.
     seq (sys_close sk)
    (seq (modify (\<lambda>s. s\<lparr>neighbours := (neighbours s)[departed := \<lparr>sc_sock = - 1, sc_port = None\<rparr>],
                         nb_neighbours := nb_neighbours s - 1\<rparr>))
    (bnd (gets nb_neighbours) (\<lambda>nb.
     seq (if nb < int MIN_NEIGHBOURS then rejoin_loop [0..<MAX_NEIGHBOURS] else ret ())
    (bnd (gets nb_neighbours) (\<lambda>nb. ret (if nb = 0 then 1 else 0)))))))"

section \<open>The invariant of the neighbours\<close>

text \<open>
  Sockets that are added as neighbours are never \<open>-1\<close>. The list of \<open>join\<close>: its cells hold descriptors, and it copies what it is given.\<close>

definition good_socks :: "int list_t \<Rightarrow> bool" where
  "good_socks l \<longleftrightarrow> (\<forall>p c. cells l p = Some c \<longrightarrow> dat c \<noteq> - 1) \<and> (\<forall>x. create l x = x)"

lemma good_socks_create: "good_socks (list_create (Some compare_ints) add_new_socket)"
  by (simp add: good_socks_def list_create_def add_new_socket_def)

lemma find_last_same: "snd (find_last n prev cur l) = l"
  by (induction n arbitrary: prev cur)
    (auto simp: bnd_run load_def split: prod.splits sum.splits option.splits)

lemma good_socks_store:
  "good_socks l \<Longrightarrow> good_socks (snd (store_nxt p q l))"
  by (auto simp: store_nxt_def bnd_run load_def good_socks_def split: option.splits)

lemma good_socks_push:
  assumes "good_socks l" and "x \<noteq> - 1"
  shows "good_socks (snd (list_push_back x l))"
proof -
  have m: "good_socks (snd (malloc_cell x l))" "fst (malloc_cell x l) = Inr (brk l)"
    using assms by (auto simp: malloc_cell_def good_socks_def)
  obtain r where f: "find_last (brk l) 0 (head l) l = (r, l)"
    using find_last_same [of "brk l" 0 "head l" l] by (metis prod.collapse)
  have "good_socks (snd (list_push_back_no_create x l))"
  proof (cases r)
    case (Inl e)
    then show ?thesis using f assms by (simp add: list_push_back_no_create_def bnd_run)
  next
    case (Inr prev)
    show ?thesis
    proof (cases "prev = 0")
      case True
      then show ?thesis using f Inr assms
        by (simp add: list_push_back_no_create_def bnd_run malloc_cell_def good_socks_def)
    next
      case False
      have "list_push_back_no_create x l = store_nxt prev (brk l) (snd (malloc_cell x l))"
        using f Inr False by (simp add: list_push_back_no_create_def bnd_run malloc_cell_def)
      then show ?thesis using good_socks_store [OF m(1)] by simp
    qed
  qed
  then show ?thesis using assms by (simp add: list_push_back_def bnd_run good_socks_def)
qed

lemma local_push_gives:
  assumes "good_socks l" and "x \<noteq> - 1"
  shows "gives P good_socks (local_run l (list_push_back x))"
  using good_socks_push [OF assms]
  by (intro givesI keep_rules) (auto simp: local_run_def split: prod.splits sum.splits)

lemma keeps_foreach_stored:
  assumes "\<And>p c. cells l p = Some c \<Longrightarrow> keeps P (body p (dat c))"
  shows "keeps P (foreach (\<lambda>_. l) body)"
proof -
  have ld: "gives P (\<lambda>c. cells l p = Some c) (zoom (\<lambda>_. l) (\<lambda>_ s. s) (load p))" for p
    by (intro givesI keeps_zoom) (auto simp: zoom_def load_def split: if_splits option.splits)
  have "keeps P (foreach_loop (\<lambda>_. l) body n p)" for n p
  proof (induction n arbitrary: p)
    case 0
    show ?case unfolding foreach_loop.simps by (intro keep_rules)
  next
    case (Suc n)
    show ?case unfolding foreach_loop.simps
      by (intro keeps_if keeps_ret keeps_bnd_gives [OF ld] keeps_bnd keeps_case_option assms Suc.IH)
        (auto intro: keeps_bnd_gives [OF ld] Suc.IH)
  qed
  then show ?thesis unfolding foreach_def by (intro keep_rules)
qed

lemma same_name_keeps [keep_rules]: "keeps P (same_name ip port n)"
  unfolding same_name_def by (intro keep_rules)

lemma ensure_absent_loop_keeps [keep_rules]: "keeps P (ensure_absent_loop ip port ns)"
proof (induction ns)
  case Nil
  show ?case unfolding ensure_absent_loop.simps by (rule keeps_ret)
next
  case (Cons n ns)
  show ?case unfolding ensure_absent_loop.simps by (intro keep_rules Cons.IH)
qed

lemma ensure_absent_keeps [keep_rules]: "keeps P (ensure_absent_ip ip port)"
  unfolding ensure_absent_ip_def by (intro keep_rules)

lemma is_self_keeps [keep_rules]: "keeps P (is_self ip)"
  unfolding is_self_def by (intro keep_rules)

lemma copy_name_keeps [keep_rules]: "keeps P (copy_name ns ip port)"
  unfolding copy_name_def by (intro keep_rules)

text \<open>The servent learns its address where it does not know it, and looks at nothing but the socket for it.\<close>

lemma keeps_learning:
  assumes "\<And>Q. keeps Q m" and "\<And>Q a. keeps Q (g a)"
    and "\<And>b s. P s \<Longrightarrow> self_ip s = NullPtr \<Longrightarrow> P (h b s)"
  shows "keeps P (bnd (gets self_ip) (\<lambda>p.
    if p = NullPtr then bnd m (\<lambda>a. bnd (g a) (\<lambda>b. modify (h b))) else ret ()))"
proof (rule keepsI)
  fix s assume s: "P s"
  have still: "snd (m s) = s" "snd (g a s) = s" for a
    using assms(1,2) [of "\<lambda>u. u = s"] by (simp_all add: keeps_def)
  show "P (snd (bnd (gets self_ip) (\<lambda>p.
      if p = NullPtr then bnd m (\<lambda>a. bnd (g a) (\<lambda>b. modify (h b))) else ret ()) s))"
    using s assms(3) still by (auto simp: bnd_run split: prod.splits sum.splits) (metis snd_conv)+
qed

text \<open>
  The contract of an invariant of the servent with the operations on neighbours: it survives when
  the servent learns its address, and adding a descriptor as a neighbour keeps it.
\<close>

locale join_frame = server_frame +
  assumes learns_self: "self_ip s = NullPtr \<Longrightarrow> x \<noteq> NullPtr \<Longrightarrow> P s \<Longrightarrow> P (s\<lparr>self_ip := x\<rparr>)"
    and keeps_add: "sk \<noteq> - 1 \<Longrightarrow> keeps P (add_neighbour sk port)"
    and frame_release: "P s \<Longrightarrow> i < MAX_NEIGHBOURS \<Longrightarrow> sc_sock (neighbours s ! i) \<noteq> - 1 \<Longrightarrow>
      P (s\<lparr>neighbours := (neighbours s)[i := \<lparr>sc_sock = - 1, sc_port = None\<rparr>],
           nb_neighbours := nb_neighbours s - 1\<rparr>)"
begin

lemma join_gives:
  assumes "good_socks l"
  shows "gives P good_socks (join ip port l force)"
  unfolding join_def
  by (intro gives_bnd_keeps gives_if gives_ret local_push_gives assms
      keep_rules keeps_send_join_request)

lemma keeps_join_response_body: "sk \<noteq> - 1 \<Longrightarrow> keeps P (join_response_body p sk)"
  unfolding join_response_body_def handle_join_response_def
  by (intro keep_rules keeps_read_u8 keeps_read_lstr keeps_add os_keeps)

lemma keeps_handle_join_responses: "good_socks l \<Longrightarrow> keeps P (handle_join_responses l)"
  unfolding handle_join_responses_def
  by (intro keep_rules keeps_foreach_stored keeps_join_response_body) (auto simp: good_socks_def)

lemma keeps_deduce_self_ip: "keeps P (deduce_self_ip sk)"
  unfolding deduce_self_ip_def case_prod_beta
  by (rule keeps_learning) (intro keep_rules | simp add: learns_self)+

lemma join_announced_gives:
  "good_socks l \<Longrightarrow> gives P (\<lambda>r. good_socks (snd r)) (join_announced sk n names l)"
proof (induction n arbitrary: names l)
  case 0
  then show ?case unfolding join_announced.simps by (intro gives_ret) simp
next
  case (Suc n)
  have loop: "gives P (\<lambda>r. good_socks (snd r)) (bnd (join i p l 0) (join_announced sk n ns))" for i p ns
    by (rule gives_bnd [OF join_gives [OF Suc.prems] Suc.IH])
  show ?case unfolding join_announced.simps
    by (rule gives_bnd_keeps [OF keeps_extract_neighbour])
      (auto intro!: gives_bnd_keeps gives_if loop Suc.IH Suc.prems keep_rules)
qed

lemma contact_gives:
  assumes "good_socks l"
  shows "gives P (\<lambda>r. good_socks (snd r))
    (if b then bnd (copy_name names ip port) (\<lambda>names.
       bnd (join ip port l f) (\<lambda>awaiting. ret (names, awaiting)))
     else ret (names, l))"
  by (intro gives_if gives_bnd_keeps [OF copy_name_keeps] gives_bnd [OF join_gives [OF assms]] gives_ret)
    (simp_all add: assms)

lemma keeps_join_through: "keeps P (join_through k ip port)"
proof (induction k arbitrary: ip port)
  case 0
  show ?case unfolding join_through.simps by (rule keeps_ret)
next
  case (Suc k)
  show ?case unfolding join_through.simps
    by (rule keeps_bnd_pair [OF join_announced_gives [OF good_socks_create]]
          keeps_bnd_pair [OF contact_gives] keeps_handle_join_responses Suc.IH keep_rules
          keeps_send_neighbours_request keeps_deduce_self_ip keeps_read_u8 os_keeps
        | simp only: snd_conv)+
qed

lemma keeps_join_network_through: "keeps P (join_network_through ip port n)"
  unfolding join_network_through_def by (rule keeps_join_through)

lemma keeps_join_network: "keeps P (join_network ip port)"
  unfolding join_network_def by (intro keep_rules keeps_join_network_through)

lemma keeps_handle_join_request: "sk \<noteq> - 1 \<Longrightarrow> keeps P (handle_join_request sk)"
  unfolding handle_join_request_def join_answer_def
  by (intro keeps_seq [OF keeps_learning])
    (intro keep_rules os_keeps keeps_read_u8 keeps_read_lstr keeps_answer_join_request keeps_add | simp add: learns_self)+

lemma keeps_rejoin_loop: "keeps P (rejoin_loop is)"
proof (induction "is")
  case Nil
  show ?case unfolding rejoin_loop.simps by (rule keeps_ret)
next
  case (Cons i "is")
  show ?case unfolding rejoin_loop.simps
    by (intro keep_rules keeps_join_network_through Cons.IH)
qed

text \<open>A neighbour that leaves frees its slot, whatever the search for another one does.\<close>

lemma handle_leave_inv:
  assumes "P s" and "i < MAX_NEIGHBOURS" and "sc_sock (neighbours s ! i) \<noteq> - 1"
  shows "P (snd (handle_leave i s))"
proof -
  let ?rest = "bnd (gets nb_neighbours) (\<lambda>nb.
     seq (if nb < int MIN_NEIGHBOURS then rejoin_loop [0..<MAX_NEIGHBOURS] else ret ())
    (bnd (gets nb_neighbours) (\<lambda>nb. ret (if nb = 0 then 1 else 0 :: int))))"
  let ?s = "s\<lparr>evs := evs s @ [Closed (sc_sock (neighbours s ! i))]\<rparr>"
  have "keeps P ?rest"
    by (intro keep_rules keeps_rejoin_loop)
  moreover have "P (?s\<lparr>neighbours := (neighbours ?s)[i := \<lparr>sc_sock = - 1, sc_port = None\<rparr>],
      nb_neighbours := nb_neighbours ?s - 1\<rparr>)"
    using assms by (intro frame_release) (simp_all add: frame_evs)
  ultimately show ?thesis
    by (simp add: handle_leave_def bnd_run seq_run sys_close_run keeps_def split: prod.splits sum.splits)
qed

end

lemma release_neighbour:
  assumes "neighbours_ok s" and "i < MAX_NEIGHBOURS" and "sc_sock (neighbours s ! i) \<noteq> - 1"
  shows "neighbours_ok (s\<lparr>neighbours := (neighbours s)[i := \<lparr>sc_sock = - 1, sc_port = None\<rparr>],
    nb_neighbours := nb_neighbours s - 1\<rparr>)"
proof -
  let ?n = "\<lparr>sc_sock = - 1, sc_port = None\<rparr>"
  have "Suc (used ((neighbours s)[i := ?n])) = used (neighbours s)"
    using assms by (intro used_release) (auto simp: neighbours_ok_def)
  moreover have "set ((neighbours s)[i := ?n]) \<subseteq> insert ?n (set (neighbours s))"
    by (rule set_update_subset_insert)
  ultimately show ?thesis
    using assms(1) by (intro neighbours_okI) (auto simp: neighbours_ok_def)
qed

interpretation nbj: join_frame "neighbours_ok :: server_t \<Rightarrow> bool"
  by unfold_locales (simp add: neighbours_ok_def, erule add_neighbour_keeps, erule (2) release_neighbour)

section \<open>Properties\<close>

text \<open>The next result of \<open>rand\<close>, and the decision it leads to.\<close>

definition next_rand :: "server_t \<Rightarrow> int" where
  "next_rand s = (case script s RandCall of [] \<Rightarrow> 0 | r # _ \<Rightarrow> r)"

definition accepts :: "server_t \<Rightarrow> byte \<Rightarrow> bool" where
  "accepts s rescue \<longleftrightarrow> nb_neighbours s \<noteq> int MAX_NEIGHBOURS \<and> (rescue = 1 \<or> next_rand s mod 100 < 50)"

lemma join_answer_run:
  "\<exists>c. join_answer rescue s = (Inr (if accepts s rescue then 1 else 0), s\<lparr>script := c\<rparr>)"
proof (cases "script s RandCall")
  case Nil
  then show ?thesis
    by (intro exI [of _ "script s"]) (simp add: join_answer_def bnd_run accepts_def next_rand_def
        sys_script JOIN_CHANCE_def JOIN_CHANCE_MOD_def)
next
  case (Cons r rs)
  show ?thesis
  proof (cases "nb_neighbours s = int MAX_NEIGHBOURS \<or> rescue = 1")
    case True
    then show ?thesis
      by (intro exI [of _ "script s"]) (auto simp: join_answer_def bnd_run accepts_def)
  next
    case False
    then show ?thesis using Cons
      by (intro exI [of _ "(script s)(RandCall := rs)"]) (simp add: join_answer_def bnd_run accepts_def
          next_rand_def sys_script JOIN_CHANCE_def JOIN_CHANCE_MOD_def)
  qed
qed

definition has_address :: "server_t \<Rightarrow> int \<Rightarrow> bool" where
  "has_address s sk \<longleftrightarrow> peername s sk \<noteq> OtherFamily"

lemma add_neighbour_run:
  assumes "neighbours_ok s" and "nb_neighbours s \<noteq> int MAX_NEIGHBOURS" and "has_address s sk"
  obtains i where "i < MAX_NEIGHBOURS" and "sc_sock (neighbours s ! i) = - 1"
    and "add_neighbour sk port s = (Inr (), s\<lparr>neighbours := (neighbours s)[i := \<lparr>sc_sock = sk, sc_port = Some port\<rparr>],
      nb_neighbours := nb_neighbours s + 1\<rparr>)"
proof -
  have "used (neighbours s) \<noteq> length (neighbours s)"
    using assms(1,2) by (auto simp: neighbours_ok_def)
  then obtain i where i: "free_slot (neighbours s) 0 = Some i"
    using free_slot_None [of "neighbours s" 0] by (cases "free_slot (neighbours s) 0") auto
  then have "i < MAX_NEIGHBOURS" "sc_sock (neighbours s ! i) = - 1"
    using free_slot_Some [OF i] assms(1) by (auto simp: neighbours_ok_def)
  moreover have "add_neighbour sk port s = (Inr (), s\<lparr>neighbours := (neighbours s)[i := \<lparr>sc_sock = sk, sc_port = Some port\<rparr>],
      nb_neighbours := nb_neighbours s + 1\<rparr>)"
    using assms i by (simp add: add_neighbour_def bnd_run extract_ip_run has_address_def sock_name_def
        split: sockaddr.splits)
  ultimately show ?thesis by (rule that)
qed

text \<open>
  A request to join is refused by a full servent, accepted when it is a rescue, and decided
  by chance otherwise; the answer sent says so, with the port of the servent when it accepts;
  and the sender becomes a neighbour, in a free slot, exactly when it is accepted.
\<close>

lemma join_request_known:
  assumes "neighbours_ok s" and "self_ip s \<noteq> NullPtr" and "has_address s sk"
    and "avail sk s = tl (encode (PJoin rescue port)) @ rest" and "wf_lstr port"
    and "wx s sk = []" and "listening_port s = Some lp"
  shows "\<exists>t. handle_join_request sk s = (Inr (if accepts s rescue then 1 else 0), t) \<and>
    evs t = evs s @ [Wrote sk (encode (if accepts s rescue then PJoinAccepted lp else PJoinRefused 0))] \<and>
    avail sk t = rest \<and>
    (if accepts s rescue then nb_neighbours t = nb_neighbours s + 1 \<and>
       (\<exists>i < MAX_NEIGHBOURS. sc_sock (neighbours s ! i) = - 1 \<and>
          neighbours t = (neighbours s)[i := \<lparr>sc_sock = sk, sc_port = Some port\<rparr>])
     else nb_neighbours t = nb_neighbours s \<and> neighbours t = neighbours s)"
proof -
  let ?s1 = "skip_rx sk 1 s"
  let ?s2 = "skip_rx sk (Suc (length port)) ?s1"
  have f: "neighbours (skip_rx k n u) = neighbours u" "nb_neighbours (skip_rx k n u) = nb_neighbours u"
    "listening_socket (skip_rx k n u) = listening_socket u" "neighbours_ok (skip_rx k n u) = neighbours_ok u"
    for k n and u :: server_t by (simp_all add: skip_rx_def neighbours_ok_def)
  have a: "avail sk s = rescue # enc_lstr port @ rest" using assms(4) by simp
  have 1: "read_u8 sk s = (Inr rescue, ?s1)" by (rule read_u8_avail [OF a])
  have 2: "read_lstr sk ?s1 = (Inr port, ?s2)"
    using a assms(5) by (intro read_lstr_avail [where rest = rest]) simp_all
  have a2: "avail sk ?s2 = rest" using a by simp
  have acc: "accepts ?s2 rescue = accepts s rescue"
    by (simp add: accepts_def next_rand_def f)
  obtain c where 3: "join_answer rescue ?s2 = (Inr (if accepts s rescue then 1 else 0), ?s2\<lparr>script := c\<rparr>)"
    using join_answer_run [of rescue ?s2] unfolding acc by blast
  let ?s3 = "?s2\<lparr>script := c\<rparr>"
  have lp: "listening_port ?s3 = Some lp" using assms(7) by (simp add: listening_port_def f)
  have w: "wx ?s3 sk = []" using assms(6) by simp
  show ?thesis
  proof (cases "accepts s rescue")
    case False
    have "answer_join_request sk 0 ?s3 = (Inr (), after_send sk (encode (PJoinRefused 0)) ?s3)"
      using w by (intro answer_join_refuse) simp_all
    then show ?thesis
      using 1 2 3 False assms(2) a2
      by (simp add: handle_join_request_def bnd_run seq_run after_send_def f del: skip_rx_skip_rx encode.simps)
  next
    case True
    let ?s4 = "after_send sk (encode (PJoinAccepted lp)) ?s3"
    have s4: "answer_join_request sk 1 ?s3 = (Inr (), ?s4)"
      using lp w by (rule answer_join_accept)
    have "neighbours_ok ?s4" "nb_neighbours ?s4 \<noteq> int MAX_NEIGHBOURS" "has_address ?s4 sk"
      using assms(1,3) True by (simp_all add: after_send_def f accepts_def has_address_def
          nb.frame_evs nb.frame_script)
    then obtain i where i: "i < MAX_NEIGHBOURS" "sc_sock (neighbours ?s4 ! i) = - 1"
      "add_neighbour sk port ?s4 = (Inr (), ?s4\<lparr>neighbours := (neighbours ?s4)[i := \<lparr>sc_sock = sk, sc_port = Some port\<rparr>],
        nb_neighbours := nb_neighbours ?s4 + 1\<rparr>)"
      by (elim add_neighbour_run)
    have n4: "neighbours ?s4 = neighbours s" "nb_neighbours ?s4 = nb_neighbours s"
      by (simp_all add: after_send_def f)
    show ?thesis
      using 1 2 3 s4 i True assms(2) a2 unfolding n4
      by (simp add: handle_join_request_def bnd_run seq_run del: skip_rx_skip_rx encode.simps)
        (auto simp: after_send_def)
  qed
qed

text \<open>A servent that does not know its address learns it first.\<close>

definition own_end_known :: "server_t \<Rightarrow> int \<Rightarrow> bool" where
  "own_end_known s sk \<longleftrightarrow> self_ip s \<noteq> NullPtr \<or> sockname s sk \<noteq> OtherFamily"

lemma join_request_handled:
  assumes "neighbours_ok s" and "own_end_known s sk" and "has_address s sk"
    and "avail sk s = tl (encode (PJoin rescue port)) @ rest" and "wf_lstr port"
    and "wx s sk = []" and "listening_port s = Some lp"
  shows "\<exists>t. handle_join_request sk s = (Inr (if accepts s rescue then 1 else 0), t) \<and>
    evs t = evs s @ [Wrote sk (encode (if accepts s rescue then PJoinAccepted lp else PJoinRefused 0))] \<and>
    avail sk t = rest \<and>
    (if accepts s rescue then nb_neighbours t = nb_neighbours s + 1 \<and>
       (\<exists>i < MAX_NEIGHBOURS. sc_sock (neighbours s ! i) = - 1 \<and>
          neighbours t = (neighbours s)[i := \<lparr>sc_sock = sk, sc_port = Some port\<rparr>])
     else nb_neighbours t = nb_neighbours s \<and> neighbours t = neighbours s)"
proof (cases "self_ip s = NullPtr")
  case False
  then show ?thesis using join_request_known [OF assms(1) _ assms(3-7)] by blast
next
  case True
  then obtain x where x: "extract_ip_from_socket sk 0 s = (Inr (Some x), s)"
    using assms(2) by (cases "sockname s sk") (auto simp: own_end_known_def extract_ip_run sock_name_def)
  let ?s = "s\<lparr>self_ip := Live x\<rparr>"
  have eq: "handle_join_request sk s = handle_join_request sk ?s"
    using True x by (simp add: handle_join_request_def bnd_run [of "gets f" for f] seq_run [of "bnd (gets f) g" for f g]
        bnd_run [of "extract_ip_from_socket a b" for a b] bnd_run [of "ret c" for c] as_string_def)
  have f: "neighbours_ok ?s = neighbours_ok s" "has_address ?s sk = has_address s sk" "avail sk ?s = avail sk s"
    "wx ?s sk = wx s sk" "listening_port ?s = listening_port s" "accepts ?s rescue = accepts s rescue"
    "neighbours ?s = neighbours s" "nb_neighbours ?s = nb_neighbours s" "evs ?s = evs s"
    by (simp_all add: neighbours_ok_def has_address_def listening_port_def accepts_def next_rand_def)
  show ?thesis
    unfolding eq by (rule join_request_known [of ?s sk rescue port rest lp, unfolded f, OF assms(1) _ assms(3-7)]) simp
qed


definition joining_servent :: server_t where
  "joining_servent = sample_servent\<lparr>rx := (\<lambda>_. [])(9 := [Chunk [1, 4], Chunk (cs ''4000'')])\<rparr>"

lemma join_request_handled_witness:
  "\<exists>t. handle_join_request 9 joining_servent = (Inr 1, t) \<and>
     evs t = [Wrote 9 (encode (PJoinAccepted (cs ''2000'')))] \<and> nb_neighbours t = 3"
proof -
  let ?s = joining_servent
  have "neighbours_ok ?s" using sample_ok by (simp add: joining_servent_def nb.frame_rx)
  moreover have "self_ip ?s = Live (cs ''10.0.0.1'')" "has_address ?s 9" "wx ?s 9 = []" "wf_lstr (cs ''4000'')"
    "avail 9 ?s = tl (encode (PJoin 1 (cs ''4000''))) @ []" "accepts ?s 1" "evs ?s = []" "nb_neighbours ?s = 2"
    by (simp_all add: joining_servent_def sample_servent_def has_address_def wf_lstr_def cs_def
        enc_lstr_def u8_def accepts_def MAX_NEIGHBOURS_def)
  moreover have "listening_port ?s = Some (cs ''2000'')"
    by (simp add: joining_servent_def sample_servent_def listening_port_def cs_def dec.simps digit_char_def)
  ultimately show ?thesis
    using join_request_handled [of ?s 9 1 "cs ''4000''" "[]" "cs ''2000''"]
    by (auto simp: own_end_known_def)
qed

text \<open>
  The first neighbour an announcement names is compared with the address of this servent.
\<close>

lemma join_announced_freed:
  assumes "avail sk s = enc_machines (m # ms) @ rest" and "wf_machine m" and "self_ip s = FreedPtr"
  shows "fst (join_announced sk (Suc n) names l s) = Inl (UB UseAfterFree)"
proof -
  obtain i p where m: "m = (i, p)" by (cases m)
  let ?s1 = "skip_rx sk (Suc (length i)) s"
  have a: "avail sk s = enc_lstr i @ enc_lstr p @ enc_machines ms @ rest" "wf_lstr i" "wf_lstr p"
    using assms(1,2) m by (auto simp: enc_machine_def wf_machine_def)
  have 1: "read_lstr sk s = (Inr i, ?s1)"
    using a by (intro read_lstr_avail [where rest = "enc_lstr p @ enc_machines ms @ rest"]) simp_all
  have 2: "read_lstr sk ?s1 = (Inr p, skip_rx sk (Suc (length p)) ?s1)"
    using a by (intro read_lstr_avail [where rest = "enc_machines ms @ rest"]) simp_all
  have "self_ip (skip_rx sk (Suc (length p)) ?s1) = FreedPtr"
    using assms(3) by (simp add: skip_rx_def)
  then show ?thesis
    using 1 2 by (simp add: bnd_run extract_neighbour_from_response_def is_self_def deref_def
        del: skip_rx_skip_rx)
qed

text \<open>After the first line \<open>join_network_through\<close> prints.\<close>

definition greeted :: "server_t \<Rightarrow> server_t" where
  "greeted s = s\<lparr>evs := evs s @ [Printed (cs ''toto'' @ [10])]\<rparr>"

text \<open>
  C24. A servent that joins the network through a contact with a neighbour uses its own address
  after it has freed it: it deduces the address, frees the string it has just stored, and
  compares the first neighbour it is told of with it.
\<close>

theorem join_uses_freed_address:
  assumes "0 \<le> nb_attempts" and "self_ip s = NullPtr"
    and "connect_to ip port (greeted s) = (Inr (CONNECT_OK, Some sk), t)"
    and "wx s sk = []" and "sockname s sk = Inet own p"
    and "avail sk s = encode (PNeighboursList (m # ms)) @ rest" and "wf_machines (m # ms)"
  shows "fst (join_network_through ip port nb_attempts s) = Inl (UB UseAfterFree)"
proof -
  obtain c e where "t = (greeted s)\<lparr>script := c, evs := e\<rparr>" using connect_to_same [OF assms(3)] .
  then have t: "t = s\<lparr>script := c, evs := e\<rparr>" by (simp add: greeted_def)
  let ?u = "t\<lparr>evs := evs t @ [Wrote sk [CMSG_NEIGHBOURS]], self_ip := FreedPtr\<rparr>"
  let ?u1 = "skip_rx sk 1 ?u"
  let ?u2 = "skip_rx sk 1 ?u1"
  have sk: "sk \<noteq> - 1" using connect_to_result [OF assms(3)] by (simp add: connect_result_ok_def)
  have w: "length (m # ms) < 256" "wf_machine m" using assms(7) by (auto simp: wf_machines_def)
  have g: "print (cs ''toto'' @ [10]) s = (Inr (), greeted s)" by (simp add: print_run greeted_def)
  have req: "send_neighbours_request ip port (greeted s) = (Inr sk, t\<lparr>evs := evs t @ [Wrote sk [CMSG_NEIGHBOURS]]\<rparr>)"
    using assms(3,4) t by (simp add: send_neighbours_request_def bnd_run write_to_fd_free)
  have ded: "deduce_self_ip sk (t\<lparr>evs := evs t @ [Wrote sk [CMSG_NEIGHBOURS]]\<rparr>) = (Inr (), ?u)"
    using assms(2,5) t by (simp add: deduce_self_ip_def bnd_run extract_ip_port_run sock_name_def)
  have a: "avail sk ?u = SMSG_NEIGHBOURS # u8 (length (m # ms)) # enc_machines (m # ms) @ rest"
    using assms(6) t by (simp add: enc_counted_def)
  have 1: "read_u8 sk ?u = (Inr SMSG_NEIGHBOURS, ?u1)" by (rule read_u8_avail [OF a])
  have a1: "avail sk ?u1 = u8 (length (m # ms)) # enc_machines (m # ms) @ rest" using a by simp
  have 2: "read_u8 sk ?u1 = (Inr (u8 (length (m # ms))), ?u2)" by (rule read_u8_avail [OF a1])
  have a2: "avail sk ?u2 = enc_machines (m # ms) @ rest" using a1 by (subst avail_skip_rx) simp_all
  have "self_ip ?u2 = FreedPtr" by (simp add: skip_rx_def)
  then have 3: "fst (join_announced sk (Suc (length ms)) [] l ?u2) = Inl (UB UseAfterFree)" for l
    using a2 w(2) by (intro join_announced_freed)
  obtain k where k: "nat (nb_attempts + 1) = Suc k" using assms(1) by (cases "nat (nb_attempts + 1)") auto
  have un: "unat (u8 (length (m # ms))) = Suc (length ms)" using w(1) by simp
  obtain v where v: "join_announced sk (Suc (length ms)) [] (list_create (Some compare_ints) add_new_socket) ?u2
      = (Inl (UB UseAfterFree), v)"
    using 3 by (metis prod.collapse)
  show ?thesis
    unfolding join_network_through_def k join_through.simps
    by (simp only: bnd_run seq_run g req ded 1 2 un v if_False prod.case sum.case sk simp_thms fst_conv)
qed

definition fresh_servent :: server_t where
  "fresh_servent = sample_servent\<lparr>self_ip := NullPtr,
     script := (\<lambda>_. [])(SocketCall := [9], ConnectCall := [0]),
     rx := (\<lambda>_. [])(9 := [Chunk (encode (PNeighboursList [(cs ''10.0.0.4'', cs ''2000'')]))])\<rparr>"

theorem join_uses_freed_address_witness:
  "fst (join_network_through (cs ''10.0.0.3'') (cs ''10000'') JOIN_MAX_ATTEMPTS fresh_servent) = Inl (UB UseAfterFree)"
proof -
  let ?ip = "cs ''10.0.0.3''" and ?port = "cs ''10000''"
  have c: "connect_to ?ip ?port (greeted fresh_servent) =
      (Inr (CONNECT_OK, Some 9), snd (connect_to ?ip ?port (greeted fresh_servent)))"
    by (simp add: connect_to_def connect_fuel_def connect_loop.simps bnd_run sys_def fresh_servent_def
        sample_servent_def greeted_def)
  show ?thesis
    by (rule join_uses_freed_address [OF _ _ c, where own = "cs ''10.0.0.1''" and p = 2000 and
          m = "(cs ''10.0.0.4'', cs ''2000'')" and ms = "[]" and rest = "[]"])
      (simp_all add: fresh_servent_def sample_servent_def JOIN_MAX_ATTEMPTS_def wf_machines_def
        wf_machine_def wf_lstr_def cs_def enc_counted_def enc_machine_def enc_lstr_def)
qed

text \<open>
  A neighbour that leaves is disconnected and its slot freed; as long as the servent keeps
  its minimum of neighbours, or has none left to ask, it does nothing else, and it reports
  whether it has none left.
\<close>

lemma leave_frees_slot:
  assumes "neighbours_ok s" and "i < MAX_NEIGHBOURS" and "sc_sock (neighbours s ! i) \<noteq> - 1"
    and "nb_neighbours s > int MIN_NEIGHBOURS \<or> nb_neighbours s = 1"
  shows "handle_leave i s = (Inr (if nb_neighbours s = 1 then 1 else 0),
    s\<lparr>evs := evs s @ [Closed (sc_sock (neighbours s ! i))],
      neighbours := (neighbours s)[i := \<lparr>sc_sock = - 1, sc_port = None\<rparr>],
      nb_neighbours := nb_neighbours s - 1\<rparr>)"
proof -
  let ?u = "s\<lparr>evs := evs s @ [Closed (sc_sock (neighbours s ! i))],
      neighbours := (neighbours s)[i := \<lparr>sc_sock = - 1, sc_port = None\<rparr>],
      nb_neighbours := nb_neighbours s - 1\<rparr>"
  have none: "rejoin_loop is u = (Inr (), u)"
    if "used (neighbours u) = 0" "list_all (\<lambda>i. i < length (neighbours u)) is" for "is" u
    using that(2)
  proof (induction "is")
    case (Cons j "is")
    then have "neighbours u ! j \<in> set (neighbours u)" by simp
    then have "sc_sock (neighbours u ! j) = - 1"
      using that(1) by (auto simp: used_def filter_empty_conv)
    then show ?case using Cons by (simp add: bnd_run)
  qed simp
  have rel: "Suc (used (neighbours ?u)) = used (neighbours s)"
    using used_release [of i "neighbours s" "\<lparr>sc_sock = - 1, sc_port = None\<rparr>"] assms(1-3)
    by (simp add: neighbours_ok_def)
  have len: "length (neighbours ?u) = MAX_NEIGHBOURS" using assms(1) by (simp add: neighbours_ok_def)
  have nb: "nb_neighbours s = int (used (neighbours s))" using assms(1) by (simp add: neighbours_ok_def)
  have srch: "rejoin_loop [0..<MAX_NEIGHBOURS] ?u = (Inr (), ?u)" if "nb_neighbours s = 1"
    using that rel nb len by (intro none) (auto simp: list_all_iff)
  show ?thesis
  proof (cases "nb_neighbours s = 1")
    case True
    then show ?thesis
      using srch by (simp add: handle_leave_def bnd_run seq_run sys_close_run MIN_NEIGHBOURS_def)
  next
    case False
    then show ?thesis
      using assms(4) by (simp add: handle_leave_def bnd_run seq_run sys_close_run)
  qed
qed

definition lonely_servent :: server_t where
  "lonely_servent = sample_servent\<lparr>nb_neighbours := 1,
     neighbours := [\<lparr>sc_sock = 6, sc_port = Some (cs ''2000'')\<rparr>] @ replicate 4 \<lparr>sc_sock = - 1, sc_port = None\<rparr>\<rparr>"

lemma leave_frees_slot_witness:
  "fst (handle_leave 0 lonely_servent) = Inr 1 \<and> nb_neighbours (snd (handle_leave 0 lonely_servent)) = 0"
proof -
  have ok: "neighbours_ok lonely_servent"
    by (simp add: neighbours_ok_def lonely_servent_def MAX_NEIGHBOURS_def used_def)
  have n: "nb_neighbours lonely_servent = 1" "sc_sock (neighbours lonely_servent ! 0) = 6"
    by (simp_all add: lonely_servent_def)
  show ?thesis
    by (subst (1 2) leave_frees_slot [OF ok]) (simp_all add: n MAX_NEIGHBOURS_def)
qed

text \<open>
  The answer to a request to join is acted on as it was meant: the servent that accepts
  becomes a neighbour in a free slot, with the port it named; the connection to one that
  refuses is closed.
\<close>

lemma join_response_received:
  assumes "neighbours_ok s" and "nb_neighbours s \<noteq> int MAX_NEIGHBOURS" and "has_address s sk"
    and "wf_lstr port" and "avail sk s = encode (if ok then PJoinAccepted port else PJoinRefused 0) @ rest"
  shows "\<exists>i < MAX_NEIGHBOURS. sc_sock (neighbours s ! i) = - 1 \<and> join_response_body p sk s = (Inr None,
    if ok then (skip_rx sk (3 + length port) s)
        \<lparr>neighbours := (neighbours s)[i := \<lparr>sc_sock = sk, sc_port = Some port\<rparr>],
         nb_neighbours := nb_neighbours s + 1\<rparr>
    else (skip_rx sk 2 s)\<lparr>evs := evs s @ [Closed sk]\<rparr>)"
proof -
  let ?s1 = "skip_rx sk 1 s"
  let ?s2 = "skip_rx sk 1 ?s1"
  have f: "neighbours (skip_rx k n u) = neighbours u" "nb_neighbours (skip_rx k n u) = nb_neighbours u"
    "neighbours_ok (skip_rx k n u) = neighbours_ok u" "has_address (skip_rx k n u) sk = has_address u sk"
    for k n and u :: server_t by (simp_all add: skip_rx_def neighbours_ok_def has_address_def)
  have a: "avail sk s = SMSG_JOIN # (if ok then 1 else 0) # (if ok then enc_lstr port else []) @ rest"
    using assms(5) by (cases ok) simp_all
  have a1: "avail sk ?s1 = (if ok then 1 else 0) # (if ok then enc_lstr port else []) @ rest"
    using a by simp
  have a2: "avail sk ?s2 = (if ok then enc_lstr port else []) @ rest"
    using a1 by (subst avail_skip_rx) simp_all
  have two: "?s2 = skip_rx sk 2 s" using a by (subst skip_rx_skip_rx) (simp_all add: numeral_2_eq_2)
  have 1: "handle_join_response sk s = (Inr (if ok then 1 else 0), ?s2)"
    using read_u8_avail [OF a] read_u8_avail [OF a1] by (simp add: handle_join_response_def bnd_run)
  show ?thesis
  proof (cases ok)
    case False
    have "used (neighbours s) \<noteq> length (neighbours s)" using assms(1,2) by (auto simp: neighbours_ok_def)
    then obtain i where "free_slot (neighbours s) 0 = Some i"
      using free_slot_None [of "neighbours s" 0] by (cases "free_slot (neighbours s) 0") auto
    then have "i < MAX_NEIGHBOURS" "sc_sock (neighbours s ! i) = - 1"
      using free_slot_Some [of "neighbours s" 0 i] assms(1) by (auto simp: neighbours_ok_def)
    then show ?thesis
      using 1 False two by (intro exI [of _ i]) (simp add: join_response_body_def bnd_run seq_run sys_close_run)
  next
    case True
    let ?s3 = "skip_rx sk (Suc (length port)) ?s2"
    have 2: "read_lstr sk ?s2 = (Inr port, ?s3)"
      using a2 assms(4) True by (intro read_lstr_avail [where rest = rest]) simp_all
    have s3: "?s3 = skip_rx sk (3 + length port) s"
      using a True unfolding two by (subst skip_rx_skip_rx) (simp_all add: eval_nat_numeral)
    have n: "neighbours_ok ?s3" "nb_neighbours ?s3 \<noteq> int MAX_NEIGHBOURS" "has_address ?s3 sk"
      using assms(1-3) by (simp_all add: f)
    obtain i where i: "i < MAX_NEIGHBOURS" "sc_sock (neighbours ?s3 ! i) = - 1"
      "add_neighbour sk port ?s3 = (Inr (), ?s3\<lparr>neighbours := (neighbours ?s3)[i := \<lparr>sc_sock = sk, sc_port = Some port\<rparr>],
        nb_neighbours := nb_neighbours ?s3 + 1\<rparr>)"
      by (rule add_neighbour_run [OF n])
    have "join_response_body p sk s = (Inr None, ?s3\<lparr>neighbours := (neighbours ?s3)[i := \<lparr>sc_sock = sk, sc_port = Some port\<rparr>],
        nb_neighbours := nb_neighbours ?s3 + 1\<rparr>)"
      using 1 2 i(3) True by (simp add: join_response_body_def bnd_run seq_run del: skip_rx_skip_rx)
    then show ?thesis
      using i(1,2) True unfolding s3 f by (intro exI [of _ i]) simp
  qed
qed

text \<open>A servent that is full when the answer comes reads it and does nothing: the socket is neither kept nor closed.\<close>

lemma join_response_full:
  assumes "nb_neighbours s = int MAX_NEIGHBOURS" and "wf_lstr port"
    and "avail sk s = encode (if ok then PJoinAccepted port else PJoinRefused 0) @ rest"
  shows "join_response_body p sk s = (Inr None,
    if ok then skip_rx sk (3 + length port) s else (skip_rx sk 2 s)\<lparr>evs := evs s @ [Closed sk]\<rparr>)"
proof -
  let ?s1 = "skip_rx sk 1 s"
  let ?s2 = "skip_rx sk 1 ?s1"
  have f: "nb_neighbours (skip_rx k n u) = nb_neighbours u" for k n and u :: server_t by (simp add: skip_rx_def)
  have a: "avail sk s = SMSG_JOIN # (if ok then 1 else 0) # (if ok then enc_lstr port else []) @ rest"
    using assms(3) by (cases ok) simp_all
  have a1: "avail sk ?s1 = (if ok then 1 else 0) # (if ok then enc_lstr port else []) @ rest"
    using a by simp
  have a2: "avail sk ?s2 = (if ok then enc_lstr port else []) @ rest"
    using a1 by (subst avail_skip_rx) simp_all
  have two: "?s2 = skip_rx sk 2 s" using a by (subst skip_rx_skip_rx) (simp_all add: numeral_2_eq_2)
  have 1: "handle_join_response sk s = (Inr (if ok then 1 else 0), ?s2)"
    using read_u8_avail [OF a] read_u8_avail [OF a1] by (simp add: handle_join_response_def bnd_run)
  show ?thesis
  proof (cases ok)
    case False
    then show ?thesis using 1 two by (simp add: join_response_body_def bnd_run seq_run sys_close_run)
  next
    case True
    let ?s3 = "skip_rx sk (Suc (length port)) ?s2"
    have 2: "read_lstr sk ?s2 = (Inr port, ?s3)"
      using a2 assms(2) True by (intro read_lstr_avail [where rest = rest]) simp_all
    have s3: "?s3 = skip_rx sk (3 + length port) s"
      using a True unfolding two by (subst skip_rx_skip_rx) (simp_all add: eval_nat_numeral)
    have "add_neighbour sk port ?s3 = (Inr (), ?s3)"
      using assms(1) f by (simp add: add_neighbour_def bnd_run del: skip_rx_skip_rx)
    then have "join_response_body p sk s = (Inr None, ?s3)"
      using 1 2 True by (simp add: join_response_body_def bnd_run seq_run del: skip_rx_skip_rx)
    then show ?thesis using True unfolding s3 by simp
  qed
qed


definition hopeful_servent :: server_t where
  "hopeful_servent = sample_servent\<lparr>rx := (\<lambda>_. [])(9 := [Chunk (encode (PJoinAccepted (cs ''4000'')))])\<rparr>"

lemma join_response_received_witness:
  "nb_neighbours (snd (join_response_body 1 9 hopeful_servent)) = 3"
proof -
  have "neighbours_ok hopeful_servent" using sample_ok by (simp add: hopeful_servent_def nb.frame_rx)
  moreover have "nb_neighbours hopeful_servent = 2" "has_address hopeful_servent 9" "wf_lstr (cs ''4000'')"
    "avail 9 hopeful_servent = encode (if True then PJoinAccepted (cs ''4000'') else PJoinRefused 0) @ []"
    by (simp_all add: hopeful_servent_def sample_servent_def has_address_def wf_lstr_def enc_lstr_def cs_def)
  ultimately show ?thesis
    using join_response_received [of hopeful_servent 9 "cs ''4000''" True "[]" 1]
    by (auto simp: MAX_NEIGHBOURS_def)
qed

end
