(* ===== verification/Server_User.thy ===== *)
theory Server_User
  imports Server_Packets
begin

text \<open>
  \<open>server_user.c\<close>: the requests of the local client, read from its socket and queued.
\<close>

definition handle_local_search_request :: "unit server_prog" where
  "handle_local_search_request =
     bnd (gets client_socket) (\<lambda>fd.
     bnd (read_lstr fd) (\<lambda>name. push_request (REQUEST_SEARCH_LOCAL name)))"

definition handle_local_download_request :: "unit server_prog" where
  "handle_local_download_request =
     bnd (gets client_socket) (\<lambda>fd.
     bnd (read_lstr fd) (\<lambda>ip.
     bnd (read_lstr fd) (\<lambda>port.
     bnd (read_lstr fd) (\<lambda>filename.
     push_request (REQUEST_DOWNLOAD_LOCAL \<lparr>dl_ip = ip, dl_port = port, dl_filename = filename\<rparr>)))))"

context server_frame
begin

lemma keeps_handle_local_search: "keeps P handle_local_search_request"
  unfolding handle_local_search_request_def
  by (intro keep_rules keeps_read_lstr keeps_push_request)

lemma keeps_handle_local_download: "keeps P handle_local_download_request"
  unfolding handle_local_download_request_def
  by (intro keep_rules keeps_read_lstr keeps_push_request)

end

section \<open>What is queued\<close>

lemma handle_local_search_run:
  assumes "avail (client_socket s) s = enc_lstr name @ rest" and "wf_lstr name"
  shows "handle_local_search_request s =
    push_request (REQUEST_SEARCH_LOCAL name) (skip_rx (client_socket s) (Suc (length name)) s)"
  using read_lstr_avail [OF assms] by (simp add: handle_local_search_request_def bnd_run)

lemma handle_local_download_run:
  assumes "avail (client_socket s) s = enc_lstr i @ enc_lstr p @ enc_lstr f @ rest"
    and "wf_lstr i" and "wf_lstr p" and "wf_lstr f"
  shows "handle_local_download_request s =
    push_request (REQUEST_DOWNLOAD_LOCAL \<lparr>dl_ip = i, dl_port = p, dl_filename = f\<rparr>)
      (skip_rx (client_socket s) (length (enc_lstr i @ enc_lstr p @ enc_lstr f)) s)"
proof -
  let ?fd = "client_socket s"
  let ?s1 = "skip_rx ?fd (Suc (length i)) s"
  let ?s2 = "skip_rx ?fd (Suc (length p)) ?s1"
  have 1: "read_lstr ?fd s = (Inr i, ?s1)" using assms by (intro read_lstr_avail) auto
  have 2: "read_lstr ?fd ?s1 = (Inr p, ?s2)" using assms by (intro read_lstr_avail) auto
  have 3: "read_lstr ?fd ?s2 = (Inr f, skip_rx ?fd (Suc (length f)) ?s2)"
    using assms by (intro read_lstr_avail) auto
  show ?thesis
    using 1 2 3 assms by (simp add: handle_local_download_request_def bnd_run ac_simps)
qed

end
