(* ===== verification/Server_Requests.thy ===== *)
theory Server_Requests
  imports Server_Packets
begin

text \<open>
  \<open>server_requests.c\<close>: searches and downloads, between servents and with the local client.
  The search directory holds regular files: the entries of \<open>files\<close> whose path is the
  directory, a slash and a name; \<open>.\<close> and \<open>..\<close> are entries of it too. Paths are compared as
  text.
\<close>

section \<open>The search directory\<close>

definition SLASH :: byte where "SLASH = 47"

definition full_name :: "cstr \<Rightarrow> cstr" where
  "full_name filename = SEARCH_DIRECTORY @ SLASH # filename"

text \<open>What \<open>readdir\<close> yields.\<close>

definition dir_prefix :: cstr where "dir_prefix = SEARCH_DIRECTORY @ [SLASH]"

definition entry_name :: "cstr \<Rightarrow> cstr option" where
  "entry_name path =
     (let name = drop (length dir_prefix) path
      in if take (length dir_prefix) path = dir_prefix \<and> name \<noteq> [] \<and> SLASH \<notin> set name
         then Some name else None)"

definition entries :: "'z os_scheme \<Rightarrow> cstr list" where
  "entries s = cs ''.'' # cs ''..'' # List.map_filter (\<lambda>f. entry_name (fst f)) (files s)"

text \<open>The loop over \<open>readdir\<close>.\<close>

primrec find_entry :: "cstr \<Rightarrow> cstr list \<Rightarrow> int" where
  "find_entry filename [] = 0"
| "find_entry filename (e # es) = (if e = filename then 1 else find_entry filename es)"

text \<open>
  The byte the child writes into the pipe. A directory that cannot be opened is made and opened again;
  \<open>None\<close>: that fails too, and the assertion ends the child before it has written.
\<close>

definition search_file_fork :: "cstr \<Rightarrow> int option server_prog" where
  "search_file_fork filename =
     bnd (sys OpendirCall) (\<lambda>search_dir.
     bnd (if search_dir = - 1 then seq (emit MadeDirectory) (sys OpendirCall) else ret search_dir) (\<lambda>search_dir.
     if search_dir = - 1 then ret None
     else bnd (gets entries) (\<lambda>es. ret (Some (find_entry filename es)))))"

text \<open>
  The value the parent reads from the pipe: without a child the servent exits, without a pipe its
  descriptors are not initialised, and where the child has died the byte is what the stack holds.
\<close>

definition search_file :: "cstr \<Rightarrow> int server_prog" where
  "search_file filename =
     bnd (sys PipeCall) (\<lambda>piped.
     bnd (sys ForkCall) (\<lambda>find_pid.
     if find_pid = - 1 then halt (Exit 1)
     else if piped = - 1 then halt (UB Uninit)
     else bnd (search_file_fork filename) (\<lambda>found. case found of
         Some value \<Rightarrow> ret value
       | None \<Rightarrow> bnd (take_junk 1) (\<lambda>value. ret (sint (value ! 0))))))"

section \<open>Searches\<close>

definition DEFAULT_TTL :: byte where "DEFAULT_TTL = 10"

text \<open>The field \<open>source_sock\<close> is not set: it is what \<open>malloc\<close> left there.\<close>

definition handle_remote_search_request :: "int \<Rightarrow> unit server_prog" where
  "handle_remote_search_request sk =
     bnd (read_lstr sk) (\<lambda>ip_source.
     bnd (read_lstr sk) (\<lambda>port_source.
     bnd (read_lstr sk) (\<lambda>filename.
     bnd (read_u8 sk) (\<lambda>ttl.
     bnd (read_u8 sk) (\<lambda>nb_ips.
     bnd (read_machines sk (unat nb_ips)) (\<lambda>ms.
     bnd junk_int (\<lambda>source_sock.
     push_request (REQUEST_SEARCH_REMOTE
       \<lparr>source_sock = source_sock, ip_source = ip_source, port_source = port_source,
        sr_filename = filename, ttl = ttl, nb_ips = nb_ips,
        sr_ips = map fst ms, sr_ports = map snd ms\<rparr>))))))))"

text \<open>The name of this servent as it writes it into packets: its address and its port.\<close>

definition write_self :: "pbuf \<Rightarrow> pbuf server_prog" where
  "write_self p =
     bnd (gets self_ip) (\<lambda>ptr.
     bnd (deref ptr) (\<lambda>ip.
     bnd (write_lstr p ip) (\<lambda>p.
     bnd own_port (\<lambda>port. write_lstr p port))))"

definition answer_local_search_request :: "cstr \<Rightarrow> unit server_prog" where
  "answer_local_search_request name =
     bnd (search_file name) (\<lambda>has_file.
     let data = PBuf (PKT_ID_SIZE + 1 + INET6_ADDRSTRLEN + 1 + 5 + 1 + 255 + 1 + 1 +
                      1 + INET6_ADDRSTRLEN + 1 + 5) [];
         opcode = (if has_file = 1 then SMSG_INT_SEARCH else CMSG_SEARCH_REQUEST)
     in bnd (write_to_packet data [opcode] PKT_ID_SIZE) (\<lambda>p.
        bnd (if has_file = 0 then write_self p else ret p) (\<lambda>p.
        bnd (write_lstr p name) (\<lambda>p.
        bnd (if has_file = 0 then write_to_packet p [DEFAULT_TTL] 1 else ret p) (\<lambda>p.
        bnd (write_to_packet p [word_of_int has_file] 1) (\<lambda>p.
        if has_file = 0 then broadcast_packet (pbytes p)
        else bnd (write_self p) (\<lambda>p.
             bnd (gets client_socket) (\<lambda>fd.
             bnd (write_to_fd fd (pbytes p)) (\<lambda>_. ret ())))))))))"

text \<open>The log entry is a match when \<open>strcmp\<close> of the ports is not 0.\<close>

definition check_unique_request :: "search_request_t \<Rightarrow> int server_prog" where
  "check_unique_request r =
     bnd (foreach received_search_requests (\<lambda>_ entry.
       if log_filename entry = sr_filename r \<and> source_ip entry = ip_source r \<and>
          source_port entry \<noteq> port_source r
       then ret (Some (0 :: int)) else ret None)) (\<lambda>res.
     ret (case res of Some x \<Rightarrow> x | None \<Rightarrow> 1))"

text \<open>
  \<open>clean_search_request\<close> on a request whose arrays \<open>ips\<close> and \<open>ports\<close> have been freed
  already, or not: it reads the entries of the arrays and frees both.
\<close>

definition clean_search_request :: "bool \<Rightarrow> search_request_t \<Rightarrow> unit server_prog" where
  "clean_search_request arrays_freed r =
     (if arrays_freed then
        (if nb_ips r = 0 then halt (UB DoubleFree) else halt (UB UseAfterFree))
      else ret ())"

text \<open>
  The entries of \<open>ips\<close> and \<open>ports\<close>, as memory areas; \<open>strlen\<close> finds their ends. At the end
  the entries and both arrays are freed.
\<close>

primrec write_areas :: "(byte list \<times> byte list) list \<Rightarrow> pbuf \<Rightarrow> pbuf server_prog" where
  "write_areas [] p = ret p"
| "write_areas (m # ms) p =
     bnd (area_string (fst m)) (\<lambda>ip.
     bnd (area_string (snd m)) (\<lambda>port.
     bnd (write_lstr p ip) (\<lambda>p.
     bnd (write_lstr p port) (\<lambda>p. write_areas ms p))))"

definition send_search_answer_to_client :: "cstr \<Rightarrow> byte \<Rightarrow> (byte list \<times> byte list) list
    \<Rightarrow> unit server_prog" where
  "send_search_answer_to_client filename nb areas =
     bnd (gets client_socket) (\<lambda>target.
     let packet = PBuf (PKT_ID_SIZE + 1 + length filename +
                        unat nb * (1 + INET6_ADDRSTRLEN + 1 + 5)) []
     in bnd (write_to_packet packet [SMSG_INT_SEARCH] PKT_ID_SIZE) (\<lambda>p.
        bnd (write_lstr p filename) (\<lambda>p.
        bnd (write_to_packet p [nb] 1) (\<lambda>p.
        bnd (write_areas areas p) (\<lambda>p.
        bnd (write_to_fd target (pbytes p)) (\<lambda>_. ret ()))))))"

definition terminated :: "machine \<Rightarrow> byte list \<times> byte list" where
  "terminated m = (fst m @ [0], snd m @ [0])"

definition forward_to_local :: "search_request_t \<Rightarrow> unit server_prog" where
  "forward_to_local r =
     seq (send_search_answer_to_client (sr_filename r) (nb_ips r)
            (map terminated (zip (sr_ips r) (sr_ports r))))
         (clean_search_request True r)"

text \<open>
  The sockets of the neighbours but the source: an array \<open>malloc\<close> returns, written at the
  index of the neighbour, and the number of entries written.
\<close>

fun junk_ints :: "nat \<Rightarrow> int list server_prog" where
  "junk_ints 0 = ret []"
| "junk_ints (Suc n) = bnd junk_int (\<lambda>x. bnd (junk_ints n) (\<lambda>xs. ret (x # xs)))"

primrec fill_sockets :: "int \<Rightarrow> nat \<Rightarrow> socket_contact_t list \<Rightarrow> int list \<times> nat
    \<Rightarrow> int list \<times> nat" where
  "fill_sockets src i [] a = a"
| "fill_sockets src i (n # ns) a =
     fill_sockets src (Suc i) ns
       (if sc_sock n \<noteq> - 1 \<and> sc_sock n \<noteq> src then ((fst a)[i := sc_sock n], Suc (snd a)) else a)"

primrec write_machines :: "machine list \<Rightarrow> pbuf \<Rightarrow> pbuf server_prog" where
  "write_machines [] p = ret p"
| "write_machines (m # ms) p =
     bnd (write_lstr p (fst m)) (\<lambda>p. bnd (write_lstr p (snd m)) (\<lambda>p. write_machines ms p))"

definition answer_remote_search_request :: "search_request_t \<Rightarrow> unit server_prog" where
  "answer_remote_search_request r =
     bnd (gets self_ip) (\<lambda>ptr.
     bnd (deref ptr) (\<lambda>self.
     if self = ip_source r then forward_to_local r
     else
     bnd (check_unique_request r) (\<lambda>unique.
     let server_answer = (if unique \<noteq> 0 \<or> ttl r = 0 then 1 else 0 :: int);
         packet = PBuf (PKT_ID_SIZE + 1 + INET6_ADDRSTRLEN + 1 + 5 + 1 + 255 + 1 + 1 +
                        unat (nb_ips r) * (1 + INET6_ADDRSTRLEN + 1 + 5)) [];
         opcode = (if server_answer = 0 then CMSG_SEARCH_REQUEST else SMSG_SEARCH_REQUEST)
     in bnd (write_to_packet packet [opcode] PKT_ID_SIZE) (\<lambda>p.
        bnd (if server_answer = 0 then
               bnd (write_lstr p (ip_source r)) (\<lambda>p. write_lstr p (port_source r))
             else ret p) (\<lambda>p.
        bnd (write_lstr p (sr_filename r)) (\<lambda>p.
        bnd (if server_answer = 0 then
               (if ttl r > 0 then write_to_packet p [ttl r - 1] 1 else halt AssertFail)
             else ret p) (\<lambda>p.
        bnd (if unique = 1 then
               bnd (search_file (sr_filename r)) (\<lambda>found. ret (if found = 1 then 1 else 0))
             else ret (0 :: int)) (\<lambda>has_file.
        bnd (write_to_packet p [nb_ips r + (if has_file = 1 then 1 else 0)] 1) (\<lambda>p.
        bnd (write_machines (zip (sr_ips r) (sr_ports r)) p) (\<lambda>p.
        bnd (if has_file = 1 then write_self p else ret p) (\<lambda>p.
        bnd (junk_ints MAX_NEIGHBOURS) (\<lambda>sockets.
        bnd (gets neighbours) (\<lambda>ns.
        case fill_sockets (source_sock r) 0 ns (sockets, 0) of (sockets, nb_sockets) \<Rightarrow>
        seq (broadcast_packet_to sockets nb_sockets (pbytes p))
            (clean_search_request False r))))))))))))))"

text \<open>The entries of an answer are not terminated.\<close>

primrec read_areas :: "int \<Rightarrow> nat \<Rightarrow> (byte list \<times> byte list) list server_prog" where
  "read_areas sk 0 = ret []"
| "read_areas sk (Suc n) =
     bnd (read_larea sk) (\<lambda>ip.
     bnd (read_larea sk) (\<lambda>port.
     bnd (read_areas sk n) (\<lambda>rest. ret ((ip, port) # rest))))"

definition handle_remote_search_answer :: "int \<Rightarrow> unit server_prog" where
  "handle_remote_search_answer sk =
     bnd (read_lstr sk) (\<lambda>filename.
     bnd (read_u8 sk) (\<lambda>nb_ips.
     bnd (read_areas sk (unat nb_ips)) (\<lambda>areas.
     send_search_answer_to_client filename nb_ips areas)))"

section \<open>Downloads\<close>

definition build_download_answer_header :: "pbuf \<Rightarrow> download_request_t \<Rightarrow> byte \<Rightarrow> pbuf server_prog" where
  "build_download_answer_header p r code =
     bnd (write_to_packet p [SMSG_INT_DOWNLOAD] PKT_ID_SIZE) (\<lambda>p.
     bnd (write_to_packet p [code] 1) (\<lambda>p.
     bnd (write_lstr p (dl_ip r)) (\<lambda>p.
     bnd (write_lstr p (dl_port r)) (\<lambda>p.
     write_lstr p (dl_filename r)))))"

definition clean_download_request :: "download_request_t \<Rightarrow> unit server_prog" where
  "clean_download_request r =
     bnd (const_free (Live (dl_filename r))) (\<lambda>_.
     bnd (const_free (Live (dl_ip r))) (\<lambda>_.
     bnd (const_free (Live (dl_port r))) (\<lambda>_. ret ())))"

text \<open>The strings of a request are its own, so they can be freed.\<close>

lemma clean_download_run [simp]: "clean_download_request r = ret ()"
  by (simp only: clean_download_request_def const_free_def cptr.case bnd_ret)

definition send_download_error_response :: "download_request_t \<Rightarrow> byte \<Rightarrow> unit server_prog" where
  "send_download_error_response r code =
     (let packet = PBuf (PKT_ID_SIZE + 1 + length (dl_filename r) + 1 + length (dl_ip r) +
                         1 + length (dl_port r) + 1) []
      in bnd (build_download_answer_header packet r code) (\<lambda>p.
         bnd (gets client_socket) (\<lambda>fd.
         bnd (write_to_fd fd (pbytes p)) (\<lambda>_. clean_download_request r))))"

definition answer_local_download_request :: "download_request_t \<Rightarrow> unit server_prog" where
  "answer_local_download_request download =
     bnd (search_file (dl_filename download)) (\<lambda>found.
     if found = 1 then send_download_error_response download ANSWER_CODE_LOCAL
     else bnd (connect_to (dl_ip download) (dl_port download)) (\<lambda>(res, sk).
     if res \<noteq> CONNECT_OK then send_download_error_response download ANSWER_CODE_REMOTE_OFFLINE
     else let sk = (case sk of None \<Rightarrow> - 1 | Some k \<Rightarrow> k) in
       seq (push_download sk) (
       let packet = PBuf (PKT_ID_SIZE + 1 + length (dl_filename download)) [] in
       bnd (write_to_packet packet [CMSG_DOWNLOAD] PKT_ID_SIZE) (\<lambda>p.
       bnd (write_lstr p (dl_filename download)) (\<lambda>p.
       bnd (write_to_fd sk (pbytes p)) (\<lambda>_. clean_download_request download))))))"

text \<open>
  The loop that reads the file by 100 bytes into a buffer of \<open>length + 100\<close>; \<open>length\<close> is a
  \<open>uint32_t\<close>. A file of which \<open>length + 100\<close> does not fit overruns the buffer \<open>realloc\<close> returns.
\<close>

function load_file :: "byte list \<Rightarrow> byte list \<Rightarrow> byte list server_prog" where
  "load_file rest buffer =
     (if rest = [] then ret buffer
      else let copy = buffer @ take 100 rest
           in if length copy + 100 \<ge> 2 ^ 32 then halt (UB OutOfBounds)
              else load_file (drop 100 rest) copy)"
  by pat_completeness auto
termination
  by (relation "measure (\<lambda>(rest, buffer). length rest)") auto

declare load_file.simps [simp del]

text \<open>
  A directory can be opened but not read, what could not be opened neither: \<open>read\<close> returns
  -1, which the loop adds to the length before it copies that many bytes.
\<close>

definition read_whole_file :: "cstr \<Rightarrow> byte list server_prog" where
  "read_whole_file path =
     bnd (gets (\<lambda>s. map_of (files s) path)) (\<lambda>content. case content of
       None \<Rightarrow> halt (UB OutOfBounds)
     | Some bs \<Rightarrow> load_file bs [])"

text \<open>\<open>write_to_packet\<close> takes an \<open>int\<close>: a longer length is negative there, huge in \<open>memcpy\<close>.\<close>

definition write_content :: "pbuf \<Rightarrow> byte list \<Rightarrow> pbuf server_prog" where
  "write_content p buffer =
     (if length buffer < 2 ^ 31 then write_to_packet p buffer (length buffer)
      else halt (UB OutOfBounds))"

definition answer_remote_download_request :: "remote_download_request_t \<Rightarrow> unit server_prog" where
  "answer_remote_download_request download =
     (let filename = rdl_filename download; fd = rdl_socket download in
     bnd (search_file filename) (\<lambda>has_file.
     if has_file = 0 then
       bnd (extract_ip_port_from_socket fd 0) (\<lambda>(i, p).
       bnd (as_string i) (\<lambda>ip.
       bnd (as_string p) (\<lambda>port.
       let packet = PBuf (PKT_ID_SIZE + 1 + INET6_ADDRSTRLEN + 1 + 5 + 1 + length filename + 1) []
       in bnd (write_to_packet packet [SMSG_DOWNLOAD] PKT_ID_SIZE) (\<lambda>p.
          bnd (write_to_packet p [ANSWER_CODE_REMOTE_NOT_FOUND] 1) (\<lambda>p.
          bnd (write_to_packet p [u8 (length ip)] 1) (\<lambda>p.
          bnd (write_to_packet p ip (length ip)) (\<lambda>p.
          bnd (write_to_packet p [u8 (length port)] 1) (\<lambda>p.
          bnd (write_to_packet p port (length port)) (\<lambda>p.
          bnd (write_to_packet p [u8 (length filename)] 1) (\<lambda>p.
          bnd (write_to_packet p filename (length filename)) (\<lambda>p.
          bnd (write_to_fd fd (pbytes p)) (\<lambda>_. sys_close fd))))))))))))
     else
       bnd (read_whole_file (full_name filename)) (\<lambda>buffer.
       let packet = PBuf (PKT_ID_SIZE + 1 + 1 + length filename + 4 + length buffer) []
       in bnd (write_to_packet packet [SMSG_DOWNLOAD] PKT_ID_SIZE) (\<lambda>p.
          bnd (write_to_packet p [ANSWER_CODE_REMOTE_FOUND] 1) (\<lambda>p.
          bnd (write_lstr p filename) (\<lambda>p.
          bnd (write_to_packet p (le32 (length buffer)) 4) (\<lambda>p.
          bnd (write_content p buffer) (\<lambda>p.
          bnd (write_to_fd fd (pbytes p)) (\<lambda>_. sys_close fd)))))))))"

text \<open>
  \<open>open(pathname, O_CREAT | O_WRONLY)\<close>, \<open>write\<close>, \<open>close\<close>: without \<open>O_TRUNC\<close> the bytes of an
  older, longer file stay behind the new ones. Where \<open>open\<close> fails nothing is written.
\<close>

definition overwrite :: "byte list \<Rightarrow> byte list \<Rightarrow> byte list" where
  "overwrite old new = new @ drop (length new) old"

definition put_file :: "cstr \<Rightarrow> byte list \<Rightarrow> (cstr \<times> byte list) list \<Rightarrow> (cstr \<times> byte list) list" where
  "put_file path new fl =
     (path, overwrite (case map_of fl path of None \<Rightarrow> [] | Some old \<Rightarrow> old) new) #
     filter (\<lambda>f. fst f \<noteq> path) fl"

definition store_file :: "cstr \<Rightarrow> byte list \<Rightarrow> unit server_prog" where
  "store_file path buffer =
     bnd (sys OpenCall) (\<lambda>new_file.
     if new_file = - 1 then ret ()
     else modify (\<lambda>s. s\<lparr>files := put_file path buffer (files s)\<rparr>))"

text \<open>
  The copy of the content that is printed and then freed has \<open>file_length + 1\<close> bytes, in 32 bits: none
  for the largest length, and the copying writes out of bounds.
\<close>

definition handle_remote_download_answer :: "int \<Rightarrow> unit server_prog" where
  "handle_remote_download_answer sk =
     bnd (read_u8 sk) (\<lambda>answer.
     if answer = ANSWER_CODE_REMOTE_NOT_FOUND then
       bnd (read_lstr sk) (\<lambda>ip.
       bnd (read_lstr sk) (\<lambda>port.
       bnd (read_lstr sk) (\<lambda>filename.
       send_download_error_response
         \<lparr>dl_ip = ip, dl_port = port, dl_filename = filename\<rparr> ANSWER_CODE_REMOTE_NOT_FOUND)))
     else
       bnd (read_u8 sk) (\<lambda>filename_length.
       bnd (read_buf sk (unat filename_length)) (\<lambda>area.
       let filename = c_str area in
       bnd (read_buf sk 4) (\<lambda>len.
       bnd (read_buf sk (un_le32 len)) (\<lambda>buffer.
       seq (store_file (full_name filename) buffer) (
       seq (if (un_le32 len + 1) mod 2 ^ 32 \<le> un_le32 len then halt (UB OutOfBounds) else ret ()) (
       let packet = PBuf (PKT_ID_SIZE + 1 + 1 + length filename) [] in
       bnd (write_to_packet packet [SMSG_INT_DOWNLOAD] PKT_ID_SIZE) (\<lambda>p.
       bnd (write_to_packet p [ANSWER_CODE_REMOTE_FOUND] 1) (\<lambda>p.
       bnd (write_to_packet p [filename_length] 1) (\<lambda>p.
       bnd (write_to_packet p area (unat filename_length)) (\<lambda>p.
       bnd (gets client_socket) (\<lambda>fd.
       bnd (write_to_fd fd (pbytes p)) (\<lambda>_. ret ())))))))))))))"

definition handle_remote_download_request :: "int \<Rightarrow> unit server_prog" where
  "handle_remote_download_request sk =
     bnd (read_lstr sk) (\<lambda>filename.
     push_request (REQUEST_DOWNLOAD_REMOTE \<lparr>rdl_socket = sk, rdl_filename = filename\<rparr>))"

section \<open>Frames\<close>

lemma write_machines_keeps [keep_rules]: "keeps P (write_machines ms p)"
proof (induction ms arbitrary: p)
  case Nil
  show ?case unfolding write_machines.simps by (rule keeps_ret)
next
  case (Cons m ms)
  show ?case unfolding write_machines.simps by (intro keep_rules Cons.IH)
qed

lemma write_areas_keeps [keep_rules]: "keeps P (write_areas ms p)"
proof (induction ms arbitrary: p)
  case Nil
  show ?case unfolding write_areas.simps by (rule keeps_ret)
next
  case (Cons m ms)
  show ?case unfolding write_areas.simps by (intro keep_rules Cons.IH)
qed

lemma write_self_keeps [keep_rules]: "keeps P (write_self p)"
  unfolding write_self_def by (intro keep_rules)

lemma check_unique_keeps [keep_rules]: "keeps P (check_unique_request r)"
  unfolding check_unique_request_def by (intro keep_rules)

lemma clean_search_keeps [keep_rules]: "keeps P (clean_search_request b r)"
  unfolding clean_search_request_def by (intro keep_rules)

lemma clean_download_keeps [keep_rules]: "keeps P (clean_download_request r)"
  by (simp add: keeps_ret)

lemma build_download_keeps [keep_rules]: "keeps P (build_download_answer_header p r c)"
  unfolding build_download_answer_header_def by (intro keep_rules)

lemma load_file_state: "snd (load_file rest buffer s) = s"
proof (induction rest buffer rule: load_file.induct)
  case (1 rest buffer)
  then show ?case by (subst load_file.simps) (auto simp: Let_def)
qed

lemma read_whole_file_keeps [keep_rules]: "keeps P (read_whole_file path)"
  unfolding read_whole_file_def
  by (intro keep_rules) (simp add: keeps_def load_file_state)

lemma write_content_keeps [keep_rules]: "keeps P (write_content p b)"
  unfolding write_content_def by (intro keep_rules)

context server_frame
begin

lemma keeps_search_file: "keeps P (search_file f)"
  unfolding search_file_def search_file_fork_def by (intro keep_rules os_keeps)

lemma keeps_handle_remote_search_request: "keeps P (handle_remote_search_request sk)"
  unfolding handle_remote_search_request_def
  by (intro keep_rules keeps_read_lstr keeps_read_u8 keeps_read_machines os_keeps keeps_push_request)

lemma keeps_answer_local_search: "keeps P (answer_local_search_request name)"
  unfolding answer_local_search_request_def Let_def
  by (intro keep_rules keeps_search_file keeps_write_to_fd keeps_broadcast_packet)

lemma keeps_send_search_answer: "keeps P (send_search_answer_to_client f n areas)"
  unfolding send_search_answer_to_client_def Let_def by (intro keep_rules keeps_write_to_fd)

lemma keeps_forward_to_local: "keeps P (forward_to_local r)"
  unfolding forward_to_local_def by (intro keep_rules keeps_send_search_answer)

lemma keeps_junk_ints: "keeps P (junk_ints n)"
proof (induction n)
  case 0
  show ?case unfolding junk_ints.simps by (rule keeps_ret)
next
  case (Suc n)
  show ?case unfolding junk_ints.simps by (intro keep_rules os_keeps Suc.IH)
qed

lemma keeps_answer_remote_search: "keeps P (answer_remote_search_request r)"
  unfolding answer_remote_search_request_def Let_def
  by (intro keep_rules keeps_forward_to_local keeps_search_file keeps_junk_ints
      keeps_broadcast_packet_to)

lemma keeps_read_areas: "keeps P (read_areas sk n)"
proof (induction n)
  case 0
  show ?case unfolding read_areas.simps by (rule keeps_ret)
next
  case (Suc n)
  show ?case unfolding read_areas.simps by (intro keep_rules keeps_read_larea Suc.IH)
qed

lemma keeps_handle_remote_search_answer: "keeps P (handle_remote_search_answer sk)"
  unfolding handle_remote_search_answer_def
  by (intro keep_rules keeps_read_lstr keeps_read_u8 keeps_read_areas keeps_send_search_answer)

lemma keeps_send_download_error: "keeps P (send_download_error_response r c)"
  unfolding send_download_error_response_def Let_def by (intro keep_rules keeps_write_to_fd)

lemma keeps_answer_local_download: "keeps P (answer_local_download_request r)"
  unfolding answer_local_download_request_def Let_def
  by (intro keep_rules keeps_search_file keeps_send_download_error keeps_connect_to
      keeps_push_download keeps_write_to_fd)

lemma keeps_answer_remote_download: "keeps P (answer_remote_download_request r)"
  unfolding answer_remote_download_request_def Let_def
  by (intro keep_rules keeps_search_file keeps_write_to_fd os_keeps)

lemma keeps_store_file: "keeps P (store_file path b)"
  unfolding store_file_def by (intro keep_rules os_keeps)

lemma keeps_handle_remote_download_answer: "keeps P (handle_remote_download_answer sk)"
  unfolding handle_remote_download_answer_def Let_def
  by (intro keep_rules keeps_read_u8 keeps_read_lstr keeps_read_buf keeps_store_file
      keeps_write_to_fd keeps_send_download_error)

lemma keeps_handle_remote_download_request: "keeps P (handle_remote_download_request sk)"
  unfolding handle_remote_download_request_def by (intro keep_rules keeps_read_lstr keeps_push_request)

end

section \<open>What the answers are\<close>

text \<open>The search finds the names of the directory, and nothing else.\<close>

lemma find_entry_in: "find_entry f es = (if f \<in> set es then 1 else 0)"
  by (induction es) auto

definition has_entry :: "'z os_scheme \<Rightarrow> cstr \<Rightarrow> bool" where
  "has_entry s f \<longleftrightarrow> f \<in> set (entries s)"

text \<open>
  A state in which a search of the directory works: the pipe is made, \<open>fork\<close> gives a child, and the
  child can open the directory.
\<close>

definition forks :: "'z os_scheme \<Rightarrow> bool" where
  "forks s \<longleftrightarrow> script s ForkCall = [] \<and> script s PipeCall = [] \<and> script s OpendirCall = []"

text \<open>A state in which \<open>open\<close> succeeds.\<close>

definition opens :: "'z os_scheme \<Rightarrow> bool" where
  "opens s \<longleftrightarrow> script s OpenCall = []"

lemma search_file_run [run_simps]:
  "forks s \<Longrightarrow> search_file f s = (Inr (if has_entry s f then 1 else 0), s)"
  by (simp add: search_file_def search_file_fork_def bnd_run sys_script forks_def find_entry_in has_entry_def)

lemma write_machines_run [run_simps]:
  "list_all short_machine ms \<Longrightarrow> length (pbytes p) + length ms * (INET6_ADDRSTRLEN + 5 + 2) \<le> pcap p \<Longrightarrow>
   write_machines ms p s = (Inr (PBuf (pcap p) (pbytes p @ enc_machines ms)), s)"
proof (induction ms arbitrary: p)
  case Nil
  then show ?case by (cases p) simp
next
  case (Cons m ms)
  then show ?case
    by (simp add: bnd_run write_lstr_run short_machine_def INET6_ADDRSTRLEN_def enc_machine_def)
qed

lemma area_string_terminated [simp]: "is_cstr x \<Longrightarrow> area_string (x @ [0]) s = (Inr x, s)"
  by (simp add: area_string_def c_str_def is_cstr_def list_all_iff takeWhile_append2)

lemma write_areas_run [run_simps]:
  "list_all wf_machine ms \<Longrightarrow> length (pbytes p) + length (enc_machines ms) \<le> pcap p \<Longrightarrow>
   write_areas (map terminated ms) p s = (Inr (PBuf (pcap p) (pbytes p @ enc_machines ms)), s)"
proof (induction ms arbitrary: p)
  case Nil
  then show ?case by (cases p) simp
next
  case (Cons m ms)
  then show ?case
    by (simp add: bnd_run write_lstr_run enc_machine_def terminated_def wf_machine_def wf_lstr_def)
qed

lemma write_self_run [run_simps]:
  assumes "self_ip s = Live ip" and "listening_port s = Some port" and "length ip < 256"
    and "length (pbytes p) + length ip + length port + 2 \<le> pcap p"
  shows "write_self p s = (Inr (PBuf (pcap p) (pbytes p @ enc_machine (ip, port))), s)"
  using assms listening_port_short [OF assms(2)]
  by (simp add: write_self_def bnd_run own_port_run deref_def write_lstr_run enc_machine_Pair)

text \<open>The array of sockets: a used slot of another servent at its own index, the rest as it was.\<close>

definition other :: "int \<Rightarrow> socket_contact_t \<Rightarrow> bool" where
  "other src n \<longleftrightarrow> sc_sock n \<noteq> - 1 \<and> sc_sock n \<noteq> src"

lemma fill_sockets_count:
  "snd (fill_sockets src i ns a) = snd a + length (filter (other src) ns)"
  by (induction ns arbitrary: i a) (auto simp: other_def)

lemma fill_sockets_length: "length (fst (fill_sockets src i ns a)) = length (fst a)"
  by (induction ns arbitrary: i a) auto

lemma fill_sockets_below: "k < i \<Longrightarrow> fst (fill_sockets src i ns a) ! k = fst a ! k"
  by (induction ns arbitrary: i a) auto

lemma fill_sockets_nth:
  "k < length ns \<Longrightarrow> i + length ns \<le> length (fst a) \<Longrightarrow>
   fst (fill_sockets src i ns a) ! (i + k) =
     (if other src (ns ! k) then sc_sock (ns ! k) else fst a ! (i + k))"
proof (induction ns arbitrary: i k a)
  case (Cons n ns)
  show ?case
  proof (cases k)
    case 0
    then show ?thesis using Cons.prems by (auto simp: other_def fill_sockets_below)
  next
    case (Suc j)
    then show ?thesis
      using Cons.prems Cons.IH [of j "Suc i"] by (auto simp: other_def)
  qed
qed simp

lemma junk_int_run: "junk_int s = (Inr (int_of_bytes (take 4 (junk s @ replicate 4 0))), s\<lparr>junk := drop 4 (junk s)\<rparr>)"
  by (simp add: junk_int_def bnd_run take_junk_def)

definition junk_sockets :: "server_t \<Rightarrow> int list" where
  "junk_sockets s = map (\<lambda>k. int_of_bytes (take 4 (drop (4 * k) (junk s) @ replicate 4 0))) [0..<MAX_NEIGHBOURS]"

definition drop_junk :: "nat \<Rightarrow> server_t \<Rightarrow> server_t" where
  "drop_junk n s = s\<lparr>junk := drop n (junk s)\<rparr>"

lemma junk_ints_run:
  "junk_ints n s = (Inr (map (\<lambda>k. int_of_bytes (take 4 (drop (4 * k) (junk s) @ replicate 4 0))) [0..<n]),
     drop_junk (4 * n) s)"
proof (induction n arbitrary: s)
  case 0
  then show ?case by (simp add: drop_junk_def)
next
  case (Suc n)
  have up: "[0..<Suc n] = 0 # map Suc [0..<n]"
    by (simp add: map_Suc_upt upt_conv_Cons del: upt_Suc)
  show ?case
    by (simp add: bnd_run junk_int_run Suc.IH up drop_junk_def o_def add.commute del: upt_Suc)
qed

lemma check_unique_empty:
  assumes "repr (received_search_requests s) []"
  shows "check_unique_request r s = (Inr 1, s)"
proof -
  have "owns (received_search_requests s) []" "head (received_search_requests s) = first [] 0"
    using assms by (auto simp: repr_def)
  then have "foreach received_search_requests (\<lambda>_ entry.
       if log_filename entry = sr_filename r \<and> source_ip entry = ip_source r \<and>
          source_port entry \<noteq> port_source r
       then ret (Some (0 :: int)) else ret None) s = (Inr None, s)"
    by (subst foreach_owned) auto
  then show ?thesis by (simp add: check_unique_request_def bnd_run)
qed

text \<open>A search request as the handler builds it: the arrays have \<open>nb_ips\<close> entries.\<close>

definition request_ok :: "search_request_t \<Rightarrow> bool" where
  "request_ok r \<longleftrightarrow> length (sr_ips r) = unat (nb_ips r) \<and> length (sr_ports r) = unat (nb_ips r) \<and>
     wf_lstr (sr_filename r)"

abbreviation machines_of :: "search_request_t \<Rightarrow> machine list" where
  "machines_of r \<equiv> zip (sr_ips r) (sr_ports r)"

lemma request_ok_simps:
  assumes "request_ok r"
  shows "length (machines_of r) = unat (nb_ips r)" and "length (sr_filename r) < 256"
    and "u8 (length (machines_of r)) = nb_ips r"
  using assms by (auto simp: request_ok_def wf_lstr_def)

text \<open>A small machine encodes within the room the code keeps for one.\<close>

lemma length_enc_machines_le:
  "list_all short_machine ms \<Longrightarrow> length ms = n \<Longrightarrow> length (enc_machines ms) \<le> n * 53"
  using length_enc_machines_short [of ms] by (simp add: INET6_ADDRSTRLEN_def)

text \<open>The sample servent, as the witnesses need it.\<close>

lemma sample_facts [simp]:
  "forks sample_servent" "opens sample_servent" "wx sample_servent fd = []"
  "self_ip sample_servent = Live (cs ''10.0.0.1'')" "client_socket sample_servent = 4"
  "junk sample_servent = []" "evs sample_servent = []"
  "repr (received_search_requests sample_servent) []"
  "repr (pending_requests sample_servent) []" "repr (pending_downloads sample_servent) []"
  by (simp_all add: sample_servent_def forks_def opens_def repr_create)

lemma sample_port: "listening_port sample_servent = Some (cs ''2000'')"
  by (simp add: sample_servent_def listening_port_def cs_def dec.simps digit_char_def)

lemma sample_entries: "has_entry sample_servent (cs ''song'')" "\<not> has_entry sample_servent (cs ''film'')"
  by (simp_all add: sample_servent_def has_entry_def entries_def entry_name_def dir_prefix_def
      SEARCH_DIRECTORY_def SLASH_def cs_def List.map_filter_simps Let_def)

lemma sample_short: "length (cs ''10.0.0.1'') \<le> INET6_ADDRSTRLEN"
  by (simp add: INET6_ADDRSTRLEN_def)

lemma wf_lstr_sample [simp]: "wf_lstr (cs ''song'')" "wf_lstr (cs ''film'')" "wf_lstr (cs ''2000'')"
  "wf_lstr (cs ''10.0.0.4'')"
  by (simp_all add: wf_lstr_def cs_def)

lemma sample_machines [simp]: "wf_machines [(cs ''10.0.0.4'', cs ''2000'')]"
  by (simp add: wf_machines_def wf_machine_def)

section \<open>Properties of the search\<close>

text \<open>
  C12. A search of the local client, in a servent that owns its address, is answered to the client when
  the search directory has the file, and is broadcast to all neighbours, with the default time to
  live and an empty list of machines, when it has not: in both cases the packet of
  \<open>packets_doc.h\<close>, within the memory allocated for it. In a servent that has freed its address, as every one
  that joined through a contact has, either answer reads freed memory before anything is sent; in
  one that has no address yet it dereferences NULL.
\<close>

theorem answer_local_search_correct:
  assumes "forks s" and "neighbours_ok s" and "\<And>fd. wx s fd = []" and "listening_port s = Some port"
    and "\<And>ip. self_ip s = Live ip \<Longrightarrow> length ip \<le> INET6_ADDRSTRLEN" and "wf_lstr name"
  shows "answer_local_search_request name s = (case self_ip s of
      Live ip \<Rightarrow> (Inr (), if has_entry s name
         then after_send (client_socket s) (encode (PIntSearchAnswer name [(ip, port)])) s
         else after_broadcast (neighbour_socks s) (encode (PSearchRequest ip port name DEFAULT_TTL [])) s)
    | FreedPtr \<Rightarrow> (Inl (UB UseAfterFree), s)
    | NullPtr \<Rightarrow> (Inl (UB NullDeref), s))"
proof -
  have n: "length name < 256" and l: "length port \<le> 5" and nb: "length (neighbours s) = MAX_NEIGHBOURS"
    using assms listening_port_short by (auto simp: wf_lstr_def neighbours_ok_def)
  note defs = answer_local_search_request_def bnd_run search_file_run assms(1-4) write_to_packet_run
    write_lstr_run INET6_ADDRSTRLEN_def
  show ?thesis
  proof (cases "self_ip s")
    case (Live ip)
    note len = assms(5) [OF Live, unfolded INET6_ADDRSTRLEN_def]
    show ?thesis
    proof (cases "has_entry s name")
      case True
      then show ?thesis
        using n l len Live
        by (simp add: defs write_self_run write_to_fd_free after_send_def enc_counted_def u8_def)
    next
      case False
      then show ?thesis
        using n l len nb Live
        by (simp add: defs write_self_run broadcast_packet_run enc_counted_def enc_machine_Pair u8_def)
    qed
  qed (use n in \<open>auto simp: defs write_self_def deref_def\<close>)
qed

theorem answer_local_search_correct_witness:
  "answer_local_search_request (cs ''song'') sample_servent = (Inr (),
     after_send 4 (encode (PIntSearchAnswer (cs ''song'') [(cs ''10.0.0.1'', cs ''2000'')])) sample_servent) \<and>
   answer_local_search_request (cs ''film'') sample_servent = (Inr (),
     after_broadcast (neighbour_socks sample_servent)
       (encode (PSearchRequest (cs ''10.0.0.1'') (cs ''2000'') (cs ''film'') DEFAULT_TTL [])) sample_servent) \<and>
   answer_local_search_request (cs ''song'') (sample_servent\<lparr>self_ip := FreedPtr\<rparr>) =
     (Inl (UB UseAfterFree), sample_servent\<lparr>self_ip := FreedPtr\<rparr>)"
proof -
  have f: "forks (sample_servent\<lparr>self_ip := FreedPtr\<rparr>)" "neighbours_ok (sample_servent\<lparr>self_ip := FreedPtr\<rparr>)"
    "wx (sample_servent\<lparr>self_ip := FreedPtr\<rparr>) fd = []" "listening_port (sample_servent\<lparr>self_ip := FreedPtr\<rparr>) = Some (cs ''2000'')" for fd
    using sample_facts(1) sample_ok sample_port by (simp_all add: forks_def neighbours_ok_def listening_port_def)
  show ?thesis
    using answer_local_search_correct [OF sample_facts(1) sample_ok _ sample_port] sample_short sample_entries
      answer_local_search_correct [OF f, of "cs ''song''"]
    by (simp del: encode.simps)
qed

lemma short_snoc:
  "list_all short_machine ms \<Longrightarrow> short_machine m \<Longrightarrow> list_all short_machine (ms @ [m])"
  by simp

text \<open>What the handler makes of the packet of a search, its junk socket included.\<close>

definition received_search :: "server_t \<Rightarrow> cstr \<Rightarrow> cstr \<Rightarrow> cstr \<Rightarrow> byte \<Rightarrow> machine list \<Rightarrow> search_request_t" where
  "received_search s i p f t ms =
     \<lparr>source_sock = int_of_bytes (take 4 (junk s @ replicate 4 0)), ip_source = i, port_source = p,
      sr_filename = f, ttl = t, nb_ips = u8 (length ms), sr_ips = map fst ms, sr_ports = map snd ms\<rparr>"

text \<open>
  The packet of a search is read back as it was encoded, and queued behind the requests that
  wait, with arrays of the announced length. Only the socket of its source is not set: it is
  four bytes of fresh memory.
\<close>

lemma search_request_received:
  assumes "avail sk s = tl (encode (PSearchRequest i p f t ms)) @ rest"
    and "wf_lstr i" and "wf_lstr p" and "wf_lstr f" and "wf_machines ms"
    and "repr (pending_requests s) rs" and "create (pending_requests s) = add_new_request"
  shows "\<exists>l. handle_remote_search_request sk s = (Inr (),
      (drop_junk 4 (skip_rx sk (length (tl (encode (PSearchRequest i p f t ms)))) s))\<lparr>pending_requests := l\<rparr>) \<and>
    repr l (rs @ [REQUEST_SEARCH_REMOTE (received_search s i p f t ms)]) \<and>
    request_ok (received_search s i p f t ms)"
proof -
  let ?s1 = "skip_rx sk (Suc (length i)) s"
  let ?s2 = "skip_rx sk (Suc (length p)) ?s1"
  let ?s3 = "skip_rx sk (Suc (length f)) ?s2"
  let ?s4 = "skip_rx sk 1 ?s3"
  let ?s5 = "skip_rx sk 1 ?s4"
  let ?s6 = "skip_rx sk (length (enc_machines ms)) ?s5"
  have w: "length ms < 256" "list_all wf_machine ms" using assms(5) by (auto simp: wf_machines_def)
  have a: "avail sk s = enc_lstr i @ enc_lstr p @ enc_lstr f @ t # u8 (length ms) # enc_machines ms @ rest"
    using assms(1) by (simp add: enc_counted_def)
  have a1: "avail sk ?s1 = enc_lstr p @ enc_lstr f @ t # u8 (length ms) # enc_machines ms @ rest"
    using a by simp
  have a2: "avail sk ?s2 = enc_lstr f @ t # u8 (length ms) # enc_machines ms @ rest"
    using a1 by (subst avail_skip_rx) simp_all
  have a3: "avail sk ?s3 = t # u8 (length ms) # enc_machines ms @ rest"
    using a2 by (subst avail_skip_rx) simp_all
  have a4: "avail sk ?s4 = u8 (length ms) # enc_machines ms @ rest"
    using a3 by (subst avail_skip_rx) simp_all
  have a5: "avail sk ?s5 = enc_machines ms @ rest" using a4 by (subst avail_skip_rx) simp_all
  have r: "read_lstr sk s = (Inr i, ?s1)" "read_lstr sk ?s1 = (Inr p, ?s2)" "read_lstr sk ?s2 = (Inr f, ?s3)"
    "read_u8 sk ?s3 = (Inr t, ?s4)" "read_u8 sk ?s4 = (Inr (u8 (length ms)), ?s5)"
    "read_machines sk (length ms) ?s5 = (Inr ms, ?s6)"
    using read_lstr_avail [OF a assms(2)] read_lstr_avail [OF a1 assms(3)] read_lstr_avail [OF a2 assms(4)]
      read_u8_avail [OF a3] read_u8_avail [OF a4] read_machines_avail [OF a5 w(2)] by blast+
  have s6: "?s6 = skip_rx sk (length (tl (encode (PSearchRequest i p f t ms)))) s"
    using a by (simp add: enc_counted_def add.commute add.left_commute)
  let ?u = "drop_junk 4 ?s6"
  have pr: "pending_requests ?u = pending_requests s" "junk ?s6 = junk s"
    by (simp_all add: drop_junk_def skip_rx_def)
  have j: "junk_int ?s6 = (Inr (int_of_bytes (take 4 (junk s @ replicate 4 0))), ?u)"
    by (simp add: junk_int_run drop_junk_def del: skip_rx_skip_rx)
  have pu: "repr (pending_requests ?u) rs" "create (pending_requests ?u) = add_new_request"
    using assms(6,7) unfolding pr by simp_all
  obtain l where l: "push_request (REQUEST_SEARCH_REMOTE (received_search s i p f t ms)) ?u =
      (Inr (), ?u\<lparr>pending_requests := l\<rparr>)"
    "repr l (rs @ [REQUEST_SEARCH_REMOTE (received_search s i p f t ms)])"
    by (rule push_request_run [OF pu])
  have "handle_remote_search_request sk s = push_request (REQUEST_SEARCH_REMOTE (received_search s i p f t ms)) ?u"
    using r j w(1) by (simp add: handle_remote_search_request_def bnd_run received_search_def
        del: skip_rx_skip_rx)
  moreover have "request_ok (received_search s i p f t ms)"
    using w(1) assms(4) by (simp add: request_ok_def received_search_def)
  ultimately show ?thesis using l unfolding s6 by auto
qed

text \<open>The packet answered to a search of another servent, when the log of searches is empty.\<close>

definition search_answer :: "server_t \<Rightarrow> search_request_t \<Rightarrow> machine \<Rightarrow> packet" where
  "search_answer s r self = PSearchAnswer (sr_filename r)
     (machines_of r @ (if has_entry s (sr_filename r) then [self] else []))"

definition answer_targets :: "server_t \<Rightarrow> search_request_t \<Rightarrow> int list" where
  "answer_targets s r =
     (case fill_sockets (source_sock r) 0 (neighbours s) (junk_sockets s, 0) of
        (sockets, n) \<Rightarrow> take n sockets)"

text \<open>
  A search of another servent is never passed on: with the log of searches empty every
  search counts as unique, and a unique one is answered at once, whatever its time to live,
  with this servent added to the machines when it has the file.
\<close>

lemma answer_remote_search_correct:
  assumes "forks s" and "neighbours_ok s" and "\<And>fd. wx s fd = []"
    and "self_ip s = Live ip" and "length ip \<le> INET6_ADDRSTRLEN" and "listening_port s = Some port"
    and "ip \<noteq> ip_source r" and "repr (received_search_requests s) []"
    and "request_ok r" and "list_all short_machine (machines_of r)"
  shows "answer_remote_search_request r s =
    (Inr (), after_broadcast (answer_targets s r) (encode (search_answer s r (ip, port)))
       (drop_junk (4 * MAX_NEIGHBOURS) s))"
proof -
  let ?ms = "machines_of r"
  obtain socks n where fill: "fill_sockets (source_sock r) 0 (neighbours s) (junk_sockets s, 0) = (socks, n)"
    by fastforce
  have ns: "length (neighbours s) = MAX_NEIGHBOURS" using assms(2) by (simp add: neighbours_ok_def)
  have "n = length (filter (other (source_sock r)) (neighbours s))"
    using fill_sockets_count [of "source_sock r" 0 "neighbours s" "(junk_sockets s, 0)"] fill by simp
  then have n: "n \<le> length socks"
    using fill_sockets_length [of "source_sock r" 0 "neighbours s" "(junk_sockets s, 0)"] fill ns
    by (simp add: junk_sockets_def) (metis length_filter_le)
  have bc: "broadcast_packet_to socks n bs (drop_junk k s) =
      (Inr (), after_broadcast (take n socks) bs (drop_junk k s))" if "bs \<noteq> []" for bs k
    using that assms(3) n by (intro broadcast_to_run) (simp_all add: drop_junk_def)
  have l: "length port \<le> 5" using listening_port_short [OF assms(6)] by simp
  have len: "length (enc_machines ?ms) \<le> unat (nb_ips r) * 53"
    using length_enc_machines_le [OF assms(10)] request_ok_simps [OF assms(9)] by simp
  have js: "junk_ints MAX_NEIGHBOURS s = (Inr (junk_sockets s), drop_junk (4 * MAX_NEIGHBOURS) s)"
    by (simp add: junk_ints_run junk_sockets_def)
  have nsd: "neighbours (drop_junk k s) = neighbours s" for k by (simp add: drop_junk_def)
  note defs = answer_remote_search_request_def bnd_run seq_run search_file_run [OF assms(1)]
    assms(4,6,7) check_unique_empty [OF assms(8)] deref_def write_to_packet_run write_lstr_run
    write_machines_run [OF assms(10)] js nsd fill bc clean_search_request_def
    answer_targets_def search_answer_def enc_counted_def Let_def
  have nb: "u8 (Suc (unat (nb_ips r))) = nb_ips r + 1" by (simp add: u8_def)
  show ?thesis
  proof (cases "has_entry s (sr_filename r)")
    case True
    have "write_self p s = (Inr (PBuf (pcap p) (pbytes p @ enc_machine (ip, port))), s)"
      if "length (pbytes p) \<le> 258 + unat (nb_ips r) * 53" "pcap p = 312 + unat (nb_ips r) * 53" for p
      using that l assms(4-6) by (intro write_self_run) (simp_all add: INET6_ADDRSTRLEN_def)
    then show ?thesis
      using True request_ok_simps [OF assms(9)] len nb
      by (simp add: defs INET6_ADDRSTRLEN_def)
  next
    case False
    then show ?thesis
      using request_ok_simps [OF assms(9)] len
      by (simp add: defs INET6_ADDRSTRLEN_def)
  qed
qed

definition sample_search :: search_request_t where
  "sample_search = \<lparr>source_sock = 6, ip_source = cs ''10.0.0.4'', port_source = cs ''2000'',
     sr_filename = cs ''song'', ttl = 3, nb_ips = 1, sr_ips = [cs ''10.0.0.4''], sr_ports = [cs ''2000'']\<rparr>"

lemma sample_search_ok: "request_ok sample_search" "list_all short_machine (machines_of sample_search)"
  "list_all wf_machine (machines_of sample_search)"
  by (simp_all add: sample_search_def request_ok_def short_machine_def wf_machine_def INET6_ADDRSTRLEN_def)

text \<open>
  The array of sockets a search answer is sent to has the neighbours at their index in the
  table but as many entries as there are neighbours: behind a free slot, or the slot of the
  source, the answer goes to whatever descriptor \<open>malloc\<close> left there.
\<close>

lemma answer_targets_gap:
  assumes "k < length (filter (other (source_sock r)) (neighbours s))"
    and "k < MAX_NEIGHBOURS" and "neighbours_ok s"
  shows "answer_targets s r ! k =
    (if other (source_sock r) (neighbours s ! k) then sc_sock (neighbours s ! k)
     else junk_sockets s ! k)"
proof -
  have "length (neighbours s) = MAX_NEIGHBOURS" using assms(3) by (simp add: neighbours_ok_def)
  moreover have "length (junk_sockets s) = MAX_NEIGHBOURS" by (simp add: junk_sockets_def)
  ultimately show ?thesis
    using assms(1,2) fill_sockets_nth [of k "neighbours s" 0 "(junk_sockets s, 0)" "source_sock r"]
      fill_sockets_count [of "source_sock r" 0 "neighbours s" "(junk_sockets s, 0)"]
    by (cases "fill_sockets (source_sock r) 0 (neighbours s) (junk_sockets s, 0)")
      (simp add: answer_targets_def)
qed

text \<open>So the list as a whole, and without such a gap it is that of the other neighbours.\<close>

lemma answer_targets_list:
  assumes "neighbours_ok s" and "n = length (filter (other (source_sock r)) (neighbours s))"
  shows "answer_targets s r = map (\<lambda>k. if other (source_sock r) (neighbours s ! k) then sc_sock (neighbours s ! k)
    else junk_sockets s ! k) [0..<n]"
proof (rule nth_equalityI)
  have len: "length (neighbours s) = MAX_NEIGHBOURS" using assms(1) by (simp add: neighbours_ok_def)
  have n: "n \<le> MAX_NEIGHBOURS" using assms(2) len by (metis length_filter_le)
  obtain a m where f: "fill_sockets (source_sock r) 0 (neighbours s) (junk_sockets s, 0) = (a, m)" by fastforce
  have "m = n" "length a = MAX_NEIGHBOURS"
    using fill_sockets_count [of "source_sock r" 0 "neighbours s" "(junk_sockets s, 0)"] assms(2)
      fill_sockets_length [of "source_sock r" 0 "neighbours s" "(junk_sockets s, 0)"] f
    by (simp_all add: junk_sockets_def)
  then show *: "length (answer_targets s r) = length (map (\<lambda>k. if other (source_sock r) (neighbours s ! k)
      then sc_sock (neighbours s ! k) else junk_sockets s ! k) [0..<n])"
    using f n by (simp add: answer_targets_def)
  fix k assume "k < length (answer_targets s r)"
  then have "k < n" using * by simp
  then show "answer_targets s r ! k = map (\<lambda>k. if other (source_sock r) (neighbours s ! k)
      then sc_sock (neighbours s ! k) else junk_sockets s ! k) [0..<n] ! k"
    using answer_targets_gap [of k r s] assms n by simp
qed

lemma take_filter:
  assumes "list_all P (take n xs)" and "n = length (filter P xs)"
  shows "filter P xs = take n xs"
proof -
  have "filter P (take n xs) = take n xs" using assms(1) by (simp add: list_all_iff filter_id_conv)
  then have split: "filter P xs = take n xs @ filter P (drop n xs)"
    by (metis append_take_drop_id filter_append)
  have "n \<le> length xs" using assms(2) by simp
  then have "length (filter P xs) = n + length (filter P (drop n xs))" by (subst split) simp
  then have "filter P (drop n xs) = []" using assms(2) by simp
  then show ?thesis by (subst split) simp
qed

lemma answer_targets_gapless:
  assumes "neighbours_ok s" and "n = length (filter (other (source_sock r)) (neighbours s))"
    and "list_all (other (source_sock r)) (take n (neighbours s))"
  shows "answer_targets s r = map sc_sock (filter (other (source_sock r)) (neighbours s))"
proof -
  have n: "n \<le> length (neighbours s)" using assms(2) by simp
  then have o: "k < n \<Longrightarrow> other (source_sock r) (neighbours s ! k)" for k
    using assms(3) by (simp add: list_all_length)
  have "answer_targets s r = map (\<lambda>k. sc_sock (neighbours s ! k)) [0..<n]"
    unfolding answer_targets_list [OF assms(1,2)] using o by (intro map_cong) auto
  also have "\<dots> = map sc_sock (take n (neighbours s))"
    using n by (intro nth_equalityI) auto
  also have "take n (neighbours s) = filter (other (source_sock r)) (neighbours s)"
    by (rule take_filter [OF assms(3,2), symmetric])
  finally show ?thesis .
qed

theorem answer_targets_gap_witness: "answer_targets sample_servent sample_search ! 0 = 0"
proof -
  have "0 < length (filter (other (source_sock sample_search)) (neighbours sample_servent))"
    "\<not> other (source_sock sample_search) (neighbours sample_servent ! 0)"
    "junk_sockets sample_servent ! 0 = 0"
    by (simp_all add: sample_servent_def sample_search_def other_def junk_sockets_def MAX_NEIGHBOURS_def
        int_of_bytes_def numeral_eq_Suc)
  then show ?thesis
    using answer_targets_gap [OF _ _ sample_ok, of 0 sample_search] by (simp add: MAX_NEIGHBOURS_def)
qed

text \<open>
  The room for an answer to the client leaves out the byte that counts the machines.
\<close>

lemma send_search_answer_run:
  assumes "length f < 256" and "list_all wf_machine ms" and "length ms < 256"
    and "length (enc_machines ms) < length ms * 53" and "wx s (client_socket s) = []"
  shows "send_search_answer_to_client f (u8 (length ms)) (map terminated ms) s =
    (Inr (), after_send (client_socket s) (encode (PIntSearchAnswer f ms)) s)"
  using assms write_areas_run [OF assms(2)]
  by (simp add: send_search_answer_to_client_def bnd_run Let_def write_to_packet_run
      write_lstr_run write_to_fd_free after_send_def enc_counted_def INET6_ADDRSTRLEN_def)

text \<open>
  An answer without machines overruns the packet built for the client by one byte: the
  size of the packet does not count the byte with the number of machines.
\<close>

lemma empty_search_answer_overflow:
  "length f < 256 \<Longrightarrow> send_search_answer_to_client f 0 [] s = (Inl (UB OutOfBounds), s)"
  by (simp add: send_search_answer_to_client_def bnd_run Let_def write_lstr_run
      write_to_packet_def)

theorem empty_search_answer_overflow_witness:
  "send_search_answer_to_client (cs ''film'') 0 [] sample_servent = (Inl (UB OutOfBounds), sample_servent)"
  by (rule empty_search_answer_overflow) simp

text \<open>
  C34. A search that comes back to its source is reported to the local client, after which the
  servent reads the arrays of the request, freed by the report.
\<close>

theorem own_search_use_after_free:
  assumes "self_ip s = Live (ip_source r)" and "request_ok r" and "wx s (client_socket s) = []"
    and "list_all wf_machine (machines_of r)" and "0 < nb_ips r"
    and "length (enc_machines (machines_of r)) < unat (nb_ips r) * 53"
  shows "answer_remote_search_request r s = (Inl (UB UseAfterFree),
     after_send (client_socket s) (encode (PIntSearchAnswer (sr_filename r) (machines_of r))) s)"
  using assms(1,5) request_ok_simps [OF assms(2)]
    send_search_answer_run [of "sr_filename r" "machines_of r" s] assms
  by (simp add: answer_remote_search_request_def bnd_run seq_run deref_def forward_to_local_def
      clean_search_request_def del: encode.simps)

definition own_search :: search_request_t where
  "own_search = sample_search\<lparr>ip_source := cs ''10.0.0.1''\<rparr>"

theorem own_search_use_after_free_witness:
  "fst (answer_remote_search_request own_search sample_servent) = Inl (UB UseAfterFree)"
proof -
  have "request_ok own_search" "list_all wf_machine (machines_of own_search)"
    using sample_search_ok by (simp_all add: own_search_def request_ok_def)
  moreover have "self_ip sample_servent = Live (ip_source own_search)" "0 < nb_ips own_search"
    "length (enc_machines (machines_of own_search)) < unat (nb_ips own_search) * 53"
    by (simp_all add: own_search_def sample_search_def)
  ultimately show ?thesis
    using own_search_use_after_free [of sample_servent own_search] by simp
qed

text \<open>
  Reading the machines of an answer: each area has one byte the servent never writes.
\<close>

lemma read_area_avail:
  assumes "avail fd s = enc_lstr x @ rest" and "length x < 256"
  shows "read_larea fd s =
    (Inr (x @ take 1 (junk s @ [0])), (skip_rx fd (Suc (length x)) s)\<lparr>junk := drop 1 (junk s)\<rparr>)"
proof -
  have 1: "read_u8 fd s = (Inr (u8 (length x)), skip_rx fd 1 s)"
    using assms by (intro read_u8_avail [where rest = "x @ rest"]) (simp add: enc_lstr_def)
  have a: "avail fd (skip_rx fd 1 s) = x @ rest" using assms by (simp add: enc_lstr_def)
  then have 2: "read_buf fd (length x) (skip_rx fd 1 s) = (Inr x, skip_rx fd (length x) (skip_rx fd 1 s))"
    by (subst read_buf_avail) auto
  have "skip_rx fd (length x) (skip_rx fd 1 s) = skip_rx fd (Suc (length x)) s"
    using assms(1) by (subst skip_rx_skip_rx) (auto simp: enc_lstr_def)
  then show ?thesis
    using 1 2 assms(2) by (simp add: read_larea_def bnd_run read_area_def take_junk_def del: skip_rx_skip_rx)
qed

lemma read_areas_zero:
  "junk s = [] \<Longrightarrow> avail sk s = enc_machines ms @ rest \<Longrightarrow> list_all wf_machine ms \<Longrightarrow>
   read_areas sk (length ms) s = (Inr (map terminated ms), skip_rx sk (length (enc_machines ms)) s)"
proof (induction ms arbitrary: s)
  case Nil
  then show ?case by simp
next
  case (Cons m ms)
  obtain i p where m: "m = (i, p)" by (cases m)
  have a: "avail sk s = enc_lstr i @ enc_lstr p @ enc_machines ms @ rest"
    "length i < 256" "length p < 256"
    using Cons.prems m by (auto simp: enc_machine_def wf_machine_def wf_lstr_def)
  let ?s1 = "skip_rx sk (Suc (length i)) s"
  let ?s2 = "skip_rx sk (Suc (length p)) ?s1"
  have j: "t\<lparr>junk := []\<rparr> = t" if "junk t = []" for t :: server_t using that by simp
  have 1: "read_larea sk s = (Inr (i @ [0]), ?s1)"
    using read_area_avail [where fd = sk and s = s and x = i and rest = "enc_lstr p @ enc_machines ms @ rest"] a Cons.prems(1)
    by (simp add: j)
  have 2: "read_larea sk ?s1 = (Inr (p @ [0]), ?s2)"
    using read_area_avail [where fd = sk and s = ?s1 and x = p and rest = "enc_machines ms @ rest"] a Cons.prems(1)
    by (simp add: j del: skip_rx_skip_rx)
  have "avail sk ?s2 = enc_machines ms @ rest" "junk ?s2 = []" using a Cons.prems(1) by simp_all
  then have 3: "read_areas sk (length ms) ?s2 = (Inr (map terminated ms), skip_rx sk (length (enc_machines ms)) ?s2)"
    using Cons.prems by (intro Cons.IH) auto
  have 4: "skip_rx sk (length (enc_machines ms)) ?s2 = skip_rx sk (length (enc_machines (m # ms))) s"
    using a m by (simp add: add.commute add.left_commute)
  show ?case
    using 1 2 3 4 m by (simp add: bnd_run terminated_def del: skip_rx_skip_rx)
qed

lemma read_areas_total: "\<exists>a t. read_areas sk n s = (Inr a, t)"
proof (induction n arbitrary: s)
  case 0
  show ?case unfolding read_areas.simps by (rule ret_total)
next
  case (Suc n)
  show ?case unfolding read_areas.simps by (intro bnd_total read_larea_total Suc.IH ret_total)
qed

lemma read_areas_head:
  assumes "avail sk s = enc_machines (m # ms) @ rest" and "list_all wf_machine (m # ms)"
    and "junk s = b # js"
  obtains q as t where "read_areas sk (length (m # ms)) s = (Inr ((fst m @ [b], q) # as), t)"
proof -
  have "avail sk s = enc_lstr (fst m) @ enc_lstr (snd m) @ enc_machines ms @ rest" "length (fst m) < 256"
    using assms by (auto simp: enc_machine_def wf_machine_def wf_lstr_def)
  then have 1: "read_larea sk s = (Inr (fst m @ [b]), (skip_rx sk (Suc (length (fst m))) s)\<lparr>junk := js\<rparr>)"
    using read_area_avail assms(3) by fastforce
  obtain q t2 where 2: "read_larea sk ((skip_rx sk (Suc (length (fst m))) s)\<lparr>junk := js\<rparr>) = (Inr q, t2)"
    using read_larea_total by blast
  obtain as t3 where "read_areas sk (length ms) t2 = (Inr as, t3)"
    using read_areas_total by blast
  with 1 2 show ?thesis by (intro that [of q as t3]) (simp add: bnd_run)
qed

lemma area_string_overrun: "is_cstr x \<Longrightarrow> b \<noteq> 0 \<Longrightarrow> area_string (x @ [b]) s = (Inl (UB OutOfBounds), s)"
  by (auto simp: area_string_def is_cstr_def list_all_iff)

text \<open>What the handler has read when it comes to the machines of an answer.\<close>

lemma search_answer_prefix:
  assumes "avail sk s = enc_lstr f @ u8 n # rest" and "wf_lstr f"
  shows "handle_remote_search_answer sk s =
    bnd (read_areas sk (unat (u8 n))) (send_search_answer_to_client f (u8 n))
      (skip_rx sk (Suc (Suc (length f))) s)"
proof -
  have "read_u8 sk (skip_rx sk (Suc (length f)) s) =
      (Inr (u8 n), skip_rx sk 1 (skip_rx sk (Suc (length f)) s))"
    using assms by (intro read_u8_avail [where rest = rest]) simp
  moreover have "skip_rx sk 1 (skip_rx sk (Suc (length f)) s) = skip_rx sk (Suc (Suc (length f))) s"
    using assms by (subst skip_rx_skip_rx) simp_all
  ultimately show ?thesis
    using read_lstr_avail [OF assms]
    by (simp add: handle_remote_search_answer_def bnd_run)
qed

text \<open>
  The answer to a search is passed on to the local client unchanged, as long as memory
  from \<open>malloc\<close> happens to hold zeros and the packet fits.
\<close>

lemma search_answer_forwarded:
  assumes "avail sk s = tl (encode (PSearchAnswer f ms)) @ rest" and "wf_lstr f" and "wf_machines ms"
    and "junk s = []" and "length (enc_machines ms) < length ms * 53" and "wx s (client_socket s) = []"
  shows "handle_remote_search_answer sk s =
    (Inr (), after_send (client_socket s) (encode (PIntSearchAnswer f ms))
       (skip_rx sk (length (tl (encode (PSearchAnswer f ms)))) s))"
proof -
  let ?s1 = "skip_rx sk (Suc (Suc (length f))) s"
  have w: "length ms < 256" "list_all wf_machine ms" using assms(3) by (auto simp: wf_machines_def)
  have a: "avail sk s = enc_lstr f @ u8 (length ms) # enc_machines ms @ rest"
    using assms(1) by (simp add: enc_counted_def)
  then have a1: "avail sk ?s1 = enc_machines ms @ rest" by (simp add: enc_lstr_def)
  have 1: "read_areas sk (length ms) ?s1 = (Inr (map terminated ms), skip_rx sk (length (enc_machines ms)) ?s1)"
    using a1 w assms(4) by (intro read_areas_zero) simp_all
  have 2: "skip_rx sk (length (enc_machines ms)) ?s1 = skip_rx sk (length (tl (encode (PSearchAnswer f ms)))) s"
    using a by (subst skip_rx_skip_rx) (simp_all add: enc_counted_def)
  let ?s2 = "skip_rx sk (length (tl (encode (PSearchAnswer f ms)))) s"
  have c: "client_socket ?s2 = client_socket s" by (simp add: skip_rx_def)
  have 3: "send_search_answer_to_client f (u8 (length ms)) (map terminated ms) ?s2 =
      (Inr (), after_send (client_socket ?s2) (encode (PIntSearchAnswer f ms)) ?s2)"
    using w assms(2,5,6) c by (intro send_search_answer_run) (simp_all add: wf_lstr_def)
  show ?thesis
    using search_answer_prefix [OF a assms(2)] 1 3 c w unfolding 2
    by (simp add: bnd_run del: encode.simps)
qed

definition told_servent :: server_t where
  "told_servent = sample_servent\<lparr>rx := (\<lambda>_. [])
     (6 := [Chunk (tl (encode (PSearchAnswer (cs ''song'') [(cs ''10.0.0.4'', cs ''2000'')])))])\<rparr>"

lemma told_avail: "avail 6 told_servent =
    tl (encode (PSearchAnswer (cs ''song'') [(cs ''10.0.0.4'', cs ''2000'')])) @ []"
  by (simp add: told_servent_def enc_lstr_def)

text \<open>
  C35. Otherwise the answer makes the servent read out of bounds: the addresses are not
  terminated, so a byte of fresh memory that is not zero is taken as part of the first one.
\<close>

theorem search_answer_unterminated:
  assumes "avail sk s = tl (encode (PSearchAnswer f (m # ms))) @ rest" and "wf_lstr f"
    and "wf_machines (m # ms)" and "junk s = b # js" and "b \<noteq> 0"
  shows "fst (handle_remote_search_answer sk s) = Inl (UB OutOfBounds)"
proof -
  let ?s1 = "skip_rx sk (Suc (Suc (length f))) s"
  have w: "length (m # ms) < 256" "list_all wf_machine (m # ms)"
    using assms(3) unfolding wf_machines_def by blast+
  have a: "avail sk s = enc_lstr f @ u8 (length (m # ms)) # enc_machines (m # ms) @ rest"
    using assms(1) by (simp add: enc_counted_def)
  then have a1: "avail sk ?s1 = enc_machines (m # ms) @ rest" by (simp add: enc_lstr_def)
  have j: "junk ?s1 = b # js" using assms(4) by simp
  obtain q as t where 1: "read_areas sk (length (m # ms)) ?s1 = (Inr ((fst m @ [b], q) # as), t)"
    using read_areas_head [OF a1 w(2) j] by blast
  have "is_cstr (fst m)" using w by (simp add: wf_machine_def wf_lstr_def)
  then have "fst (send_search_answer_to_client f (u8 (length (m # ms))) ((fst m @ [b], q) # as) t)
      = Inl (UB OutOfBounds)"
    using w assms(2,5)
    by (simp add: send_search_answer_to_client_def Let_def bnd_run write_to_packet_run write_lstr_run
        wf_lstr_def area_string_overrun)
  then show ?thesis
    using search_answer_prefix [OF a assms(2)] 1 w
    by (simp add: bnd_run)
qed

theorem search_answer_unterminated_witness:
  "fst (handle_remote_search_answer 6 (told_servent\<lparr>junk := [55]\<rparr>)) = Inl (UB OutOfBounds)"
  using told_avail by (intro search_answer_unterminated [where m = "(cs ''10.0.0.4'', cs ''2000'')" and
        ms = "[]" and f = "cs ''song''" and rest = "[]" and b = 55 and js = "[]"]) simp_all

section \<open>Properties of the download\<close>

lemma load_file_run:
  "length buffer + length rest + 100 < 2 ^ 32 \<Longrightarrow> load_file rest buffer s = (Inr (buffer @ rest), s)"
proof (induction rest buffer rule: load_file.induct)
  case (1 rest buffer)
  show ?case
  proof (cases "rest = []")
    case True
    then show ?thesis by (subst load_file.simps) simp
  next
    case False
    have "load_file (drop 100 rest) (buffer @ take 100 rest) s = (Inr ((buffer @ take 100 rest) @ drop 100 rest), s)"
      using False "1.prems" by (intro "1.IH") auto
    then show ?thesis
      using False "1.prems" by (subst load_file.simps) (simp add: Let_def)
  qed
qed

text \<open>The effect of an answer after which the connection is closed.\<close>

definition answered :: "int \<Rightarrow> byte list \<Rightarrow> 'z os_scheme \<Rightarrow> 'z os_scheme" where
  "answered fd bs s = s\<lparr>evs := evs s @ [Wrote fd bs, Closed fd]\<rparr>"

lemma send_download_error_run:
  assumes "wf_lstr (dl_ip r)" and "wf_lstr (dl_port r)" and "wf_lstr (dl_filename r)"
    and "wx s (client_socket s) = []"
  shows "send_download_error_response r code s = (Inr (), after_send (client_socket s)
    (encode (PIntDownloadError code (dl_ip r) (dl_port r) (dl_filename r))) s)"
  using assms
  by (simp add: send_download_error_response_def build_download_answer_header_def Let_def bnd_run
      write_to_packet_run write_lstr_run wf_lstr_def write_to_fd_free after_send_def)

text \<open>
  A file the servent has is sent whole, in one packet with its name and its length, and
  the connection is closed; the loop that reads the file by hundreds of bytes loses none.
\<close>

lemma answer_remote_download_found:
  assumes "forks s" and "has_entry s f" and "map_of (files s) (full_name f) = Some content"
    and "length content < 2 ^ 31" and "wf_lstr f" and "wx s fd = []"
  shows "answer_remote_download_request \<lparr>rdl_socket = fd, rdl_filename = f\<rparr> s =
    (Inr (), answered fd (encode (PDownloadFile f content)) s)"
proof -
  have "load_file content [] s = (Inr content, s)"
    using load_file_run [of "[]" content s] assms(4) by simp
  then have "read_whole_file (full_name f) s = (Inr content, s)"
    using assms(3) by (simp add: read_whole_file_def bnd_run)
  then show ?thesis
    using assms
    by (simp add: answer_remote_download_request_def Let_def bnd_run search_file_run
        write_to_packet_run write_lstr_run wf_lstr_def write_content_def write_to_fd_free
        sys_close_run answered_def)
qed

text \<open>
  For a file the servent does not have the answer says so and repeats the name, with the
  address and the port of this end of the connection.
\<close>

lemma answer_remote_download_missing:
  assumes "forks s" and "\<not> has_entry s f" and "sockname s fd = Inet ip port"
    and "length ip \<le> INET6_ADDRSTRLEN" and "length f < 256" and "wx s fd = []"
  shows "answer_remote_download_request \<lparr>rdl_socket = fd, rdl_filename = f\<rparr> s =
    (Inr (), answered fd (encode (PDownloadNotFound ip (dec (unat port)) f)) s)"
  using assms length_dec_port [of port]
  by (simp add: answer_remote_download_request_def Let_def bnd_run search_file_run
      extract_ip_port_run sock_name_def write_to_packet_run INET6_ADDRSTRLEN_def
      write_to_fd_free sys_close_run answered_def enc_lstr_def)

theorem answer_remote_download_missing_witness:
  "answer_remote_download_request \<lparr>rdl_socket = 9, rdl_filename = cs ''film''\<rparr> sample_servent =
     (Inr (), answered 9 (encode (PDownloadNotFound (cs ''10.0.0.1'') (cs ''2000'') (cs ''film''))) sample_servent)"
proof -
  have "sockname sample_servent 9 = Inet (cs ''10.0.0.1'') 2000" by (simp add: sample_servent_def)
  moreover have "dec 2000 = cs ''2000''" by (simp add: cs_def dec.simps digit_char_def)
  ultimately show ?thesis
    using answer_remote_download_missing [of sample_servent "cs ''film''" 9] sample_entries sample_short
    by (simp del: encode.simps)
qed

text \<open>
  The directory itself passes the search, as the entry \<open>.\<close>: a request for it makes the
  servent copy 4 GiB out of a buffer of 100 bytes.
\<close>

lemma download_of_dot:
  assumes "forks s" and "map_of (files s) (full_name (cs ''.'')) = None"
  shows "answer_remote_download_request \<lparr>rdl_socket = fd, rdl_filename = cs ''.''\<rparr> s =
    (Inl (UB OutOfBounds), s)"
proof -
  have "has_entry s (cs ''.'')" by (simp add: has_entry_def entries_def)
  then show ?thesis
    using assms
    by (simp add: answer_remote_download_request_def Let_def bnd_run search_file_run
        read_whole_file_def)
qed

theorem download_of_dot_witness:
  "answer_remote_download_request \<lparr>rdl_socket = 9, rdl_filename = cs ''.''\<rparr> sample_servent =
     (Inl (UB OutOfBounds), sample_servent)"
  by (rule download_of_dot) (simp_all add: sample_servent_def full_name_def SEARCH_DIRECTORY_def SLASH_def
      cs_def forks_def)

text \<open>
  C17. The three ways a download the local client asks for begins: the file is here already;
  the owner cannot be reached; the request is sent and its socket waits for the answer. In the
  first two the client is told.
\<close>

theorem answer_local_download_cases:
  assumes "forks s" and "wf_lstr (dl_ip r)" and "wf_lstr (dl_port r)" and "wf_lstr (dl_filename r)"
    and "\<And>fd. wx s fd = []" and "repr (pending_downloads s) ds"
    and "create (pending_downloads s) = add_new_socket"
    and "connect_to (dl_ip r) (dl_port r) s = (Inr (res, sk), t)"
  shows "\<exists>u. answer_local_download_request r s = (Inr (), u) \<and>
    (if has_entry s (dl_filename r) then u = after_send (client_socket s)
        (encode (PIntDownloadError ANSWER_CODE_LOCAL (dl_ip r) (dl_port r) (dl_filename r))) s
     else if res \<noteq> CONNECT_OK then u = after_send (client_socket s)
        (encode (PIntDownloadError ANSWER_CODE_REMOTE_OFFLINE (dl_ip r) (dl_port r) (dl_filename r))) t
     else \<exists>k l. sk = Some k \<and> repr l (ds @ [k]) \<and>
       u = after_send k (encode (PDownload (dl_filename r))) (t\<lparr>pending_downloads := l\<rparr>))"
proof -
  have t: "wx t = wx s" "client_socket t = client_socket s" "pending_downloads t = pending_downloads s"
    by (rule connect_to_same [OF assms(8)], simp)+
  have err: "send_download_error_response r c u = (Inr (), after_send (client_socket u)
      (encode (PIntDownloadError c (dl_ip r) (dl_port r) (dl_filename r))) u)"
    if "wx u = wx s" for c u
    using that assms(2-5) by (intro send_download_error_run) simp_all
  consider (here) "has_entry s (dl_filename r)"
    | (off) "\<not> has_entry s (dl_filename r)" "res \<noteq> CONNECT_OK"
    | (sent) "\<not> has_entry s (dl_filename r)" "res = CONNECT_OK" by blast
  then show ?thesis
  proof cases
    case here
    then show ?thesis using err [of s] assms(1)
      by (simp add: answer_local_download_request_def bnd_run search_file_run del: encode.simps)
  next
    case off
    then show ?thesis using err [of t] assms(1,8) t
      by (simp add: answer_local_download_request_def bnd_run search_file_run del: encode.simps)
  next
    case sent
    obtain k where k: "sk = Some k"
      using connect_to_result [OF assms(8)] sent by (auto simp: connect_result_ok_def split: option.splits)
    obtain l where l: "push_download k t = (Inr (), t\<lparr>pending_downloads := l\<rparr>)" "repr l (ds @ [k])"
      using downloads.push_field [of t ds k] assms(6,7) t
      unfolding push_download_def add_new_socket_def by metis
    let ?u = "t\<lparr>pending_downloads := l\<rparr>"
    have "write_to_fd k (encode (PDownload (dl_filename r))) ?u =
        (Inr 0, after_send k (encode (PDownload (dl_filename r))) ?u)"
      using assms(5) t by (simp add: write_to_fd_free after_send_def)
    then have "answer_local_download_request r s =
        (Inr (), after_send k (encode (PDownload (dl_filename r))) ?u)"
      using sent k l(1) assms(1,4,8)
      by (simp add: answer_local_download_request_def bnd_run seq_run Let_def search_file_run
          write_to_packet_run write_lstr_run wf_lstr_def)
    then show ?thesis using sent k l(2) by auto
  qed
qed

definition sample_download :: download_request_t where
  "sample_download = \<lparr>dl_ip = cs ''10.0.0.4'', dl_port = cs ''2000'', dl_filename = cs ''film''\<rparr>"

definition calling_servent :: server_t where
  "calling_servent = sample_servent\<lparr>script := (\<lambda>_. [])(SocketCall := [9], ConnectCall := [0])\<rparr>"

theorem answer_local_download_cases_witness:
  "\<exists>u l. answer_local_download_request sample_download calling_servent = (Inr (), u) \<and> repr l [9] \<and>
     pending_downloads u = l \<and> last (evs u) = Wrote 9 (encode (PDownload (cs ''film'')))"
proof -
  let ?s = calling_servent and ?r = sample_download
  have c: "connect_to (dl_ip ?r) (dl_port ?r) ?s = (Inr (CONNECT_OK, Some 9), snd (connect_to (dl_ip ?r) (dl_port ?r) ?s))"
    by (simp add: connect_to_def connect_fuel_def connect_loop.simps bnd_run sys_def calling_servent_def
        sample_servent_def sample_download_def)
  have f: "forks ?s" "\<not> has_entry ?s (dl_filename ?r)"
    using sample_entries by (simp_all add: calling_servent_def sample_download_def forks_def has_entry_def entries_def)
  have "repr (pending_downloads ?s) []" "create (pending_downloads ?s) = add_new_socket" "wx ?s fd = []" for fd
    by (simp_all add: calling_servent_def) (simp add: sample_servent_def list_create_def)
  then show ?thesis
    using answer_local_download_cases [OF f(1) _ _ _ _ _ _ c, of "[]"] f(2)
    by (auto simp: sample_download_def after_send_def)
qed

text \<open>What a write without \<open>O_TRUNC\<close> leaves in the file.\<close>

lemma map_of_put_file:
  "map_of (put_file path new fl) q =
     (if q = path then Some (overwrite (case map_of fl path of None \<Rightarrow> [] | Some old \<Rightarrow> old) new)
      else map_of fl q)"
proof -
  have "map_of (filter (\<lambda>f. fst f \<noteq> path) fl) q = map_of fl q" if "q \<noteq> path"
    using that by (induction fl) auto
  then show ?thesis by (simp add: put_file_def)
qed

lemma store_file_run:
  "opens s \<Longrightarrow> store_file path bs s = (Inr (), s\<lparr>files := put_file path bs (files s)\<rparr>)"
  by (simp add: store_file_def bnd_run sys_script opens_def)

text \<open>
  A file that arrives is written to the search directory under its name, and the local
  client is told.
\<close>

lemma download_answer_stored:
  assumes "avail sk s = tl (encode (PDownloadFile f content)) @ rest" and "wf_lstr f"
    and "Suc (length content) < 2 ^ 32" and "opens s" and "wx s (client_socket s) = []"
  shows "handle_remote_download_answer sk s = (Inr (),
    after_send (client_socket s) (encode (PIntDownloadDone f))
      ((skip_rx sk (length (tl (encode (PDownloadFile f content)))) s)
        \<lparr>files := put_file (full_name f) content (files s)\<rparr>))"
proof -
  let ?s1 = "skip_rx sk 1 s"
  let ?s2 = "skip_rx sk 1 ?s1"
  let ?s3 = "skip_rx sk (length f) ?s2"
  let ?s4 = "skip_rx sk 4 ?s3"
  let ?s5 = "skip_rx sk (length content) ?s4"
  have f: "length f < 256" "c_str f = f" using assms(2) by (simp_all add: wf_lstr_def)
  have a0: "avail sk s = ANSWER_CODE_REMOTE_FOUND # u8 (length f) # f @ le32 (length content) @ content @ rest"
    using assms(1) by (simp add: enc_lstr_def)
  then have a1: "avail sk ?s1 = u8 (length f) # f @ le32 (length content) @ content @ rest" by simp
  then have a2: "avail sk ?s2 = f @ le32 (length content) @ content @ rest" by (subst avail_skip_rx) simp_all
  then have a3: "avail sk ?s3 = le32 (length content) @ content @ rest" by (subst avail_skip_rx) simp_all
  then have a4: "avail sk ?s4 = content @ rest" by (subst avail_skip_rx) simp_all
  have r: "read_u8 sk s = (Inr ANSWER_CODE_REMOTE_FOUND, ?s1)"
    "read_u8 sk ?s1 = (Inr (u8 (length f)), ?s2)"
    "read_buf sk (length f) ?s2 = (Inr f, ?s3)"
    "read_buf sk 4 ?s3 = (Inr (le32 (length content)), ?s4)"
    "read_buf sk (length content) ?s4 = (Inr content, ?s5)"
    using a0 a1 a2 a3 a4 by (simp_all add: read_u8_avail read_buf_avail del: skip_rx_skip_rx avail_skip_rx)
  have s5: "?s5 = skip_rx sk (length (tl (encode (PDownloadFile f content)))) s"
    using a0 by (simp add: add.commute add.left_commute)
  have st: "store_file p b ?s5 = (Inr (), ?s5\<lparr>files := put_file p b (files s)\<rparr>)" for p b
    using assms(4) by (subst store_file_run) (simp_all add: opens_def)
  have c: "client_socket ?s5 = client_socket s" by (simp add: skip_rx_def)
  show ?thesis
    using r st f c assms(3,5) un_le32_le32 [of "length content"] unfolding s5 [symmetric]
    by (simp add: handle_remote_download_answer_def bnd_run seq_run Let_def answer_defs
        write_to_packet_run write_to_fd_free after_send_def enc_lstr_def
        del: skip_rx_skip_rx)
qed

text \<open>A file announced with the largest length is stored as far as it comes, and then the copy of it overruns.\<close>

lemma longest_answer_overruns:
  assumes "avail sk s = ANSWER_CODE_REMOTE_FOUND # u8 (length f) # f @ [255, 255, 255, 255] @ rest" and "length f < 256"
  shows "fst (handle_remote_download_answer sk s) = Inl (UB OutOfBounds)"
proof -
  let ?s1 = "skip_rx sk 1 s"
  let ?s2 = "skip_rx sk 1 ?s1"
  let ?s3 = "skip_rx sk (length f) ?s2"
  let ?s4 = "skip_rx sk 4 ?s3"
  have a1: "avail sk ?s1 = u8 (length f) # f @ [255, 255, 255, 255] @ rest" using assms(1) by simp
  then have a2: "avail sk ?s2 = f @ [255, 255, 255, 255] @ rest" by (subst avail_skip_rx) simp_all
  then have a3: "avail sk ?s3 = [255, 255, 255, 255] @ rest" by (subst avail_skip_rx) simp_all
  have r: "read_u8 sk s = (Inr ANSWER_CODE_REMOTE_FOUND, ?s1)" "read_u8 sk ?s1 = (Inr (u8 (length f)), ?s2)"
    "read_buf sk (length f) ?s2 = (Inr f, ?s3)" "read_buf sk 4 ?s3 = (Inr [255, 255, 255, 255], ?s4)"
    using assms(1) a1 a2 a3 by (simp_all add: read_u8_avail read_buf_avail del: skip_rx_skip_rx avail_skip_rx)
  have len: "un_le32 [255, 255, 255, 255] = 4294967295" by simp
  obtain buffer t where b: "read_buf sk 4294967295 ?s4 = (Inr buffer, t)" using read_buf_total by blast
  obtain q v where "sys OpenCall t = (Inr q, v)" using sys_Inr by blast
  then have "\<exists>u. store_file (full_name (c_str f)) buffer t = (Inr (), u)"
    by (cases "q = - 1") (simp_all add: store_file_def bnd_run)
  then obtain u where "store_file (full_name (c_str f)) buffer t = (Inr (), u)" by blast
  then show ?thesis
    using r b len assms(2) by (simp add: handle_remote_download_answer_def bnd_run seq_run Let_def answer_defs
        del: skip_rx_skip_rx un_le32.simps)
qed

end
