(* ===== verification/Server_Loop.thy ===== *)
theory Server_Loop
  imports Server_Join Server_User Server_Requests
begin

text \<open>
  \<open>server.c\<close>: the start of a servent, the turns of its loop, and its end. A turn is the body
  of the \<open>while\<close> loop, given the two readings of the clock it takes; between any two turns
  SIGINT may strike.
\<close>

section \<open>The end\<close>

text \<open>
  \<open>close(*(int*)head)\<close> reads the low half of the first field of the cell, the pointer to the
  next one: 0 in the last cell, the bytes of an address in the others.
\<close>

definition close_first_field :: "addr \<Rightarrow> unit server_prog" where
  "close_first_field p =
     bnd (gets (\<lambda>s. cells (awaiting_sockets s) p)) (\<lambda>c. case c of
       None \<Rightarrow> halt (UB UseAfterFree)
     | Some c \<Rightarrow> if nxt c = 0 then sys_close 0 else bnd junk_int sys_close)"

primrec close_neighbours :: "nat list \<Rightarrow> unit server_prog" where
  "close_neighbours [] = ret ()"
| "close_neighbours (i # is) =
     bnd (gets (\<lambda>s. sc_sock (neighbours s ! i))) (\<lambda>sk.
     seq (if sk \<noteq> - 1 then sys_close sk else ret ())
    (seq (modify (\<lambda>s. s\<lparr>neighbours := (neighbours s)[i := (neighbours s ! i)\<lparr>sc_sock := - 1\<rparr>]\<rparr>))
         (close_neighbours is)))"

definition clear_request :: "request_t \<Rightarrow> unit server_prog" where
  "clear_request r = (case r of
       REQUEST_DOWNLOAD_LOCAL d \<Rightarrow> ret ()
     | REQUEST_DOWNLOAD_REMOTE d \<Rightarrow> sys_close (rdl_socket d)
     | REQUEST_SEARCH_LOCAL name \<Rightarrow> ret ()
     | REQUEST_SEARCH_REMOTE q \<Rightarrow> sys_close (source_sock q))"

text \<open>A loop over a list without an early return.\<close>

definition each :: "(server_t \<Rightarrow> 'a list_t) \<Rightarrow> (addr \<Rightarrow> 'a \<Rightarrow> unit server_prog) \<Rightarrow> unit server_prog" where
  "each getf body =
     bnd (foreach getf (\<lambda>p x. bnd (body p x) (\<lambda>_. ret (None :: unit option)))) (\<lambda>_. ret ())"

definition clear_server :: "unit server_prog" where
  "clear_server =
     bnd (gets listening_socket) (\<lambda>ls. seq (sys_close ls) (
     bnd (gets client_socket) (\<lambda>cs. seq (sys_close cs) (
     seq (close_neighbours [0..<MAX_NEIGHBOURS])
    (seq (each awaiting_sockets (\<lambda>p _. close_first_field p))
    (seq (each received_search_requests (\<lambda>_ _. ret ()))
    (seq (zoom received_search_requests put_logs list_destroy)
    (seq (each awaiting_sockets (\<lambda>_ sk. sys_close sk))
    (seq (zoom awaiting_sockets put_awaiting list_destroy)
    (seq (each pending_requests (\<lambda>_ r. clear_request r))
    (seq (zoom pending_requests put_requests list_destroy)
    (seq (each pending_downloads (\<lambda>_ sk. sys_close sk))
         (zoom pending_downloads put_downloads list_destroy)))))))))))))"

section \<open>The local client connects\<close>

definition HANDSHAKE_OK :: int where "HANDSHAKE_OK = - 1"
definition HANDSHAKE_BAD_OPCODE :: int where "HANDSHAKE_BAD_OPCODE = - 2"
definition HANDSHAKE_ALREADY_SHAKED :: int where "HANDSHAKE_ALREADY_SHAKED = - 3"

lemmas handshake_codes = HANDSHAKE_OK_def HANDSHAKE_BAD_OPCODE_def HANDSHAKE_ALREADY_SHAKED_def

definition handshake :: "int \<Rightarrow> int server_prog" where
  "handshake sk =
     bnd (gets handshake_flag) (\<lambda>done.
     if done = 1 then ret HANDSHAKE_ALREADY_SHAKED
     else seq (modify (\<lambda>s. s\<lparr>client_socket := sk\<rparr>)) (
       bnd (read_u8 sk) (\<lambda>client_data.
       if client_data \<noteq> CMSG_INT_HANDSHAKE then ret HANDSHAKE_BAD_OPCODE
       else bnd (write_to_fd sk [SMSG_INT_HANDSHAKE]) (\<lambda>_.
         seq (modify (\<lambda>s. s\<lparr>handshake_flag := 1\<rparr>)) (ret HANDSHAKE_OK)))))"

definition handle_handshake_result :: "int \<Rightarrow> unit server_prog" where
  "handle_handshake_result result =
     (if result = HANDSHAKE_BAD_OPCODE then
        seq clear_server (seq (emit SigintParent) (halt (Exit 1)))
      else ret ())"

definition handle_new_socket :: "int \<Rightarrow> unit server_prog" where
  "handle_new_socket new_socket = push_awaiting new_socket"

text \<open>
  The buffer for the address comes from \<open>malloc\<close> and is never NULL: the branch for NULL is dead.
\<close>

definition handle_accept_result :: "int \<Rightarrow> unit server_prog" where
  "handle_accept_result result =
     (if result = ACCEPT_ERR_TIMEOUT then ret ()
      else if result = - 1 then ret ()
      else bnd (extract_ip_port_from_socket result 1) (\<lambda>(i, p).
        bnd (as_string i) (\<lambda>ip.
        bnd (as_string p) (\<lambda>port.
        if ip = cs ''127.0.0.1'' \<or> ip = cs ''0000:0000:0000:0000:0000:0000:0000:0001'' then
          bnd (handshake result) handle_handshake_result
        else handle_new_socket result))))"

section \<open>Sockets that wait\<close>

definition AWAIT_EMPTY :: int where "AWAIT_EMPTY = 0"
definition AWAIT_CLOSE :: int where "AWAIT_CLOSE = 1"
definition AWAIT_KEEP :: int where "AWAIT_KEEP = 2"

lemmas await_codes = AWAIT_EMPTY_def AWAIT_CLOSE_def AWAIT_KEEP_def

definition handle_awaiting_socket :: "int \<Rightarrow> int server_prog" where
  "handle_awaiting_socket sk =
     bnd (poll_fd sk) (\<lambda>res.
     if res = 0 then ret AWAIT_EMPTY
     else bnd (read_u8 sk) (\<lambda>opcode.
       if opcode = CMSG_NEIGHBOURS then seq (compute_and_send_neighbours sk) (ret AWAIT_CLOSE)
       else if opcode = CMSG_JOIN then
         bnd (handle_join_request sk) (\<lambda>r. ret (if r = 0 then AWAIT_CLOSE else AWAIT_KEEP))
       else if opcode = CMSG_DOWNLOAD then
         seq (handle_remote_download_request sk) (ret AWAIT_KEEP)
       else ret AWAIT_CLOSE))"

definition awaiting_body :: "int \<Rightarrow> bool server_prog" where
  "awaiting_body sk =
     bnd (handle_awaiting_socket sk) (\<lambda>res.
     if res = AWAIT_EMPTY then ret False
     else seq (if res = AWAIT_CLOSE then sys_close sk else ret ()) (ret True))"

definition handle_awaiting_sockets :: "unit server_prog" where
  "handle_awaiting_sockets = sweep awaiting_sockets put_awaiting awaiting_body"

section \<open>Neighbours\<close>

definition handle_neighbour :: "nat \<Rightarrow> int server_prog" where
  "handle_neighbour i =
     bnd (gets (\<lambda>s. sc_sock (neighbours s ! i))) (\<lambda>sk.
     bnd (poll_fd sk) (\<lambda>poll_res.
     if poll_res = 0 then ret 0
     else bnd (read_u8 sk) (\<lambda>opcode.
       if opcode = CMSG_SEARCH_REQUEST then seq (handle_remote_search_request sk) (ret 0)
       else if opcode = CMSG_LEAVE then ret 1
       else if opcode = SMSG_SEARCH_REQUEST then seq (handle_remote_search_answer sk) (ret 0)
       else ret 0)))"

primrec handle_neighbours_loop :: "nat list \<Rightarrow> int server_prog" where
  "handle_neighbours_loop [] = ret 0"
| "handle_neighbours_loop (i # is) =
     bnd (gets (\<lambda>s. sc_sock (neighbours s ! i))) (\<lambda>sk.
     if sk \<noteq> - 1 then
       bnd (handle_neighbour i) (\<lambda>remove.
       if remove = 1 then
         bnd (handle_leave i) (\<lambda>res. if res = 1 then ret 1 else handle_neighbours_loop is)
       else handle_neighbours_loop is)
     else handle_neighbours_loop is)"

definition handle_neighbours :: "int server_prog" where
  "handle_neighbours = handle_neighbours_loop [0..<MAX_NEIGHBOURS]"

text \<open>The names are logged: they are read as strings.\<close>

primrec display_loop :: "socket_contact_t list \<Rightarrow> unit server_prog" where
  "display_loop [] = ret ()"
| "display_loop (n # ns) =
     (if sc_sock n \<noteq> - 1 then
        bnd (extract_ip_port_from_socket (sc_sock n) 1) (\<lambda>(i, p).
        bnd (as_string i) (\<lambda>_. bnd (as_string p) (\<lambda>_. bnd (deref_port (sc_port n)) (\<lambda>_.
        display_loop ns))))
      else display_loop ns)"

definition display_neighbours :: "unit server_prog" where
  "display_neighbours = bnd (gets neighbours) display_loop"

section \<open>The client, the requests, the downloads\<close>

definition handle_client :: "int server_prog" where
  "handle_client =
     bnd (gets client_socket) (\<lambda>fd.
     bnd (poll_fd fd) (\<lambda>res.
     if res = 0 then ret 0
     else bnd (read_u8 fd) (\<lambda>opcode.
       if opcode = CMSG_INT_EXIT then seq leave_network (ret 1)
       else if opcode = CMSG_INT_SEARCH then seq handle_local_search_request (ret 0)
       else if opcode = CMSG_INT_DOWNLOAD then seq handle_local_download_request (ret 0)
       else ret 0)))"

definition handle_pending_request :: "request_t \<Rightarrow> unit server_prog" where
  "handle_pending_request r = (case r of
       REQUEST_SEARCH_LOCAL name \<Rightarrow> answer_local_search_request name
     | REQUEST_SEARCH_REMOTE q \<Rightarrow> answer_remote_search_request q
     | REQUEST_DOWNLOAD_LOCAL d \<Rightarrow> answer_local_download_request d
     | REQUEST_DOWNLOAD_REMOTE d \<Rightarrow> answer_remote_download_request d)"

definition handle_pending_requests :: "unit server_prog" where
  "handle_pending_requests =
     sweep pending_requests put_requests (\<lambda>r. seq (handle_pending_request r) (ret True))"

definition update_log_timers :: "int \<Rightarrow> unit server_prog" where
  "update_log_timers diff =
     sweep received_search_requests put_logs (\<lambda>l. ret (delete_timer l \<le> diff))"

definition handle_pending_download :: "int \<Rightarrow> int server_prog" where
  "handle_pending_download sk =
     bnd (poll_fd sk) (\<lambda>res.
     if res = 1 then
       bnd (read_u8 sk) (\<lambda>opcode.
       if opcode \<noteq> SMSG_DOWNLOAD then halt AssertFail
       else seq (handle_remote_download_answer sk) (ret 1))
     else ret 0)"

definition handle_pending_downloads :: "unit server_prog" where
  "handle_pending_downloads =
     sweep pending_downloads put_downloads
       (\<lambda>sk. bnd (handle_pending_download sk) (\<lambda>remove. ret (remove \<noteq> 0)))"

section \<open>The loop\<close>

definition LOOP_MIN_DURATION :: int where "LOOP_MIN_DURATION = 50"
definition IN_MILLISECONDS :: int where "IN_MILLISECONDS = 1000"

text \<open>The two variables of the loop.\<close>

record timers =
  print_timer :: int
  time_diff :: int

definition start_timers :: timers where
  "start_timers = \<lparr>print_timer = 10 * IN_MILLISECONDS, time_diff = LOOP_MIN_DURATION\<rparr>"

definition loop_turn :: "int \<times> int \<Rightarrow> int \<times> int \<Rightarrow> timers \<Rightarrow> timers server_prog" where
  "loop_turn begin_time end_time tm =
     bnd (gets listening_socket) (\<lambda>ls.
     bnd (attempt_accept ls) (\<lambda>res.
     seq (handle_accept_result res)
    (seq handle_awaiting_sockets
    (bnd (if print_timer tm \<le> time_diff tm then seq display_neighbours (ret 10000)
          else ret (print_timer tm - time_diff tm)) (\<lambda>pt.
     bnd handle_neighbours (\<lambda>_.
     seq handle_pending_downloads
    (bnd handle_client (\<lambda>c.
     seq (if c = 1 then modify (\<lambda>s. s\<lparr>loop_flag := 0\<rparr>) else ret ())
    (bnd (gets nb_neighbours) (\<lambda>nb.
     seq (if nb \<noteq> 0 then handle_pending_requests else ret ())
    (seq (update_log_timers (time_diff tm)) (
     let d = elapsed_time_since begin_time end_time in
     if d < LOOP_MIN_DURATION then
       seq (emit (Slept (LOOP_MIN_DURATION - d)))
           (ret \<lparr>print_timer = pt, time_diff = LOOP_MIN_DURATION\<rparr>)
     else ret \<lparr>print_timer = pt, time_diff = d\<rparr>))))))))))))"

definition handle_sigint :: "server_t \<Rightarrow> server_t" where
  "handle_sigint s = s\<lparr>loop_flag := 0\<rparr>"

text \<open>
  The loop over the readings of the clock its turns take. Without a further reading it has not
  returned.
\<close>

primrec loop :: "((int \<times> int) \<times> (int \<times> int)) list \<Rightarrow> timers \<Rightarrow> int server_prog" where
  "loop [] tm = bnd (gets loop_flag) (\<lambda>f. if f = 1 then halt Diverges else ret 0)"
| "loop (c # clock) tm =
     bnd (gets loop_flag) (\<lambda>f.
     if f = 1 then bnd (loop_turn (fst c) (snd c) tm) (loop clock) else ret 0)"

text \<open>
  The servent before \<open>run_server\<close> has created its socket; the process state is the one given.
  The lists are uninitialised until the network has been joined.
\<close>

definition SERVER_LISTEN_PORT :: cstr where "SERVER_LISTEN_PORT = cs ''10001''"

definition init_server :: "server_t \<Rightarrow> server_t" where
  "init_server s = s\<lparr>client_socket := 0, listening_socket := 0,
     neighbours := replicate MAX_NEIGHBOURS \<lparr>sc_sock = - 1, sc_port = None\<rparr>,
     nb_neighbours := 0, handshake_flag := 0, self_ip := NullPtr\<rparr>"

definition init_lists :: "server_t \<Rightarrow> server_t" where
  "init_lists s = s\<lparr>awaiting_sockets := list_create (Some compare_ints) add_new_socket,
     pending_requests := list_create None add_new_request,
     received_search_requests := list_create None add_new_search_request_log,
     pending_downloads := list_create None add_new_socket\<rparr>"

definition start_server :: "bool \<Rightarrow> cstr option \<Rightarrow> cstr option \<Rightarrow> cstr option \<Rightarrow> unit server_prog" where
  "start_server first_machine listen_port ip port =
     seq (modify init_server) (
     bnd (create_listening_socket (case listen_port of None \<Rightarrow> SERVER_LISTEN_PORT | Some p \<Rightarrow> p)) (\<lambda>ls.
     if ls < 0 then halt (Exit 1)
     else seq (modify (\<lambda>s. s\<lparr>listening_socket := ls\<rparr>))
    (seq (if \<not> first_machine then
            bnd (join_network ip port) (\<lambda>res.
            if res = - 1 then seq (bnd (gets listening_socket) sys_close) (halt (Exit 1)) else ret ())
          else ret ())
         (modify init_lists))))"

definition run_server :: "((int \<times> int) \<times> (int \<times> int)) list \<Rightarrow> bool \<Rightarrow> cstr option \<Rightarrow> cstr option
    \<Rightarrow> cstr option \<Rightarrow> int server_prog" where
  "run_server clock first_machine listen_port ip port =
     seq (start_server first_machine listen_port ip port)
    (seq (bnd (loop clock start_timers) (\<lambda>_. ret ()))
    (seq leave_network
    (seq clear_server (ret 0))))"

end
