(* ===== verification/Server_Invariant.thy ===== *)
theory Server_Invariant
  imports Server_Loop
begin

text \<open>
  The invariant of a running servent: it counts its neighbours, it waits for descriptors only,
  and its log of searches is empty. Every turn of the loop keeps it, whatever the network
  sends and however the system calls answer; so does SIGINT, and \<open>run_server\<close> establishes it.
\<close>

section \<open>The invariant\<close>

definition servent_ok :: "server_t \<Rightarrow> bool" where
  "servent_ok s \<longleftrightarrow> neighbours_ok s \<and> good_socks (awaiting_sockets s) \<and>
     repr (received_search_requests s) []"

lemma keeps_conj: "keeps P m \<Longrightarrow> keeps Q m \<Longrightarrow> keeps (\<lambda>s. P s \<and> Q s) m"
  by (auto simp: keeps_def)

definition lists_ok :: "server_t \<Rightarrow> bool" where
  "lists_ok s \<longleftrightarrow> good_socks (awaiting_sockets s) \<and> repr (received_search_requests s) []"

lemma servent_ok_alt: "servent_ok = (\<lambda>s. neighbours_ok s \<and> lists_ok s)"
  by (auto simp: servent_ok_def lists_ok_def fun_eq_iff)

lemma lists_ok_add: "keeps lists_ok (add_neighbour sk port)"
  unfolding add_neighbour_def
  by (intro keep_rules keeps_modify) (simp add: lists_ok_def)

interpretation sv: join_frame servent_ok
proof (unfold_locales)
  show "keeps servent_ok (add_neighbour sk port)" if "sk \<noteq> - 1" for sk port
    unfolding servent_ok_alt by (intro keeps_conj add_neighbour_keeps lists_ok_add that)
  show "servent_ok (s\<lparr>neighbours := (neighbours s)[i := \<lparr>sc_sock = - 1, sc_port = None\<rparr>],
      nb_neighbours := nb_neighbours s - 1\<rparr>)"
    if "servent_ok s" "i < MAX_NEIGHBOURS" "sc_sock (neighbours s ! i) \<noteq> - 1" for s i
    using that unfolding servent_ok_def by (intro conjI release_neighbour) simp_all
qed (simp_all add: servent_ok_def neighbours_ok_def)

text \<open>
  A handler of a neighbour does not touch the table: the slot it works on stays used.
\<close>

interpretation slot: server_frame "\<lambda>s. servent_ok s \<and> sc_sock (neighbours s ! i) = k" for i k
  by unfold_locales (simp_all add: sv.frames sv.frame_requests sv.frame_downloads)

lemma good_socks_pop_at: "good_socks l \<Longrightarrow> good_socks (snd (list_pop_at p q l))"
  by (auto simp: list_pop_at_def bnd_run seq_run load_def store_nxt_def free_cell_def good_socks_def
      split: option.splits if_splits)

lemma keeps_push_awaiting: "sk \<noteq> - 1 \<Longrightarrow> keeps servent_ok (push_awaiting sk)"
  using good_socks_push
  by (auto simp: keeps_def push_awaiting_def zoom_run servent_ok_def neighbours_ok_def
      split: prod.splits) (metis snd_conv)

section \<open>A turn\<close>

lemma keeps_awaiting_body: "sk \<noteq> - 1 \<Longrightarrow> keeps servent_ok (awaiting_body sk)"
  unfolding awaiting_body_def handle_awaiting_socket_def poll_fd_def
  by (intro keep_rules sv.os_keeps sv.keeps_read_u8 sv.keeps_compute_and_send
      sv.keeps_handle_join_request sv.keeps_handle_remote_download_request)

lemma keeps_handle_awaiting_sockets: "keeps servent_ok handle_awaiting_sockets"
  unfolding handle_awaiting_sockets_def
proof (rule keeps_sweep_stored [where Q = "\<lambda>x. x \<noteq> - 1"])
  show "keeps servent_ok (zoom awaiting_sockets put_awaiting (load p))" for p
    by (auto simp: keeps_def zoom_run load_def servent_ok_def neighbours_ok_def split: option.splits)
  show "keeps servent_ok (zoom awaiting_sockets put_awaiting (list_pop_at p q))" for p q
    using good_socks_pop_at [of _ p q]
    by (auto simp: keeps_def zoom_run servent_ok_def neighbours_ok_def split: prod.splits)
      (metis snd_conv)
qed (auto simp: servent_ok_def good_socks_def intro: keeps_awaiting_body)

lemma keeps_handle_pending_requests: "keeps servent_ok handle_pending_requests"
  unfolding handle_pending_requests_def handle_pending_request_def
  by (rule keeps_sweep)
    (auto simp: sv.frame_requests split: request_t.split intro!: keep_rules
      intro: sv.keeps_answer_local_search sv.keeps_answer_remote_search
        sv.keeps_answer_local_download sv.keeps_answer_remote_download)

lemma keeps_handle_pending_downloads: "keeps servent_ok handle_pending_downloads"
  unfolding handle_pending_downloads_def handle_pending_download_def poll_fd_def
  by (rule keeps_sweep; (simp only: sv.frame_downloads)?)
    (intro keep_rules sv.os_keeps sv.keeps_read_u8 sv.keeps_handle_remote_download_answer)

lemma keeps_update_log_timers: "keeps servent_ok (update_log_timers d)"
proof (rule keepsI)
  fix s assume s: "servent_ok s"
  then obtain l where "update_log_timers d s = (Inr (), s\<lparr>received_search_requests := l\<rparr>)" "repr l []"
    using logs.sweep_field [of "\<lambda>l. ret (delete_timer l \<le> d)" s "[]" "[]" s]
    by (auto simp: servent_ok_def indep_def update_log_timers_def)
  then show "servent_ok (snd (update_log_timers d s))"
    using s by (simp add: servent_ok_def neighbours_ok_def)
qed

lemma keeps_handle_client: "keeps servent_ok handle_client"
  unfolding handle_client_def poll_fd_def
  by (intro keep_rules sv.os_keeps sv.keeps_read_u8 sv.keeps_leave_network
      sv.keeps_handle_local_search sv.keeps_handle_local_download)

lemma display_loop_keeps [keep_rules]: "keeps P (display_loop ns)"
proof (induction ns)
  case Nil
  show ?case unfolding display_loop.simps by (rule keeps_ret)
next
  case (Cons n ns)
  show ?case unfolding display_loop.simps by (intro keep_rules Cons.IH)
qed

lemma keeps_handle_neighbours: "keeps servent_ok handle_neighbours"
proof -
  have "servent_ok s \<Longrightarrow> list_all (\<lambda>i. i < MAX_NEIGHBOURS) is \<Longrightarrow>
      servent_ok (snd (handle_neighbours_loop is s))" for "is" s
  proof (induction "is" arbitrary: s)
    case (Cons i "is")
    let ?k = "sc_sock (neighbours s ! i)"
    have kp: "keeps (\<lambda>s. servent_ok s \<and> sc_sock (neighbours s ! i) = ?k) (handle_neighbour i)"
      unfolding handle_neighbour_def poll_fd_def
      by (intro keep_rules slot.os_keeps slot.keeps_read_u8
          slot.keeps_handle_remote_search_request slot.keeps_handle_remote_search_answer)
    obtain r t where h: "handle_neighbour i s = (r, t)" by fastforce
    then have t: "servent_ok t" "sc_sock (neighbours t ! i) = ?k"
      using keepsD [OF kp, of s] Cons.prems by auto
    obtain r2 u where l: "handle_leave i t = (r2, u)" by fastforce
    have u: "servent_ok u" if "?k \<noteq> - 1"
      using sv.handle_leave_inv [of t i] t l that Cons.prems by simp
    show ?case
      using h l t u Cons by (auto simp: bnd_run split: sum.splits)
  qed simp
  then show ?thesis
    by (auto simp: keeps_def handle_neighbours_def list_all_iff)
qed

lemma handle_accept_maintains: "maintains servent_ok (handle_accept_result r)"
proof -
  have m: "keeps servent_ok (modify (\<lambda>s. s\<lparr>client_socket := k\<rparr>))"
    "keeps servent_ok (modify (\<lambda>s. s\<lparr>handshake_flag := k\<rparr>))" for k
    by (auto intro!: keeps_modify simp: servent_ok_def neighbours_ok_def)
  have hs: "keeps servent_ok (handshake k)" for k
    unfolding handshake_def by (intro keep_rules m sv.keeps_read_u8 sv.keeps_write_to_fd)
  have hr: "maintains servent_ok (handle_handshake_result k)" for k
    by (auto simp: maintains_def handle_handshake_result_def elim!: seq_InrE)
  have nw: "maintains servent_ok (handle_new_socket k)" if "k \<noteq> - 1" for k
    unfolding handle_new_socket_def by (intro maintains_keeps keeps_push_awaiting that)
  have ms: "maintains P (extract_ip_port_from_socket a b)" "maintains P (as_string c)" for P a b c
    by (intro maintains_keeps keep_rules)+
  show ?thesis
    unfolding handle_accept_result_def
    by (intro maintain_rules maintains_keeps [OF hs] hr nw ms maintains_keeps [OF keeps_ret]) simp
qed

lemma loop_turn_maintains: "maintains servent_ok (loop_turn b e tm)"
proof -
  have flag: "keeps servent_ok (modify (\<lambda>s. s\<lparr>loop_flag := k\<rparr>))" for k
    by (auto intro!: keeps_modify simp: servent_ok_def neighbours_ok_def)
  have ds: "keeps servent_ok display_neighbours"
    unfolding display_neighbours_def by (intro keep_rules)
  note steps = maintains_keeps [OF keeps_gets] maintains_keeps [OF keeps_ret]
    maintains_keeps [OF sv.keeps_attempt_accept] handle_accept_maintains
    maintains_keeps [OF keeps_handle_awaiting_sockets] maintains_keeps [OF ds]
    maintains_keeps [OF keeps_handle_neighbours] maintains_keeps [OF keeps_handle_pending_downloads]
    maintains_keeps [OF keeps_handle_client] maintains_keeps [OF flag]
    maintains_keeps [OF keeps_handle_pending_requests] maintains_keeps [OF keeps_update_log_timers]
    maintains_keeps [OF sv.keeps_emit]
  show ?thesis
    unfolding loop_turn_def Let_def by (intro maintain_rules steps)
qed

section \<open>Reachable states\<close>

text \<open>
  A servent between two turns. \<open>boots\<close> is the end of \<open>start_server\<close> on any process state;
  then turns follow while the flag is set, and SIGINT at any moment.
\<close>

inductive reachable :: "server_t \<Rightarrow> timers \<Rightarrow> bool" where
  boots: "start_server first_machine listen_port ip port s = (Inr (), t) \<Longrightarrow> reachable t start_timers"
| turn: "reachable s tm \<Longrightarrow> loop_flag s = 1 \<Longrightarrow> loop_turn b e tm s = (Inr tm', t) \<Longrightarrow> reachable t tm'"
| sigint: "reachable s tm \<Longrightarrow> reachable (handle_sigint s) tm"

inductive_cases reachableE: "reachable s tm"

lemma start_server_neighbours: "start_server fm lp ip port s = (Inr (), t) \<Longrightarrow> servent_ok t"
proof -
  assume run: "start_server fm lp ip port s = (Inr (), t)"
  have ini: "neighbours_ok (init_server s)"
    by (rule neighbours_okI) (auto simp: init_server_def used_def)
  define pre where "pre = bnd (create_listening_socket (case lp of None \<Rightarrow> SERVER_LISTEN_PORT | Some p \<Rightarrow> p)) (\<lambda>ls.
     if ls < 0 then halt (Exit 1)
     else seq (modify (\<lambda>s. s\<lparr>listening_socket := ls\<rparr>))
    (if \<not> fm then
            bnd (join_network ip port) (\<lambda>res.
            if res = - 1 then seq (bnd (gets listening_socket) sys_close) (halt (Exit 1)) else ret ())
          else ret ()))"
  have kp: "keeps neighbours_ok pre"
    unfolding pre_def
    by (intro keep_rules nb.keeps_create_listening_socket nbj.keeps_join_network nb.os_keeps keeps_modify)
      (simp add: neighbours_ok_def)
  have "start_server fm lp ip port s = seq pre (modify init_lists) (init_server s)"
    by (auto simp: pre_def start_server_def seq_run bnd_run split: prod.splits sum.splits)
  with run have "seq pre (modify init_lists) (init_server s) = (Inr (), t)" by simp
  then obtain a u where u: "pre (init_server s) = (Inr a, u)" "modify init_lists u = (Inr (), t)"
    by (rule seq_InrE)
  have "neighbours_ok u" by (rule keepsD [OF kp ini u(1)])
  then show ?thesis
    using u(2) [symmetric] by (simp add: servent_ok_def init_lists_def neighbours_ok_def good_socks_create repr_create)
qed

lemma reachable_ok: "reachable s tm \<Longrightarrow> servent_ok s"
proof (induction rule: reachable.induct)
  case (boots fm lp ip port s t)
  then show ?case by (rule start_server_neighbours)
next
  case (turn s tm b e tm' t)
  show ?case by (rule maintainsD [OF loop_turn_maintains turn.IH turn.hyps(3)])
next
  case (sigint s tm)
  then show ?case by (simp add: handle_sigint_def servent_ok_def neighbours_ok_def)
qed

section \<open>Properties\<close>

text \<open>
  C1. In every state a servent reaches, through any turns, whatever the network sends and however
  the calls answer, and with SIGINT at any moment, its table has five slots, its counter of
  neighbours counts the used ones and stays between 0 and 5, every used slot has a contact port,
  and no socket that waits is -1.
\<close>

theorem reachable_servent_ok:
  assumes "reachable s tm"
  shows "length (neighbours s) = MAX_NEIGHBOURS \<and> nb_neighbours s = int (used (neighbours s)) \<and>
    0 \<le> nb_neighbours s \<and> nb_neighbours s \<le> int MAX_NEIGHBOURS \<and>
    (\<forall>n \<in> set (neighbours s). sc_sock n \<noteq> - 1 \<longrightarrow> sc_port n \<noteq> None) \<and>
    (\<forall>p c. cells (awaiting_sockets s) p = Some c \<longrightarrow> dat c \<noteq> - 1)"
  using reachable_ok [OF assms] neighbours_ok_bounds [of s]
  unfolding servent_ok_def neighbours_ok_def good_socks_def by blast

definition booting_servent :: server_t where
  "booting_servent = sample_servent\<lparr>script := (\<lambda>_. [])(SocketCall := [3], SetsockoptCall := [0],
     BindCall := [0], ListenCall := [0])\<rparr>"

lemma booting_starts: "\<exists>t. start_server True None None None booting_servent = (Inr (), t)"
  by (simp add: start_server_def seq_run bnd_run create_listening_socket_def connect_fuel_def sys_def
      listen_loop.simps booting_servent_def init_server_def sample_servent_def)

theorem reachable_servent_ok_witness:
  "\<exists>t. start_server True None None None booting_servent = (Inr (), t) \<and>
     length (neighbours t) = 5 \<and> nb_neighbours t \<le> 5"
proof -
  obtain t where t: "start_server True None None None booting_servent = (Inr (), t)"
    using booting_starts by blast
  show ?thesis
    using t reachable_servent_ok [OF reachable.boots [OF t]] by (simp add: MAX_NEIGHBOURS_def)
qed

text \<open>
  C33. The log of searches stays empty, so in every reachable state every search counts as new: a
  search that comes round again is not recognised.
\<close>

theorem reachable_always_unique:
  "reachable s tm \<Longrightarrow> repr (received_search_requests s) [] \<and> check_unique_request r s = (Inr 1, s)"
  using reachable_ok [of s tm] check_unique_empty by (simp add: servent_ok_def)

theorem reachable_always_unique_witness:
  "\<exists>t. start_server True None None None booting_servent = (Inr (), t) \<and>
     check_unique_request sample_search t = (Inr 1, t)"
proof -
  obtain t where t: "start_server True None None None booting_servent = (Inr (), t)"
    using booting_starts by blast
  then show ?thesis using reachable_always_unique [OF reachable.boots [OF t]] by blast
qed

end
