(* ===== verification/Server_Fields.thy ===== *)
theory Server_Fields
  imports Server_Loop
begin

text \<open>
  The handlers the cursor loops of \<open>server.c\<close> run do not look at the list being walked, except
  through the loop itself. \<open>indep\<close> says so of a program; the rules of \<open>indep_rules\<close> push it
  through the programs of the development, from two contracts of the writer of the field. The
  second part uses it: what a loop leaves in its list.
\<close>

named_theorems indep_rules "rules for programs that do not look at a field"

section \<open>Programs apart from a field\<close>

lemma indepD: "indep putf m \<Longrightarrow> m s = (r, t) \<Longrightarrow> m (putf l s) = (r, putf l t)"
  by (simp add: indep_def)

lemma indepI: "(\<And>l s r t. m s = (r, t) \<Longrightarrow> m (putf l s) = (r, putf l t)) \<Longrightarrow> indep putf m"
  by (simp add: indep_def split: prod.splits)

lemma indep_ret [indep_rules]: "indep putf (ret a)"
  by (simp add: indep_def)

lemma indep_halt [indep_rules]: "indep putf (halt e)"
  by (simp add: indep_def)

lemma indep_gets: "(\<And>l s. f (putf l s) = f s) \<Longrightarrow> indep putf (gets f)"
  by (simp add: indep_def)

lemma indep_modify: "(\<And>l s. f (putf l s) = putf l (f s)) \<Longrightarrow> indep putf (modify f)"
  by (simp add: indep_def)

lemma indep_bnd [indep_rules]:
  "indep putf m \<Longrightarrow> (\<And>a. indep putf (f a)) \<Longrightarrow> indep putf (bnd m f)"
  by (rule indepI) (auto simp: bnd_run indep_def split: prod.splits sum.splits)

lemma indep_seq [indep_rules]: "indep putf m \<Longrightarrow> indep putf k \<Longrightarrow> indep putf (seq m k)"
  by (simp add: seq_def indep_bnd)

lemma indep_if [indep_rules]:
  "(b \<Longrightarrow> indep putf m) \<Longrightarrow> (\<not> b \<Longrightarrow> indep putf k) \<Longrightarrow> indep putf (if b then m else k)"
  by simp

lemma indep_case_option [indep_rules]:
  "indep putf m \<Longrightarrow> (\<And>x. indep putf (f x)) \<Longrightarrow> indep putf (case z of None \<Rightarrow> m | Some x \<Rightarrow> f x)"
  by (simp split: option.splits)

lemma indep_case_sum [indep_rules]:
  "(\<And>x. indep putf (f x)) \<Longrightarrow> (\<And>x. indep putf (g x)) \<Longrightarrow>
   indep putf (case z of Inl x \<Rightarrow> f x | Inr x \<Rightarrow> g x)"
  by (simp split: sum.splits)

lemma indep_case_prod [indep_rules]:
  "(\<And>a b. indep putf (f a b)) \<Longrightarrow> indep putf (case z of (a, b) \<Rightarrow> f a b)"
  by (simp split: prod.splits)

lemma indep_case_sockaddr [indep_rules]:
  "(\<And>i p. indep putf (f i p)) \<Longrightarrow> (\<And>i p. indep putf (g i p)) \<Longrightarrow> indep putf h \<Longrightarrow>
   indep putf (case a of Inet i p \<Rightarrow> f i p | Inet6 i p \<Rightarrow> g i p | OtherFamily \<Rightarrow> h)"
  by (simp split: sockaddr.splits)

lemma indep_for_list [indep_rules]:
  assumes "\<And>x. indep putf (body x)"
  shows "indep putf (for_list xs body)"
proof (induction xs)
  case Nil
  show ?case unfolding for_list.simps by (rule indep_ret)
next
  case (Cons x xs)
  show ?case unfolding for_list.simps by (intro indep_rules assms Cons.IH)
qed

lemma indep_zoom:
  assumes "\<And>l s. g (putf l s) = g s" and "\<And>x l s. h x (putf l s) = putf l (h x s)"
  shows "indep putf (zoom g h m)"
  by (rule indepI) (auto simp: zoom_run assms split: prod.splits)

lemma indep_foreach:
  assumes "\<And>l s. g (putf l s) = g s" and "\<And>p x. indep putf (body p x)"
  shows "indep putf (foreach g body)"
proof -
  have "indep putf (foreach_loop g body n p)" for n p
  proof (induction n arbitrary: p)
    case 0
    show ?case unfolding foreach_loop.simps by (intro indep_rules)
  next
    case (Suc n)
    show ?case unfolding foreach_loop.simps
      by (intro indep_rules indep_zoom assms Suc.IH) simp_all
  qed
  then show ?thesis
    unfolding foreach_def by (intro indep_rules indep_gets) (simp_all add: assms)
qed

text \<open>Programs that use no state at all.\<close>

lemma indep_write_to_packet [indep_rules]: "indep putf (write_to_packet p d n)"
  unfolding write_to_packet_def by (intro indep_rules)

lemma indep_write_lstr [indep_rules]: "indep putf (write_lstr p x)"
  unfolding write_lstr_def by (intro indep_rules)

lemma indep_as_string [indep_rules]: "indep putf (as_string x)"
  unfolding as_string_def by (intro indep_rules)

lemma indep_area_string [indep_rules]: "indep putf (area_string x)"
  unfolding area_string_def by (intro indep_rules)

lemma indep_deref [indep_rules]: "indep putf (deref p)"
  unfolding deref_def by (cases p) (auto intro: indep_rules)

lemma indep_deref_port [indep_rules]: "indep putf (deref_port p)"
  unfolding deref_port_def by (intro indep_rules)

lemma indep_int_to_string [indep_rules]: "indep putf (int_to_string x n)"
  unfolding int_to_string_def Let_def by (intro indep_rules)

section \<open>A field apart from the operating system\<close>

locale os_apart =
  fixes putf :: "'a list_t \<Rightarrow> 'z os_scheme \<Rightarrow> 'z os_scheme"
  assumes reads: "rx (putf l s) = rx s" "wx (putf l s) = wx s" "script (putf l s) = script s"
      "junk (putf l s) = junk s" "peername (putf l s) = peername s" "sockname (putf l s) = sockname s"
      "resolver (putf l s) = resolver s" "files (putf l s) = files s" "evs (putf l s) = evs s"
    and writes: "(putf l s)\<lparr>rx := r\<rparr> = putf l (s\<lparr>rx := r\<rparr>)" "(putf l s)\<lparr>wx := w\<rparr> = putf l (s\<lparr>wx := w\<rparr>)"
      "(putf l s)\<lparr>script := c\<rparr> = putf l (s\<lparr>script := c\<rparr>)" "(putf l s)\<lparr>junk := j\<rparr> = putf l (s\<lparr>junk := j\<rparr>)"
      "(putf l s)\<lparr>files := f\<rparr> = putf l (s\<lparr>files := f\<rparr>)" "(putf l s)\<lparr>evs := e\<rparr> = putf l (s\<lparr>evs := e\<rparr>)"
begin

lemma indep_emit: "indep putf (emit e)"
  by (simp add: indep_def emit_run reads writes)

lemma indep_close: "indep putf (sys_close fd)"
  by (simp add: sys_close_def indep_emit)

lemma indep_sys: "indep putf (sys c)"
  by (simp add: indep_def sys_def reads writes split: list.splits)

lemma indep_sys_read: "indep putf (sys_read fd n)"
  by (simp add: indep_def sys_read_def reads writes split: list.splits rd.splits)

lemma indep_sys_write: "indep putf (sys_write fd bs)"
  by (simp add: indep_def sys_write_def reads writes Let_def split: list.splits wr.splits)

lemma indep_take_junk: "indep putf (take_junk n)"
  by (simp add: indep_def take_junk_def reads writes)

lemma indep_junk_int: "indep putf junk_int"
  unfolding junk_int_def by (intro indep_rules indep_take_junk)

lemma indep_sock_name [indep_rules]: "indep putf (gets (sock_name fd r))"
  by (rule indep_gets) (simp add: sock_name_def reads)

lemma indep_write_to_fd: "indep putf (write_to_fd fd bs)"
proof -
  have "write_to_fd fd bs (putf l s) = (case write_to_fd fd bs s of (r, t) \<Rightarrow> (r, putf l t))" for l s
  proof (induction fd bs s rule: write_to_fd.induct)
    case (1 fd bs s)
    obtain r u where w: "sys_write fd bs s = (r, u)" by fastforce
    then have "sys_write fd bs (putf l s) = (r, putf l u)" by (rule indepD [OF indep_sys_write])
    then show ?case
      using w "1" write_to_fd.simps [of fd bs "putf l s"] write_to_fd.simps [of fd bs s]
      by (cases "bs = []") (auto split: sum.splits option.splits)
  qed
  then show ?thesis by (simp add: indep_def)
qed

lemma indep_read_from_fd: "indep putf (read_from_fd fd n)"
proof -
  have "read_loop fd n got (putf l s) = (case read_loop fd n got s of (r, t) \<Rightarrow> (r, putf l t))" for got l s
  proof (induction fd n got s rule: read_loop.induct)
    case (1 fd n got s)
    obtain r u where w: "sys_read fd (n - length got) s = (r, u)" by fastforce
    then have "sys_read fd (n - length got) (putf l s) = (r, putf l u)" by (rule indepD [OF indep_sys_read])
    then show ?case
      using w "1" read_loop.simps [of fd n got "putf l s"] read_loop.simps [of fd n got s]
      by (cases "length got < n") (auto split: sum.splits option.splits)
  qed
  then show ?thesis by (simp add: indep_def read_from_fd_def)
qed

lemma indep_read_buf: "indep putf (read_buf fd n)"
  unfolding read_buf_def by (intro indep_rules indep_read_from_fd indep_take_junk)

lemma indep_read_u8: "indep putf (read_u8 fd)"
  unfolding read_u8_def by (intro indep_rules indep_read_buf)

lemma indep_read_lstr: "indep putf (read_lstr fd)"
  unfolding read_lstr_def read_string_def by (intro indep_rules indep_read_buf indep_read_u8)

lemma indep_read_larea: "indep putf (read_larea fd)"
  unfolding read_larea_def read_area_def
  by (intro indep_rules indep_read_u8 indep_read_buf indep_take_junk)

lemma indep_extract_ip_port: "indep putf (extract_ip_port_from_socket fd r)"
  unfolding extract_ip_port_from_socket_def by (intro indep_rules)

lemma indep_extract_ip: "indep putf (extract_ip_from_socket fd r)"
  unfolding extract_ip_from_socket_def by (intro indep_rules)

lemma indep_extract_port: "indep putf (extract_port_from_socket fd r)"
  unfolding extract_port_from_socket_def by (intro indep_rules)

lemma indep_applog: "indep putf (applog level fmt va)"
  unfolding applog_def log_internal_def vsnprintf_def by (intro indep_rules indep_emit)

lemma indep_connect_loop: "indep putf (connect_loop n ais)"
proof (induction n ais rule: connect_loop.induct)
  case (4 n nm ais)
  then show ?case
    unfolding connect_loop.simps by (intro indep_rules indep_sys indep_close) auto
qed (simp_all only: connect_loop.simps indep_ret indep_halt)

lemma indep_connect_to: "indep putf (connect_to ip port)"
  unfolding connect_to_def
  by (intro indep_rules indep_gets indep_connect_loop indep_applog)
    (simp_all add: reads connect_fuel_def)

end

section \<open>A field apart from the servent\<close>

locale server_apart = os_apart putf for putf :: "'a list_t \<Rightarrow> server_t \<Rightarrow> server_t" +
  assumes server_reads: "neighbours (putf l s) = neighbours s" "nb_neighbours (putf l s) = nb_neighbours s"
      "client_socket (putf l s) = client_socket s" "listening_socket (putf l s) = listening_socket s"
      "self_ip (putf l s) = self_ip s" "received_search_requests (putf l s) = received_search_requests s"
    and server_writes: "(putf l s)\<lparr>neighbours := ns, nb_neighbours := n\<rparr> = putf l (s\<lparr>neighbours := ns, nb_neighbours := n\<rparr>)"
      "(putf l s)\<lparr>self_ip := x\<rparr> = putf l (s\<lparr>self_ip := x\<rparr>)"
begin

lemmas apart = reads writes server_reads server_writes

lemma indep_own_port: "indep putf own_port"
  unfolding own_port_def by (intro indep_rules indep_gets indep_extract_port) (simp add: apart)

lemma indep_write_self: "indep putf (write_self p)"
  unfolding write_self_def by (intro indep_rules indep_gets indep_own_port) (simp add: apart)

lemma indep_search_file: "indep putf (search_file f)"
  unfolding search_file_def search_file_fork_def
  by (intro indep_rules indep_gets indep_sys indep_emit indep_take_junk) (simp add: apart entries_def)

lemma indep_broadcast: "indep putf (broadcast_packet bs)"
  unfolding broadcast_packet_def by (intro indep_rules indep_gets indep_write_to_fd) (simp add: apart)

lemma indep_broadcast_to: "indep putf (broadcast_packet_to fds n bs)"
  unfolding broadcast_packet_to_def by (intro indep_rules indep_write_to_fd)

lemma indep_answer_local_search: "indep putf (answer_local_search_request name)"
  unfolding answer_local_search_request_def Let_def
  by (intro indep_rules indep_gets indep_search_file indep_write_self indep_broadcast indep_write_to_fd)
    (simp_all add: apart)

lemma indep_write_areas: "indep putf (write_areas ms p)"
proof (induction ms arbitrary: p)
  case Nil
  show ?case unfolding write_areas.simps by (intro indep_rules)
next
  case (Cons m ms)
  show ?case unfolding write_areas.simps by (intro indep_rules Cons.IH)
qed

lemma indep_write_machines: "indep putf (write_machines ms p)"
proof (induction ms arbitrary: p)
  case Nil
  show ?case unfolding write_machines.simps by (intro indep_rules)
next
  case (Cons m ms)
  show ?case unfolding write_machines.simps by (intro indep_rules Cons.IH)
qed

lemma indep_junk_ints: "indep putf (junk_ints n)"
proof (induction n)
  case 0
  show ?case unfolding junk_ints.simps by (intro indep_rules)
next
  case (Suc n)
  show ?case unfolding junk_ints.simps by (intro indep_rules indep_junk_int Suc.IH)
qed

lemma indep_send_search_answer: "indep putf (send_search_answer_to_client f n areas)"
  unfolding send_search_answer_to_client_def Let_def
  by (intro indep_rules indep_gets indep_write_areas indep_write_to_fd) (simp_all add: apart)

lemma indep_check_unique: "indep putf (check_unique_request r)"
  unfolding check_unique_request_def by (intro indep_rules indep_foreach) (simp add: apart)

lemma indep_clean_download [indep_rules]: "indep putf (clean_download_request r)"
  by (simp add: indep_ret)

lemma indep_clean_search [indep_rules]: "indep putf (clean_search_request b r)"
  unfolding clean_search_request_def by (intro indep_rules)

lemma indep_answer_remote_search: "indep putf (answer_remote_search_request r)"
  unfolding answer_remote_search_request_def forward_to_local_def Let_def
  by (intro indep_rules indep_gets indep_send_search_answer indep_check_unique indep_search_file
      indep_write_machines indep_write_self indep_junk_ints indep_broadcast_to)
    (simp_all add: apart)

lemma indep_build_download: "indep putf (build_download_answer_header p r c)"
  unfolding build_download_answer_header_def by (intro indep_rules)

lemma indep_send_download_error: "indep putf (send_download_error_response r c)"
  unfolding send_download_error_response_def Let_def
  by (intro indep_rules indep_gets indep_build_download indep_write_to_fd) (simp add: apart)

lemma indep_read_whole_file: "indep putf (read_whole_file path)"
proof -
  have "indep putf (load_file rest buffer)" for rest buffer
    by (rule indepI) (induction rest buffer rule: load_file.induct; subst (asm) load_file.simps;
      subst load_file.simps; auto simp: Let_def split: if_splits)
  then show ?thesis
    unfolding read_whole_file_def by (intro indep_rules indep_gets) (simp_all add: apart)
qed

lemma indep_answer_remote_download: "indep putf (answer_remote_download_request r)"
  unfolding answer_remote_download_request_def write_content_def Let_def
  by (intro indep_rules indep_search_file indep_extract_ip_port indep_write_to_fd indep_close
      indep_read_whole_file)

lemma indep_store_file: "indep putf (store_file path b)"
  unfolding store_file_def by (intro indep_rules indep_sys indep_modify) (simp add: apart)

lemma indep_remote_download_answer: "indep putf (handle_remote_download_answer sk)"
  unfolding handle_remote_download_answer_def Let_def
  by (intro indep_rules indep_gets indep_read_u8 indep_read_lstr indep_read_buf indep_store_file
      indep_write_to_fd indep_send_download_error) (simp_all add: apart)

lemma indep_neighbour_names: "indep putf (neighbour_names ns)"
proof (induction ns)
  case Nil
  show ?case unfolding neighbour_names.simps by (intro indep_rules)
next
  case (Cons n ns)
  show ?case unfolding neighbour_names.simps
    by (intro indep_rules indep_gets Cons.IH) (simp_all add: apart)
qed

lemma indep_write_names: "indep putf (write_names ms p)"
proof (induction ms arbitrary: p)
  case Nil
  show ?case unfolding write_names.simps by (intro indep_rules)
next
  case (Cons m ms)
  show ?case unfolding write_names.simps by (intro indep_rules Cons.IH)
qed

lemma indep_compute_and_send: "indep putf (compute_and_send_neighbours sk)"
  unfolding compute_and_send_neighbours_def send_neighbours_list_def Let_def
  by (intro indep_rules indep_gets indep_neighbour_names indep_write_names indep_write_to_fd)
    (simp_all add: apart)

lemma indep_add_neighbour: "indep putf (add_neighbour sk port)"
  unfolding add_neighbour_def
  by (intro indep_rules indep_gets indep_extract_ip indep_modify) (simp_all add: apart)

lemma indep_handle_join_request: "indep putf (handle_join_request sk)"
  unfolding handle_join_request_def join_answer_def answer_join_request_def Let_def
  by (intro indep_rules indep_gets indep_extract_ip indep_modify indep_read_u8 indep_read_lstr
      indep_sys indep_own_port indep_write_to_fd indep_add_neighbour)
    (simp_all add: apart)

end

interpretation ap_awaiting: server_apart put_awaiting by unfold_locales simp_all
interpretation ap_requests: server_apart put_requests by unfold_locales simp_all
interpretation ap_downloads: server_apart put_downloads by unfold_locales simp_all

section \<open>The bodies of the loops\<close>

lemma indep_push_request: "indep put_awaiting (push_request r)"
  unfolding push_request_def by (rule indep_zoom) simp_all

lemma indep_push_download: "indep put_requests (push_download d)"
  unfolding push_download_def by (rule indep_zoom) simp_all

lemma indep_awaiting_body: "indep put_awaiting (awaiting_body sk)"
  unfolding awaiting_body_def handle_awaiting_socket_def poll_fd_def handle_remote_download_request_def
  by (intro indep_rules ap_awaiting.indep_sys ap_awaiting.indep_read_u8 ap_awaiting.indep_read_lstr
      ap_awaiting.indep_compute_and_send ap_awaiting.indep_handle_join_request
      ap_awaiting.indep_close indep_push_request)

lemma indep_answer_local_download: "indep put_requests (answer_local_download_request d)"
  unfolding answer_local_download_request_def Let_def
  by (intro indep_rules ap_requests.indep_search_file ap_requests.indep_send_download_error
      ap_requests.indep_connect_to ap_requests.indep_write_to_fd indep_push_download)

lemma indep_pending_request: "indep put_requests (handle_pending_request r)"
  unfolding handle_pending_request_def
  by (simp split: request_t.split add: ap_requests.indep_answer_local_search
      indep_answer_local_download ap_requests.indep_answer_remote_search
      ap_requests.indep_answer_remote_download)

lemma indep_pending_download: "indep put_downloads (handle_pending_download sk)"
  unfolding handle_pending_download_def poll_fd_def
  by (intro indep_rules ap_downloads.indep_sys ap_downloads.indep_read_u8
      ap_downloads.indep_remote_download_answer)

text \<open>A body that always removes: the loop is a loop over the list.\<close>

lemma sweep_spec_remove_all:
  "for_list xs body s = (Inr (), t) \<Longrightarrow>
   sweep_spec (\<lambda>x. seq (body x) (ret True)) xs s = (Inr (replicate (length xs) True), t)"
proof (induction xs arbitrary: s)
  case (Cons x xs)
  obtain u where u: "body x s = (Inr (), u)" "for_list xs body u = (Inr (), t)"
    using Cons.prems by (auto elim: seq_InrE)
  then show ?case using Cons.IH [of u] by (simp add: bnd_run seq_run)
qed simp

lemma sweep_dangling:
  "dangling (getf s) \<Longrightarrow> 1 < brk (getf s) \<Longrightarrow> fst (sweep getf putf body s) = Inl (UB UseAfterFree)"
  by (cases "brk (getf s)") (simp_all add: sweep_def bnd_run zoom_run dangling_def load_freed)

section \<open>Properties of the loops\<close>

lemma handle_pending_requests_run:
  assumes "repr (pending_requests s) rs" and "for_list rs handle_pending_request s = (Inr (), t)"
  obtains l where "handle_pending_requests s = (Inr (), t\<lparr>pending_requests := l\<rparr>)" and "repr l []"
proof -
  have "indep put_requests (seq (handle_pending_request r) (ret True))" for r
    by (intro indep_rules indep_pending_request)
  then obtain l where "handle_pending_requests s = (Inr (), t\<lparr>pending_requests := l\<rparr>)"
    "repr l (kept rs (replicate (length rs) True))"
    using requests.sweep_field [where body = "\<lambda>r. seq (handle_pending_request r) (ret True)",
        OF _ assms(1) sweep_spec_remove_all [OF assms(2)]]
    unfolding handle_pending_requests_def by (metis in_set_replicate)
  then show ?thesis using that kept_all_removed [of "replicate (length rs) True" rs] by auto
qed

text \<open>
  C19. A round of requests answers every request that waits once, in the order they arrived,
  and leaves the queue empty; a second round has nothing to do.
\<close>

theorem pending_requests_all_answered:
  assumes "repr (pending_requests s) rs" and "for_list rs handle_pending_request s = (Inr (), t)"
  shows "\<exists>u. handle_pending_requests s = (Inr (), u) \<and> (\<exists>l. u = t\<lparr>pending_requests := l\<rparr>) \<and>
    repr (pending_requests u) [] \<and> handle_pending_requests u = (Inr (), u)"
proof -
  obtain l where l: "handle_pending_requests s = (Inr (), t\<lparr>pending_requests := l\<rparr>)" "repr l []"
    by (rule handle_pending_requests_run [OF assms])
  then have "head l = 0" "0 < brk l" by (auto simp: repr_def owns_def)
  then have "handle_pending_requests (t\<lparr>pending_requests := l\<rparr>) = (Inr (), t\<lparr>pending_requests := l\<rparr>)"
    by (cases "brk l") (simp_all add: handle_pending_requests_def sweep_def bnd_run)
  then show ?thesis using l by auto
qed

definition queued_servent :: server_t where
  "queued_servent = sample_servent\<lparr>pending_requests :=
     snd (list_push_back (REQUEST_DOWNLOAD_LOCAL (sample_download\<lparr>dl_filename := cs ''song''\<rparr>))
       (list_create None add_new_request))\<rparr>"

theorem pending_requests_all_answered_witness:
  "\<exists>t. handle_pending_requests queued_servent = (Inr (), t) \<and> repr (pending_requests t) [] \<and>
     evs t = [Wrote 4 (encode (PIntDownloadError ANSWER_CODE_LOCAL (cs ''10.0.0.4'') (cs ''2000'') (cs ''song'')))]"
proof -
  let ?r = "sample_download\<lparr>dl_filename := cs ''song''\<rparr>"
  let ?l = "list_create None add_new_request"
  have "create ?l = add_new_request" by (simp add: list_create_def)
  then have q: "repr (pending_requests queued_servent) [REQUEST_DOWNLOAD_LOCAL ?r]"
    using repr_push(1) [OF repr_create, of "REQUEST_DOWNLOAD_LOCAL ?r" None add_new_request]
    by (simp add: queued_servent_def add_new_request_def)
  have f: "forks queued_servent" "has_entry queued_servent (cs ''song'')" "wx queued_servent fd = []"
    "client_socket queued_servent = 4" "evs queued_servent = []" for fd
    using sample_entries by (simp_all add: queued_servent_def forks_def has_entry_def entries_def)
      (simp_all add: sample_servent_def)
  have "send_download_error_response ?r ANSWER_CODE_LOCAL queued_servent = (Inr (), after_send 4
      (encode (PIntDownloadError ANSWER_CODE_LOCAL (cs ''10.0.0.4'') (cs ''2000'') (cs ''song''))) queued_servent)"
    using send_download_error_run [of ?r queued_servent] f by (simp add: sample_download_def del: encode.simps)
  then have "for_list [REQUEST_DOWNLOAD_LOCAL ?r] handle_pending_request queued_servent = (Inr (), after_send 4
      (encode (PIntDownloadError ANSWER_CODE_LOCAL (cs ''10.0.0.4'') (cs ''2000'') (cs ''song''))) queued_servent)"
    using f by (simp add: handle_pending_request_def answer_local_download_request_def seq_run bnd_run
        search_file_run sample_download_def del: encode.simps)
  from pending_requests_all_answered [OF q this] show ?thesis
    using f by (auto simp: after_send_def simp del: encode.simps)
qed

text \<open>Two sockets that wait; what the one that is ready says is unknown, so it is closed.\<close>

definition waiting_servent :: "int \<Rightarrow> server_t" where
  "waiting_servent fdr = sample_servent\<lparr>script := (\<lambda>_. [])(Poll fdr := [1]),
     rx := (\<lambda>_. [])(fdr := [Chunk [CMSG_LEAVE]]), awaiting_sockets := snd (list_push_back 9
       (snd (list_push_back 8 (list_create (Some compare_ints) add_new_socket))))\<rparr>"

lemma waiting_repr: "repr (awaiting_sockets (waiting_servent fdr)) [8, 9]"
proof -
  let ?l = "list_create (Some compare_ints) add_new_socket"
  have c: "create ?l = add_new_socket" by (simp add: list_create_def)
  have "repr (snd (list_push_back 8 ?l)) [8]" "create (snd (list_push_back 8 ?l)) = add_new_socket"
    using repr_push [OF repr_create, of 8 "Some compare_ints" add_new_socket] c
    by (simp_all add: add_new_socket_def)
  then show ?thesis
    using repr_push(1) [of "snd (list_push_back 8 ?l)" "[8]" 9]
    by (simp add: waiting_servent_def add_new_socket_def)
qed

lemma waiting_sweep:
  assumes "fdr = 8 \<or> fdr = 9"
  shows "\<exists>t. sweep_spec awaiting_body [8, 9] (waiting_servent fdr) = (Inr [fdr = 8, fdr = 9], t)"
  using assms
  by (auto simp: bnd_run seq_run awaiting_body_def handle_awaiting_socket_def poll_fd_def sys_def await_codes
      waiting_servent_def read_u8_avail [where rest = "[]"] opcode_values sys_close_run)

text \<open>
  C20. A round over the waiting sockets keeps exactly those that had nothing to say, in their
  order, if the first one had nothing to say or all had.
\<close>

theorem awaiting_sockets_kept:
  assumes "repr (awaiting_sockets s) xs" and "sweep_spec awaiting_body xs s = (Inr gone, t)"
    and "xs = [] \<or> \<not> hd gone \<or> False \<notin> set gone"
  shows "\<exists>l. handle_awaiting_sockets s = (Inr (), t\<lparr>awaiting_sockets := l\<rparr>) \<and> repr l (kept xs gone)"
  using awaiting.sweep_field [where body = awaiting_body, OF indep_awaiting_body assms(1,2)] assms(3)
  unfolding handle_awaiting_sockets_def by metis

theorem awaiting_sockets_kept_witness:
  "\<exists>t. handle_awaiting_sockets (waiting_servent 9) = (Inr (), t) \<and> repr (awaiting_sockets t) [8]"
proof -
  obtain t where "sweep_spec awaiting_body [8, 9] (waiting_servent 9) = (Inr [False, True], t)"
    using waiting_sweep [of 9] by auto
  from awaiting_sockets_kept [OF waiting_repr this] show ?thesis by auto
qed

text \<open>
  C21. Otherwise, where the first waiting socket is answered and a later one stays, \<open>list_pop_at\<close>
  leaves the head of the list at the freed cell, and the next round reads it.
\<close>

theorem awaiting_sockets_dangling:
  assumes "repr (awaiting_sockets s) xs" and "sweep_spec awaiting_body xs s = (Inr gone, t)"
    and "xs \<noteq> []" and "hd gone" and "False \<in> set gone"
  shows "\<exists>u. handle_awaiting_sockets s = (Inr (), u) \<and>
    fst (handle_awaiting_sockets u) = Inl (UB UseAfterFree)"
proof -
  obtain l where "handle_awaiting_sockets s = (Inr (), t\<lparr>awaiting_sockets := l\<rparr>)"
    "dangling l \<and> 1 < brk l"
    using awaiting.sweep_field [where body = awaiting_body, OF indep_awaiting_body assms(1,2)] assms(3-5)
    unfolding handle_awaiting_sockets_def by metis
  then show ?thesis
    unfolding handle_awaiting_sockets_def by (auto simp: sweep_dangling)
qed

theorem awaiting_sockets_dangling_witness:
  "\<exists>u. handle_awaiting_sockets (waiting_servent 8) = (Inr (), u) \<and>
     fst (handle_awaiting_sockets u) = Inl (UB UseAfterFree)"
proof -
  obtain t where "sweep_spec awaiting_body [8, 9] (waiting_servent 8) = (Inr [True, False], t)"
    using waiting_sweep [of 8] by auto
  from awaiting_sockets_dangling [OF waiting_repr this] show ?thesis by simp
qed

end
