(* ===== verification/Server_Handlers.thy ===== *)
theory Server_Handlers
  imports Server_Fields
begin

text \<open>
  What one step of a turn makes of the packets that arrive: the poll, the opcode, the handler,
  and what it leaves behind. The packets are those of \<open>packets_doc.h\<close>.
\<close>

section \<open>Polling leaves the fields of the servent alone\<close>

lemma polled_servent [simp]:
  "neighbours (polled fd s) = neighbours s" "client_socket (polled fd s) = client_socket s"
  "pending_requests (polled fd s) = pending_requests s" "self_ip (polled fd s) = self_ip s"
  by (simp_all add: polled_def)

lemma opened_servent [simp]:
  "neighbours (opened fd s) = neighbours s" "client_socket (opened fd s) = client_socket s"
  "pending_requests (opened fd s) = pending_requests s" "self_ip (opened fd s) = self_ip s"
  by (simp_all add: opened_def skip_rx_def)

section \<open>Packets of neighbours\<close>

lemma handle_neighbour_opened:
  assumes "sc_sock (neighbours s ! i) = sk" and "ready sk s" and "avail sk s = opcode # rest"
  shows "handle_neighbour i s = (
    if opcode = CMSG_SEARCH_REQUEST then seq (handle_remote_search_request sk) (ret 0)
    else if opcode = CMSG_LEAVE then ret 1
    else if opcode = SMSG_SEARCH_REQUEST then seq (handle_remote_search_answer sk) (ret 0)
    else ret 0) (opened sk s)"
  using assms(1) poll_ready [OF assms(2)] opcode_read [OF assms(3)] by (simp add: handle_neighbour_def bnd_run)

text \<open>The state after the packet of a search has been read, but for the queue.\<close>

definition after_search :: "int \<Rightarrow> packet \<Rightarrow> server_t \<Rightarrow> server_t" where
  "after_search sk pk s = drop_junk 4 (skip_rx sk (length (tl (encode pk))) (opened sk s))"

lemma after_search_fields [simp]:
  "wx (after_search sk pk s) = wx s" "evs (after_search sk pk s) = evs s" "files (after_search sk pk s) = files s"
  "neighbours (after_search sk pk s) = neighbours s" "self_ip (after_search sk pk s) = self_ip s"
  "nb_neighbours (after_search sk pk s) = nb_neighbours s" "sockname (after_search sk pk s) = sockname s"
  "received_search_requests (after_search sk pk s) = received_search_requests s"
  "listening_socket (after_search sk pk s) = listening_socket s" "junk (after_search sk pk s) = drop 4 (junk s)"
  by (simp_all add: after_search_def drop_junk_def opened_def polled_def skip_rx_def)

lemma neighbour_search_run:
  assumes "sc_sock (neighbours s ! i) = sk" and "ready sk s"
    and "avail sk s = encode (PSearchRequest ip p f t ms) @ rest"
    and "wf_lstr ip" and "wf_lstr p" and "wf_lstr f" and "wf_machines ms"
    and "repr (pending_requests s) rs" and "create (pending_requests s) = add_new_request"
  obtains l where "handle_neighbour i s =
      (Inr 0, (after_search sk (PSearchRequest ip p f t ms) s)\<lparr>pending_requests := l\<rparr>)"
    and "repr l (rs @ [REQUEST_SEARCH_REMOTE (received_search s ip p f t ms)])"
    and "request_ok (received_search s ip p f t ms)"
proof -
  have a: "avail sk s = CMSG_SEARCH_REQUEST # tl (encode (PSearchRequest ip p f t ms)) @ rest"
    using assms(3) by simp
  have rs: "received_search (opened sk s) = received_search s"
    by (intro ext) (simp add: received_search_def)
  have q: "repr (pending_requests (opened sk s)) rs" "create (pending_requests (opened sk s)) = add_new_request"
    using assms(8,9) by simp_all
  from search_request_received [OF avail_opened [OF a] assms(4-7) q] obtain l where
    "handle_remote_search_request sk (opened sk s) =
       (Inr (), (after_search sk (PSearchRequest ip p f t ms) s)\<lparr>pending_requests := l\<rparr>)"
    "repr l (rs @ [REQUEST_SEARCH_REMOTE (received_search s ip p f t ms)])"
    "request_ok (received_search s ip p f t ms)"
    unfolding rs after_search_def by blast
  then show ?thesis
    by (intro that [of l]) (simp_all add: handle_neighbour_opened [OF assms(1,2) a] seq_run del: encode.simps)
qed

text \<open>
  C13. The packet of a search that a neighbour sends is read back as it was encoded, and queued behind
  the requests that wait, with arrays of the announced length; the stream is left behind the
  packet. Only the socket of its source is not set: it is four bytes of fresh memory.
\<close>

theorem neighbour_search_queued:
  assumes "sc_sock (neighbours s ! i) = sk" and "ready sk s"
    and "avail sk s = encode (PSearchRequest ip p f t ms) @ rest"
    and "wf_lstr ip" and "wf_lstr p" and "wf_lstr f" and "wf_machines ms"
    and "repr (pending_requests s) rs" and "create (pending_requests s) = add_new_request"
  shows "\<exists>u. handle_neighbour i s = (Inr 0, u) \<and> avail sk u = rest \<and> evs u = evs s \<and>
    repr (pending_requests u) (rs @ [REQUEST_SEARCH_REMOTE (received_search s ip p f t ms)]) \<and>
    request_ok (received_search s ip p f t ms)"
proof -
  let ?pk = "PSearchRequest ip p f t ms"
  have "avail sk (opened sk s) = tl (encode ?pk) @ rest"
    using assms(3) by (intro avail_opened [where b = CMSG_SEARCH_REQUEST]) simp
  then have "avail sk (after_search sk ?pk s) = rest"
    by (simp add: after_search_def drop_junk_def del: encode.simps)
  moreover obtain l where "handle_neighbour i s = (Inr 0, (after_search sk ?pk s)\<lparr>pending_requests := l\<rparr>)"
    "repr l (rs @ [REQUEST_SEARCH_REMOTE (received_search s ip p f t ms)])"
    "request_ok (received_search s ip p f t ms)"
    by (rule neighbour_search_run [OF assms])
  ultimately show ?thesis
    by (intro exI [of _ "(after_search sk ?pk s)\<lparr>pending_requests := l\<rparr>"]) (simp del: encode.simps)
qed

definition asked_servent :: server_t where
  "asked_servent = sample_servent\<lparr>junk := [7, 0, 0, 0], script := (\<lambda>_. [])(Poll 6 := [1]),
     rx := (\<lambda>_. [])(6 := [Chunk (encode
       (PSearchRequest (cs ''10.0.0.4'') (cs ''2000'') (cs ''song'') 3 [(cs ''10.0.0.4'', cs ''2000'')]))])\<rparr>"

theorem neighbour_search_queued_witness:
  "\<exists>u r. handle_neighbour 0 asked_servent = (Inr 0, u) \<and> repr (pending_requests u) [REQUEST_SEARCH_REMOTE r] \<and>
     source_sock r = 7 \<and> sr_ips r = [cs ''10.0.0.4'']"
proof -
  let ?m = "(cs ''10.0.0.4'', cs ''2000'')"
  let ?r = "received_search asked_servent (cs ''10.0.0.4'') (cs ''2000'') (cs ''song'') 3 [?m]"
  have a: "avail 6 asked_servent =
      encode (PSearchRequest (cs ''10.0.0.4'') (cs ''2000'') (cs ''song'') 3 [?m]) @ []"
    by (simp add: asked_servent_def enc_lstr_def)
  have p: "repr (pending_requests asked_servent) []" "create (pending_requests asked_servent) = add_new_request"
    "sc_sock (neighbours asked_servent ! 0) = 6" "ready 6 asked_servent"
    by (simp_all add: asked_servent_def ready_def) (simp_all add: sample_servent_def list_create_def)
  have r: "source_sock ?r = 7" "sr_ips ?r = [cs ''10.0.0.4'']"
    by (simp_all add: received_search_def asked_servent_def int_of_bytes_def)
  obtain u where "handle_neighbour 0 asked_servent = (Inr 0, u)"
    "repr (pending_requests u) ([] @ [REQUEST_SEARCH_REMOTE ?r])"
    using neighbour_search_queued [OF p(3,4) a _ _ _ _ p(1,2)] by (metis wf_lstr_sample sample_machines)
  then show ?thesis using r by (intro exI [of _ u] exI [of _ ?r]) simp
qed

lemma neighbour_answer_run:
  assumes "sc_sock (neighbours s ! i) = sk" and "ready sk s"
    and "avail sk s = encode (PSearchAnswer f ms) @ rest" and "wf_lstr f" and "wf_machines ms"
    and "junk s = []" and "length (enc_machines ms) < length ms * 53" and "wx s (client_socket s) = []"
  shows "handle_neighbour i s = (Inr 0, after_send (client_socket s) (encode (PIntSearchAnswer f ms))
    (skip_rx sk (length (tl (encode (PSearchAnswer f ms)))) (opened sk s)))"
proof -
  have a: "avail sk s = SMSG_SEARCH_REQUEST # tl (encode (PSearchAnswer f ms)) @ rest"
    using assms(3) by simp
  have "handle_remote_search_answer sk (opened sk s) =
    (Inr (), after_send (client_socket s) (encode (PIntSearchAnswer f ms))
       (skip_rx sk (length (tl (encode (PSearchAnswer f ms)))) (opened sk s)))"
    using search_answer_forwarded [OF avail_opened [OF a] assms(4,5) _ assms(7)] assms(6,8) by simp
  then show ?thesis
    by (simp add: handle_neighbour_opened [OF assms(1,2) a] seq_run opcode_values del: encode.simps)
qed

text \<open>
  C15. The answer of a neighbour to a search is passed on to the local client unchanged, as long as
  memory from \<open>malloc\<close> happens to hold zeros and the packet fits.
\<close>

theorem neighbour_answer_forwarded:
  assumes "sc_sock (neighbours s ! i) = sk" and "ready sk s"
    and "avail sk s = encode (PSearchAnswer f ms) @ rest" and "wf_lstr f" and "wf_machines ms"
    and "junk s = []" and "length (enc_machines ms) < length ms * 53" and "wx s (client_socket s) = []"
  shows "\<exists>u. handle_neighbour i s = (Inr 0, u) \<and> avail sk u = rest \<and>
    evs u = evs s @ [Wrote (client_socket s) (encode (PIntSearchAnswer f ms))]"
proof -
  have "avail sk (opened sk s) = tl (encode (PSearchAnswer f ms)) @ rest"
    using assms(3) by (intro avail_opened [where b = SMSG_SEARCH_REQUEST]) simp
  then show ?thesis
    by (simp add: neighbour_answer_run [OF assms] after_send_def del: encode.simps)
qed

theorem neighbour_answer_forwarded_witness:
  "\<exists>u. handle_neighbour 0 (sample_servent\<lparr>script := (\<lambda>_. [])(Poll 6 := [1]), rx := (\<lambda>_. [])(6 := [Chunk
       (encode (PSearchAnswer (cs ''song'') [(cs ''10.0.0.4'', cs ''2000'')]))])\<rparr>) = (Inr 0, u) \<and>
     evs u = [Wrote 4 (encode (PIntSearchAnswer (cs ''song'') [(cs ''10.0.0.4'', cs ''2000'')]))]"
proof -
  let ?ms = "[(cs ''10.0.0.4'', cs ''2000'')]"
  let ?s = "sample_servent\<lparr>script := (\<lambda>_. [])(Poll 6 := [1]),
    rx := (\<lambda>_. [])(6 := [Chunk (encode (PSearchAnswer (cs ''song'') ?ms))])\<rparr>"
  have a: "avail 6 ?s = encode (PSearchAnswer (cs ''song'') ?ms) @ []" by (simp add: enc_lstr_def)
  have "sc_sock (neighbours ?s ! 0) = 6" "ready 6 ?s" "client_socket ?s = 4"
    by (simp_all add: ready_def) (simp add: sample_servent_def)
  from neighbour_answer_forwarded [OF this(1,2) a] this(3) show ?thesis by (simp del: encode.simps) blast
qed

text \<open>
  A neighbour that leaves is noticed: the next step of the turn reports that its slot must be
  freed.
\<close>

lemma neighbour_leave_noticed:
  assumes "sc_sock (neighbours s ! i) = sk" and "ready sk s" and "avail sk s = encode PLeave @ rest"
  shows "handle_neighbour i s = (Inr 1, opened sk s)"
proof -
  have a: "avail sk s = CMSG_LEAVE # rest" using assms(3) by simp
  show ?thesis by (simp add: handle_neighbour_opened [OF assms(1,2) a] opcode_values)
qed

section \<open>The local client\<close>

lemma handle_client_opened:
  assumes "ready (client_socket s) s" and "avail (client_socket s) s = opcode # rest"
  shows "handle_client s = (
    if opcode = CMSG_INT_EXIT then seq leave_network (ret 1)
    else if opcode = CMSG_INT_SEARCH then seq handle_local_search_request (ret 0)
    else if opcode = CMSG_INT_DOWNLOAD then seq handle_local_download_request (ret 0)
    else ret 0) (opened (client_socket s) s)"
  using poll_ready [OF assms(1)] opcode_read [OF assms(2)] by (simp add: handle_client_def bnd_run)

lemma client_search_queued:
  assumes "ready (client_socket s) s" and "avail (client_socket s) s = encode (PIntSearch name) @ rest"
    and "wf_lstr name" and "repr (pending_requests s) rs" and "create (pending_requests s) = add_new_request"
  shows "\<exists>u. handle_client s = (Inr 0, u) \<and> avail (client_socket s) u = rest \<and>
    repr (pending_requests u) (rs @ [REQUEST_SEARCH_LOCAL name])"
proof -
  let ?fd = "client_socket s"
  have a: "avail ?fd s = CMSG_INT_SEARCH # enc_lstr name @ rest" using assms(2) by simp
  let ?u = "skip_rx ?fd (Suc (length name)) (opened ?fd s)"
  have run: "handle_local_search_request (opened ?fd s) = push_request (REQUEST_SEARCH_LOCAL name) ?u"
    using handle_local_search_run [of "opened ?fd s" name rest] avail_opened [OF a] assms(3) by simp
  have q: "repr (pending_requests ?u) rs" "create (pending_requests ?u) = add_new_request"
    using assms(4,5) by (simp_all add: skip_rx_def)
  obtain l where "push_request (REQUEST_SEARCH_LOCAL name) ?u = (Inr (), ?u\<lparr>pending_requests := l\<rparr>)"
    "repr l (rs @ [REQUEST_SEARCH_LOCAL name])"
    by (rule push_request_run [OF q])
  then show ?thesis
    using run avail_opened [OF a] by (simp add: handle_client_opened [OF assms(1) a] opcode_values seq_run)
qed

lemma client_download_queued:
  assumes "ready (client_socket s) s" and "avail (client_socket s) s = encode (PIntDownload i p f) @ rest"
    and "wf_lstr i" and "wf_lstr p" and "wf_lstr f"
    and "repr (pending_requests s) rs" and "create (pending_requests s) = add_new_request"
  shows "\<exists>u. handle_client s = (Inr 0, u) \<and> avail (client_socket s) u = rest \<and>
    repr (pending_requests u) (rs @ [REQUEST_DOWNLOAD_LOCAL \<lparr>dl_ip = i, dl_port = p, dl_filename = f\<rparr>])"
proof -
  let ?fd = "client_socket s"
  let ?r = "REQUEST_DOWNLOAD_LOCAL \<lparr>dl_ip = i, dl_port = p, dl_filename = f\<rparr>"
  have a: "avail ?fd s = CMSG_INT_DOWNLOAD # enc_lstr i @ enc_lstr p @ enc_lstr f @ rest"
    using assms(2) by simp
  let ?u = "skip_rx ?fd (length (enc_lstr i @ enc_lstr p @ enc_lstr f)) (opened ?fd s)"
  have run: "handle_local_download_request (opened ?fd s) = push_request ?r ?u"
    using handle_local_download_run [of "opened ?fd s" i p f rest] avail_opened [OF a] assms(3-5) by simp
  have q: "repr (pending_requests ?u) rs" "create (pending_requests ?u) = add_new_request"
    using assms(6,7) by (simp_all add: skip_rx_def)
  obtain l where "push_request ?r ?u = (Inr (), ?u\<lparr>pending_requests := l\<rparr>)" "repr l (rs @ [?r])"
    by (rule push_request_run [OF q])
  then show ?thesis
    using run avail_opened [OF a] by (simp add: handle_client_opened [OF assms(1) a] opcode_values seq_run)
qed

text \<open>
  When the local client exits, the servent tells every neighbour that it leaves, and reports
  that its loop must stop.
\<close>

lemma client_exit_leaves:
  assumes "ready (client_socket s) s" and "avail (client_socket s) s = encode PIntExit @ rest"
    and "neighbours_ok s" and "\<And>fd. wx s fd = []"
  shows "handle_client s = (Inr 1, after_broadcast (neighbour_socks s) (encode PLeave) (opened (client_socket s) s))"
proof -
  let ?u = "opened (client_socket s) s"
  have a: "avail (client_socket s) s = CMSG_INT_EXIT # rest" using assms(2) by simp
  have "leave_network ?u = (Inr (), after_broadcast (neighbour_socks ?u) [CMSG_LEAVE] ?u)"
    unfolding leave_network_def using assms(3,4)
    by (intro broadcast_packet_run) (simp_all add: neighbours_ok_def)
  moreover have "neighbour_socks ?u = neighbour_socks s" by (simp add: neighbour_socks_def)
  ultimately show ?thesis by (simp add: handle_client_opened [OF assms(1) a] seq_run)
qed

lemma client_exit_leaves_witness:
  "fst (handle_client (sample_servent\<lparr>script := (\<lambda>_. [])(Poll 4 := [1]), rx := (\<lambda>_. [])(4 := [Chunk [CMSG_INT_EXIT]])\<rparr>))
     = Inr 1 \<and>
   evs (snd (handle_client (sample_servent\<lparr>script := (\<lambda>_. [])(Poll 4 := [1]), rx := (\<lambda>_. [])(4 := [Chunk [CMSG_INT_EXIT]])\<rparr>)))
     = [Wrote 6 [CMSG_LEAVE], Wrote 7 [CMSG_LEAVE]]"
proof -
  let ?s = "sample_servent\<lparr>script := (\<lambda>_. [])(Poll 4 := [1]), rx := (\<lambda>_. [])(4 := [Chunk [CMSG_INT_EXIT]])\<rparr>"
  have "neighbours_ok ?s" using sample_ok by (simp add: nb.frame_rx nb.frame_script)
  moreover have "ready (client_socket ?s) ?s" "avail (client_socket ?s) ?s = encode PIntExit @ []"
    by (simp_all add: ready_def)
  moreover have "neighbour_socks ?s = [6, 7]" by (simp add: neighbour_socks_def sample_servent_def)
  ultimately show ?thesis
    using client_exit_leaves [of ?s "[]"] by (simp add: after_broadcast_def)
qed

section \<open>The pending requests and downloads\<close>

text \<open>
  C14. A search of another servent is never passed on: with the log of searches empty every
  search counts as unique, and a unique one is answered at once, whatever its time to live, with this
  servent added to the machines when it has the file. There are as many copies of the answer as
  neighbours other than the recorded source; copy \<open>k\<close> goes to the neighbour in slot \<open>k\<close>, and to whatever
  descriptor \<open>malloc\<close> left there when the slot is free or the source's. Only in a table whose other
  neighbours are all in front do they get the answer once each. All this in a servent that owns its
  address and is not the asker itself; one that has freed its address reads freed memory first.
\<close>

theorem remote_search_answered:
  assumes "forks s" and "neighbours_ok s" and "\<And>fd. wx s fd = []" and "listening_port s = Some port"
    and "\<And>ip. self_ip s = Live ip \<Longrightarrow> length ip \<le> INET6_ADDRSTRLEN \<and> ip \<noteq> ip_source r"
    and "repr (received_search_requests s) []" and "request_ok r" and "list_all short_machine (machines_of r)"
    and "n = length (filter (other (source_sock r)) (neighbours s))"
    and "targets = map (\<lambda>k. if other (source_sock r) (neighbours s ! k) then sc_sock (neighbours s ! k)
      else junk_sockets s ! k) [0..<n]"
  shows "handle_pending_request (REQUEST_SEARCH_REMOTE r) s = (case self_ip s of
      Live ip \<Rightarrow> (Inr (), after_broadcast targets (encode (PSearchAnswer (sr_filename r)
          (machines_of r @ (if has_entry s (sr_filename r) then [(ip, port)] else []))))
         (drop_junk (4 * MAX_NEIGHBOURS) s))
    | FreedPtr \<Rightarrow> (Inl (UB UseAfterFree), s)
    | NullPtr \<Rightarrow> (Inl (UB NullDeref), s)) \<and>
   (list_all (other (source_sock r)) (take n (neighbours s)) \<longrightarrow>
      targets = map sc_sock (filter (other (source_sock r)) (neighbours s)))"
proof
  have t: "targets = answer_targets s r" unfolding assms(10) by (rule answer_targets_list [OF assms(2,9), symmetric])
  show "list_all (other (source_sock r)) (take n (neighbours s)) \<longrightarrow>
      targets = map sc_sock (filter (other (source_sock r)) (neighbours s))"
    unfolding t using answer_targets_gapless [OF assms(2,9)] by blast
  show "handle_pending_request (REQUEST_SEARCH_REMOTE r) s = (case self_ip s of
      Live ip \<Rightarrow> (Inr (), after_broadcast targets (encode (PSearchAnswer (sr_filename r)
          (machines_of r @ (if has_entry s (sr_filename r) then [(ip, port)] else []))))
         (drop_junk (4 * MAX_NEIGHBOURS) s))
    | FreedPtr \<Rightarrow> (Inl (UB UseAfterFree), s)
    | NullPtr \<Rightarrow> (Inl (UB NullDeref), s))"
  proof (cases "self_ip s")
    case (Live ip)
    then have ip: "length ip \<le> INET6_ADDRSTRLEN" "ip \<noteq> ip_source r" using assms(5) by auto
    show ?thesis
      using answer_remote_search_correct [OF assms(1) assms(2) assms(3) Live ip(1) assms(4) ip(2) assms(6-8)] Live t
      by (simp add: handle_pending_request_def search_answer_def del: encode.simps)
  qed (simp_all add: handle_pending_request_def answer_remote_search_request_def deref_def bnd_run)
qed

text \<open>A servent whose neighbours are in the first slots.\<close>

definition packed_servent :: server_t where
  "packed_servent = sample_servent\<lparr>neighbours := [\<lparr>sc_sock = 7, sc_port = Some (cs ''3000'')\<rparr>,
     \<lparr>sc_sock = 8, sc_port = Some (cs ''4000'')\<rparr>, \<lparr>sc_sock = - 1, sc_port = None\<rparr>, \<lparr>sc_sock = - 1, sc_port = None\<rparr>,
     \<lparr>sc_sock = - 1, sc_port = None\<rparr>]\<rparr>"

theorem remote_search_answered_witness:
  "handle_pending_request (REQUEST_SEARCH_REMOTE sample_search) packed_servent = (Inr (),
     after_broadcast [7, 8]
       (encode (PSearchAnswer (cs ''song'') [(cs ''10.0.0.4'', cs ''2000''), (cs ''10.0.0.1'', cs ''2000'')]))
       (drop_junk 20 packed_servent)) \<and>
   handle_pending_request (REQUEST_SEARCH_REMOTE sample_search) (packed_servent\<lparr>self_ip := FreedPtr\<rparr>) =
     (Inl (UB UseAfterFree), packed_servent\<lparr>self_ip := FreedPtr\<rparr>)"
proof -
  let ?f = "packed_servent\<lparr>self_ip := FreedPtr\<rparr>"
  have r: "sr_filename sample_search = cs ''song''" "machines_of sample_search = [(cs ''10.0.0.4'', cs ''2000'')]"
    "cs ''10.0.0.1'' \<noteq> ip_source sample_search" "source_sock sample_search = 6"
    by (simp_all add: sample_search_def cs_def)
  have p: "forks packed_servent" "neighbours_ok packed_servent" "wx packed_servent fd = []" "has_entry packed_servent (cs ''song'')"
    "listening_port packed_servent = Some (cs ''2000'')" "self_ip packed_servent = Live (cs ''10.0.0.1'')"
    "repr (received_search_requests packed_servent) []" for fd
    using sample_facts sample_port sample_entries(1)
    by (simp_all add: packed_servent_def forks_def neighbours_ok_def listening_port_def has_entry_def entries_def
        MAX_NEIGHBOURS_def used_def) (simp_all add: sample_servent_def)
  have f: "forks ?f" "neighbours_ok ?f" "wx ?f fd = []" "listening_port ?f = Some (cs ''2000'')"
    "repr (received_search_requests ?f) []" for fd
    using p by (simp_all add: forks_def neighbours_ok_def listening_port_def)
  have n: "filter (other 6) (neighbours packed_servent) = take 2 (neighbours packed_servent)"
    "map sc_sock (take 2 (neighbours packed_servent)) = [7, 8]" "length (take 2 (neighbours packed_servent)) = 2"
    "list_all (other 6) (take 2 (neighbours packed_servent))"
    by (simp_all add: packed_servent_def other_def)
  show ?thesis
    using remote_search_answered [OF p(1-3,5) _ p(7) sample_search_ok(1,2) refl refl]
      remote_search_answered [OF f(1-4) _ f(5) sample_search_ok(1,2) refl refl] r p(4,6) n sample_short
    by (simp add: MAX_NEIGHBOURS_def del: encode.simps)
qed

lemma pending_download_stored:
  assumes "ready sk s" and "avail sk s = encode (PDownloadFile f content) @ rest" and "wf_lstr f"
    and "Suc (length content) < 2 ^ 32" and "opens s" and "wx s (client_socket s) = []"
  shows "\<exists>u. handle_pending_download sk s = (Inr 1, u) \<and> avail sk u = rest \<and>
    files u = put_file (full_name f) content (files s) \<and>
    evs u = evs s @ [Wrote (client_socket s) (encode (PIntDownloadDone f))]"
proof -
  have a: "avail sk s = SMSG_DOWNLOAD # tl (encode (PDownloadFile f content)) @ rest" using assms(2) by simp
  have o: "opens (opened sk s)" using assms(5) by (simp add: opens_def opened_def polled_def)
  have "handle_remote_download_answer sk (opened sk s) = (Inr (),
    after_send (client_socket s) (encode (PIntDownloadDone f))
      ((skip_rx sk (length (tl (encode (PDownloadFile f content)))) (opened sk s))
        \<lparr>files := put_file (full_name f) content (files s)\<rparr>))"
    using download_answer_stored [OF avail_opened [OF a] assms(3,4) o] assms(6) by simp
  then show ?thesis
    using poll_ready [OF assms(1)] opcode_read [OF a] avail_opened [OF a]
    by (simp add: handle_pending_download_def bnd_run seq_run after_send_def del: encode.simps)
qed

end
