(* ===== verification/Server_Contact.thy ===== *)
theory Server_Contact
  imports Server_Handlers
begin

text \<open>
  Two servents become neighbours: the request to join one sends, the answer of the other, and what
  both make of it; and the way of a servent into the network through a contact that is alone.
\<close>

section \<open>A request to join and its answer\<close>

lemma send_join_run:
  assumes "connect_to ip port s = (Inr (CONNECT_OK, Some k), t)" and "wx s k = []" and "listening_port s = Some own"
  shows "send_join_request ip port rescue s = (Inr k, after_send k (encode (PJoin rescue own)) t)"
proof -
  obtain c e where t: "t = s\<lparr>script := c, evs := e\<rparr>" using connect_to_same [OF assms(1)] .
  have "listening_port t = Some own" "wx t k = []"
    using assms(2,3) t by (simp_all add: listening_port_def)
  then show ?thesis
    using assms(1) listening_port_short [OF assms(3)]
    by (simp add: send_join_request_def Let_def bnd_run own_port_run write_to_packet_run write_lstr_run
        write_to_fd_free after_send_def)
qed

lemma opened_neighbours_ok: "neighbours_ok (opened k s) = neighbours_ok s"
  by (simp add: neighbours_ok_def opened_def polled_def skip_rx_def)

lemma opened_accepts: "accepts (opened k s) rescue = accepts s rescue"
  by (simp add: accepts_def next_rand_def opened_def polled_def skip_rx_def)

text \<open>A socket that waits and asks to join.\<close>

lemma waiting_join_run:
  assumes "ready k s" and "neighbours_ok s" and "own_end_known s k" and "has_address s k"
    and "avail k s = encode (PJoin rescue port) @ rest" and "wf_lstr port" and "wx s k = []"
    and "listening_port s = Some lp"
  obtains t where "handle_awaiting_socket k s = (Inr (if accepts s rescue then AWAIT_KEEP else AWAIT_CLOSE), t)"
    and "evs t = evs s @ [Wrote k (encode (if accepts s rescue then PJoinAccepted lp else PJoinRefused 0))]"
    and "if accepts s rescue then \<exists>i < MAX_NEIGHBOURS. sc_sock (neighbours s ! i) = - 1 \<and>
        neighbours t = (neighbours s)[i := \<lparr>sc_sock = k, sc_port = Some port\<rparr>]
      else neighbours t = neighbours s"
proof -
  let ?s = "opened k s"
  have a: "avail k s = CMSG_JOIN # rescue # enc_lstr port @ rest" using assms(5) by simp
  have ao: "avail k ?s = tl (encode (PJoin rescue port)) @ rest" using avail_opened [OF a] by simp
  have ok: "neighbours_ok ?s" using assms(2) by (simp add: opened_neighbours_ok)
  have f: "own_end_known ?s k" "has_address ?s k" "wx ?s k = []" "listening_port ?s = Some lp"
    using assms(3,4,7,8) by (simp_all add: own_end_known_def has_address_def listening_port_def opened_def
        polled_def skip_rx_def)
  obtain t where t: "handle_join_request k ?s = (Inr (if accepts s rescue then 1 else 0), t)"
    "evs t = evs s @ [Wrote k (encode (if accepts s rescue then PJoinAccepted lp else PJoinRefused 0))]"
    "if accepts s rescue then \<exists>i < MAX_NEIGHBOURS. sc_sock (neighbours s ! i) = - 1 \<and>
        neighbours t = (neighbours s)[i := \<lparr>sc_sock = k, sc_port = Some port\<rparr>]
      else neighbours t = neighbours s"
    using join_request_handled [OF ok f(1,2) ao assms(6) f(3,4)]
    unfolding opened_accepts opened_servent by (auto simp del: encode.simps split: if_splits)
  have "handle_awaiting_socket k s = (Inr (if accepts s rescue then AWAIT_KEEP else AWAIT_CLOSE), t)"
    using poll_ready [OF assms(1)] opcode_read [OF a] t(1)
    by (simp add: handle_awaiting_socket_def bnd_run opcode_values await_codes split: if_splits)
  then show ?thesis using that t(2,3) by blast
qed

text \<open>
  C10. Two servents agree on whether they are neighbours: the request one sends, over whatever address
  of the contact answers, is read by the other in its round over the waiting sockets; it refuses when
  it is full, accepts a rescue, and decides by chance otherwise. When the first reads the answer, each has
  the socket to the other in a free slot of its table, under the port the other listens on,
  if the request was accepted, and neither has if it was not: then the first closes the connection and
  the second reports that its end is to be closed. There is one exception: an asker that is full when
  it reads that it was accepted drops the answer without closing the connection, so that the other has
  a neighbour that does not have it.
\<close>

theorem join_agrees:
  assumes "connect_to ip port a = (Inr (CONNECT_OK, Some ka), a0)" and "wx a ka = []" and "listening_port a = Some pa"
    and "send_join_request ip port rescue a = (ra, a1)" and "evs a1 = evs a0 @ ea"
    and "ready kb b" and "neighbours_ok b" and "own_end_known b kb" and "has_address b kb"
    and "avail kb b = sent ka ea @ y" and "wx b kb = []" and "listening_port b = Some pb"
    and "handle_awaiting_socket kb b = (rb, b')" and "evs b' = evs b @ eb"
    and "neighbours_ok a2" and "has_address a2 ka"
    and "avail ka a2 = sent kb eb @ z" and "join_response_body p ka a2 = (rc, a3)"
  shows "ra = Inr ka \<and> rc = Inr None \<and>
    (if accepts b rescue then rb = Inr AWAIT_KEEP \<and>
       (\<exists>i < MAX_NEIGHBOURS. sc_sock (neighbours b ! i) = - 1 \<and>
          neighbours b' = (neighbours b)[i := \<lparr>sc_sock = kb, sc_port = Some pa\<rparr>]) \<and>
       (if nb_neighbours a2 = int MAX_NEIGHBOURS then neighbours a3 = neighbours a2 \<and> evs a3 = evs a2
        else \<exists>j < MAX_NEIGHBOURS. sc_sock (neighbours a2 ! j) = - 1 \<and>
          neighbours a3 = (neighbours a2)[j := \<lparr>sc_sock = ka, sc_port = Some pb\<rparr>])
     else rb = Inr AWAIT_CLOSE \<and> neighbours b' = neighbours b \<and> neighbours a3 = neighbours a2 \<and>
       evs a3 = evs a2 @ [Closed ka])"
proof -
  have a: "ra = Inr ka" "ea = [Wrote ka (encode (PJoin rescue pa))]"
    using send_join_run [OF assms(1-3), of rescue] assms(4,5) by (auto simp: after_send_def simp del: encode.simps)
  have pa: "wf_lstr pa" and pb: "wf_lstr pb" using listening_port_short assms(3,12) by blast+
  have av: "avail kb b = encode (PJoin rescue pa) @ y" using assms(10) a(2) by simp
  obtain t where t: "handle_awaiting_socket kb b = (Inr (if accepts b rescue then AWAIT_KEEP else AWAIT_CLOSE), t)"
    "evs t = evs b @ [Wrote kb (encode (if accepts b rescue then PJoinAccepted pb else PJoinRefused 0))]"
    "if accepts b rescue then \<exists>i < MAX_NEIGHBOURS. sc_sock (neighbours b ! i) = - 1 \<and>
        neighbours t = (neighbours b)[i := \<lparr>sc_sock = kb, sc_port = Some pa\<rparr>]
      else neighbours t = neighbours b"
    by (rule waiting_join_run [OF assms(6-9) av pa assms(11,12)])
  then have b: "t = b'" "rb = Inr (if accepts b rescue then AWAIT_KEEP else AWAIT_CLOSE)"
    "eb = [Wrote kb (encode (if accepts b rescue then PJoinAccepted pb else PJoinRefused 0))]"
    using assms(13,14) by auto
  have av2: "avail ka a2 = encode (if accepts b rescue then PJoinAccepted pb else PJoinRefused 0) @ z"
    using assms(17) b(3) by simp
  have skip: "neighbours (skip_rx k n u) = neighbours u" "evs (skip_rx k n u) = evs u" for k n and u :: server_t
    by (simp_all add: skip_rx_def)
  show ?thesis
  proof (cases "nb_neighbours a2 = int MAX_NEIGHBOURS")
    case True
    from join_response_full [OF this pb av2, of p] show ?thesis
      using True a(1) b(1,2) t(3) assms(18) skip by (auto split: if_splits)
  next
    case False
    from join_response_received [OF assms(15) False assms(16) pb av2, of p] obtain j where
      j: "j < MAX_NEIGHBOURS" "sc_sock (neighbours a2 ! j) = - 1" "join_response_body p ka a2 = (Inr None,
        if accepts b rescue then (skip_rx ka (3 + length pb) a2)
            \<lparr>neighbours := (neighbours a2)[j := \<lparr>sc_sock = ka, sc_port = Some pb\<rparr>],
             nb_neighbours := nb_neighbours a2 + 1\<rparr>
        else (skip_rx ka 2 a2)\<lparr>evs := evs a2 @ [Closed ka]\<rparr>)" by blast
    show ?thesis
    proof (cases "accepts b rescue")
      case True
      then show ?thesis using a(1) b(1,2) t(3) j assms(18) False by auto
    next
      case False
      then show ?thesis using a(1) b(1,2) t(3) j(3) assms(18) skip by auto
    qed
  qed
qed

definition asking_servent :: server_t where
  "asking_servent = sample_servent\<lparr>script := (\<lambda>_. [])(SocketCall := [9], ConnectCall := [0])\<rparr>"

definition asked_to_join :: server_t where
  "asked_to_join = sample_servent\<lparr>self_ip := NullPtr, script := (\<lambda>_. [])(Poll 8 := [1]),
     rx := (\<lambda>_. [])(8 := [Chunk (encode (PJoin 1 (cs ''2000'')))])\<rparr>"

definition answered_servent :: "socket_contact_t list \<Rightarrow> server_t" where
  "answered_servent ns = sample_servent\<lparr>neighbours := ns, nb_neighbours := int (used ns),
     rx := (\<lambda>_. [])(9 := [Chunk (encode (PJoinAccepted (cs ''2000'')))])\<rparr>"

definition full_table :: "socket_contact_t list" where
  "full_table = replicate 5 \<lparr>sc_sock = 6, sc_port = Some (cs ''2000'')\<rparr>"

lemma answered_facts:
  "has_address (answered_servent ns) 9" "neighbours (answered_servent ns) = ns"
  "avail 9 (answered_servent ns) = sent 8 [Wrote 8 (encode (PJoinAccepted (cs ''2000'')))] @ []"
  "nb_neighbours (answered_servent ns) = int (used ns)"
  by (simp_all add: answered_servent_def has_address_def) (simp add: sample_servent_def)

lemma answered_ok: "neighbours_ok (answered_servent (neighbours sample_servent))" "neighbours_ok (answered_servent full_table)"
  by (simp_all add: answered_servent_def full_table_def neighbours_ok_def MAX_NEIGHBOURS_def)
    (simp_all add: sample_servent_def)

theorem join_agrees_witness:
  "\<exists>a1 b i a3 j a4. send_join_request (cs ''10.0.0.3'') (cs ''10000'') 1 asking_servent = (Inr 9, a1) \<and>
     handle_awaiting_socket 8 asked_to_join = (Inr AWAIT_KEEP, b) \<and> i < 5 \<and>
     neighbours b = (neighbours sample_servent)[i := \<lparr>sc_sock = 8, sc_port = Some (cs ''2000'')\<rparr>] \<and>
     join_response_body 1 9 (answered_servent (neighbours sample_servent)) = (Inr None, a3) \<and> j < 5 \<and>
     neighbours a3 = (neighbours sample_servent)[j := \<lparr>sc_sock = 9, sc_port = Some (cs ''2000'')\<rparr>] \<and>
     join_response_body 1 9 (answered_servent full_table) = (Inr None, a4) \<and> neighbours a4 = full_table"
proof -
  let ?ip = "cs ''10.0.0.3''" and ?port = "cs ''10000''" and ?own = "cs ''2000''"
  let ?a0 = "asking_servent\<lparr>script := (script asking_servent)(SocketCall := [], ConnectCall := [])\<rparr>"
  let ?a1 = "after_send 9 (encode (PJoin 1 ?own)) ?a0"
  have c: "connect_to ?ip ?port asking_servent = (Inr (CONNECT_OK, Some 9), ?a0)"
    by (simp add: connect_to_def connect_fuel_def connect_loop.simps bnd_run sys_def asking_servent_def sample_servent_def)
  have lp: "listening_port s = Some ?own" if "sockname s = sockname sample_servent" for s
    using that by (simp add: sample_servent_def listening_port_def cs_def dec.simps digit_char_def)
  have sn: "sockname asking_servent = sockname sample_servent" "sockname asked_to_join = sockname sample_servent"
    by (simp_all add: asking_servent_def asked_to_join_def)
  have w: "wx asking_servent 9 = []" by (simp add: asking_servent_def sample_servent_def)
  have s: "send_join_request ?ip ?port 1 asking_servent = (Inr 9, ?a1)" by (rule send_join_run [OF c w lp [OF sn(1)]])
  have b: "ready 8 asked_to_join" "neighbours_ok asked_to_join" "own_end_known asked_to_join 8"
    "has_address asked_to_join 8" "avail 8 asked_to_join = sent 9 [Wrote 9 (encode (PJoin 1 ?own))] @ []"
    "wx asked_to_join 8 = []" "accepts asked_to_join 1"
    using sample_ok by (simp_all add: asked_to_join_def ready_def neighbours_ok_def has_address_def own_end_known_def)
      (simp_all add: sample_servent_def accepts_def MAX_NEIGHBOURS_def)
  have av: "avail 8 asked_to_join = encode (PJoin 1 ?own) @ []" and o: "wf_lstr ?own"
    using b(5) by (simp_all add: wf_lstr_def cs_def)
  obtain t where "handle_awaiting_socket 8 asked_to_join = (Inr (if accepts asked_to_join 1 then AWAIT_KEEP else AWAIT_CLOSE), t)"
    "evs t = evs asked_to_join @ [Wrote 8 (encode (if accepts asked_to_join 1 then PJoinAccepted ?own else PJoinRefused 0))]"
    by (rule waiting_join_run [OF b(1-4) av o b(6) lp [OF sn(2)]])
  then have t: "handle_awaiting_socket 8 asked_to_join = (Inr AWAIT_KEEP, t)"
    "evs t = evs asked_to_join @ [Wrote 8 (encode (PJoinAccepted ?own))]"
    using b(7) by (simp_all del: encode.simps)
  have u: "used (neighbours sample_servent) = 2" "used full_table = 5" "neighbours asked_to_join = neighbours sample_servent"
    by (simp_all add: sample_servent_def full_table_def used_def asked_to_join_def)
  have e: "evs ?a1 = evs ?a0 @ [Wrote 9 (encode (PJoin 1 ?own))]" by (simp add: after_send_def)
  note agree = join_agrees [where p = 1, OF c w lp [OF sn(1)] s e b(1-6) lp [OF sn(2)] t _ answered_facts(1,3) prod.collapse [symmetric]]
  note one = agree [OF answered_ok(1)] and two = agree [OF answered_ok(2)]
  obtain i where i: "i < 5" "neighbours t = (neighbours sample_servent)[i := \<lparr>sc_sock = 8, sc_port = Some ?own\<rparr>]"
    using one b(7) u by (auto simp: MAX_NEIGHBOURS_def)
  obtain q3 a3 where a3: "join_response_body 1 9 (answered_servent (neighbours sample_servent)) = (q3, a3)" by fastforce
  obtain q4 a4 where a4: "join_response_body 1 9 (answered_servent full_table) = (q4, a4)" by fastforce
  obtain j where j: "j < 5" "q3 = Inr None" "neighbours a3 = (neighbours sample_servent)[j := \<lparr>sc_sock = 9, sc_port = Some ?own\<rparr>]"
    using one [unfolded a3] b(7) u by (auto simp: MAX_NEIGHBOURS_def answered_facts(2,4))
  have full: "q4 = Inr None" "neighbours a4 = full_table"
    using two [unfolded a4] b(7) u by (auto simp: MAX_NEIGHBOURS_def answered_facts(2,4))
  show ?thesis
    by (intro exI conjI, rule s, rule t(1), rule i(1), rule i(2), rule a3 [unfolded j(2)], rule j(1), rule j(3),
        rule a4 [unfolded full(1)], rule full(2))
qed

section \<open>The first servent a servent meets\<close>

lemma connect_at_once:
  assumes "resolver s (Some ip) port = Inr (Some nm # ais)" and "script s SocketCall = k # ks"
    and "script s ConnectCall = 0 # rs" and "k \<noteq> - 1"
  shows "connect_to ip port s = (Inr (CONNECT_OK, Some k), s\<lparr>script := (script s)(SocketCall := ks, ConnectCall := rs)\<rparr>)"
  using assms by (simp add: connect_to_def connect_fuel_def connect_loop.simps bnd_run sys_def)

lemma absent_of_none:
  "list_all (\<lambda>n. sc_sock n = - 1) (neighbours s) \<Longrightarrow> ensure_absent_ip ip port s = (Inr 1, s)"
proof -
  have "list_all (\<lambda>n. sc_sock n = - 1) ns \<Longrightarrow> ensure_absent_loop ip port ns s = (Inr 1, s)" for ns
    by (induction ns) (simp_all add: bnd_run same_name_def)
  then show "list_all (\<lambda>n. sc_sock n = - 1) (neighbours s) \<Longrightarrow> ?thesis" by (simp add: ensure_absent_ip_def bnd_run)
qed

text \<open>One answer awaited.\<close>

lemma one_response:
  assumes "repr l [k]" and "\<And>p. join_response_body p k s = (Inr None, t)"
  shows "handle_join_responses l s = (Inr (), t)"
proof -
  obtain as where as: "owns l as" "head l = first as 0" "[k] = map snd as" using assms(1) by (auto simp: repr_def)
  then obtain p where p: "as = [(p, k)]" by (cases as) auto
  have "foreach (\<lambda>_. l) join_response_body s = foreach_spec join_response_body as s"
    by (rule foreach_owned [where getf = "\<lambda>_. l"]) (simp_all add: as)
  then show ?thesis using assms(2) p by (simp add: handle_join_responses_def bnd_run)
qed

text \<open>The string a servent takes for its own address is freed as soon as it has been set.\<close>

lemma own_search_freed:
  assumes "self_ip s = FreedPtr" and "forks s" and "\<not> has_entry s name"
  shows "fst (answer_local_search_request name s) = Inl (UB UseAfterFree)"
  using search_file_run [OF assms(2), of name] assms(1,3)
  by (simp add: answer_local_search_request_def Let_def bnd_run write_to_packet_run write_self_def deref_def)

text \<open>What the contact says on the first connection: it has no neighbours. The first socket is closed.\<close>

lemma contact_asked:
  assumes "resolver s (Some ip) port = Inr (Some nm # ais)" and "script s SocketCall = k # ks"
    and "script s ConnectCall = 0 # rs" and "k \<noteq> - 1" and "wx s k = []" and "self_ip s = NullPtr"
    and "sockname s k = Inet own q" and "avail k s = encode (PNeighboursList []) @ rest"
    and "length ip \<le> INET6_ADDRSTRLEN" and "length port \<le> 5"
  shows "join_through (Suc n) ip port s =
    bnd (join ip port (list_create (Some compare_ints) add_new_socket) 1) (\<lambda>awaiting.
      seq (handle_join_responses awaiting) (bnd (gets nb_neighbours) (\<lambda>_.
      bnd (local_run awaiting list_destroy) (\<lambda>_. ret 0))))
    ((skip_rx k 2 s)\<lparr>script := (script s)(SocketCall := ks, ConnectCall := rs), self_ip := FreedPtr,
      evs := evs s @ [Printed (cs ''toto'' @ [10]), Wrote k [CMSG_NEIGHBOURS], Closed k]\<rparr>)"
proof -
  let ?c = "(script s)(SocketCall := ks, ConnectCall := rs)"
  let ?e = "evs s @ [Printed (cs ''toto'' @ [10]), Wrote k [CMSG_NEIGHBOURS]]"
  let ?s2 = "s\<lparr>script := ?c, evs := ?e\<rparr>" and ?s3 = "s\<lparr>script := ?c, evs := ?e, self_ip := FreedPtr\<rparr>"
  have g: "print (cs ''toto'' @ [10]) s = (Inr (), greeted s)" by (simp add: print_run greeted_def)
  have "connect_to ip port (greeted s) = (Inr (CONNECT_OK, Some k), (greeted s)\<lparr>script := ?c\<rparr>)"
    using connect_at_once [of "greeted s" ip port nm ais k ks rs] assms(1-4) by (simp add: greeted_def)
  then have 1: "send_neighbours_request ip port (greeted s) = (Inr k, ?s2)"
    using assms(5) by (simp add: send_neighbours_request_def bnd_run write_to_fd_free greeted_def)
  have 2: "deduce_self_ip k ?s2 = (Inr (), ?s3)"
    using assms(6,7) by (simp add: deduce_self_ip_def bnd_run extract_ip_port_run sock_name_def)
  have a: "avail k ?s3 = SMSG_NEIGHBOURS # 0 # rest"
    using assms(8) by (simp add: enc_counted_def u8_def)
  have 3: "read_u8 k ?s3 = (Inr SMSG_NEIGHBOURS, skip_rx k 1 ?s3)" by (rule read_u8_avail [OF a])
  have a1: "avail k (skip_rx k 1 ?s3) = 0 # rest" using a by simp
  have two: "skip_rx k 1 (skip_rx k 1 ?s3) = skip_rx k 2 ?s3"
    using a by (subst skip_rx_skip_rx) (simp_all add: numeral_2_eq_2)
  have 4: "read_u8 k (skip_rx k 1 ?s3) = (Inr 0, skip_rx k 2 ?s3)" using read_u8_avail [OF a1] unfolding two .
  have 5: "sys_close k (skip_rx k 2 ?s3) = (Inr (), (skip_rx k 2 ?s3)\<lparr>evs := ?e @ [Closed k]\<rparr>)"
    by (simp add: sys_close_run)
  have st: "(skip_rx k 2 ?s3)\<lparr>evs := ?e @ [Closed k]\<rparr> = (skip_rx k 2 s)\<lparr>script := ?c, self_ip := FreedPtr,
      evs := evs s @ [Printed (cs ''toto'' @ [10]), Wrote k [CMSG_NEIGHBOURS], Closed k]\<rparr>"
    by (simp add: skip_rx_def)
  have name: "copy_name [] ip port = ret [(ip, port)]"
    using assms(9,10) by (simp add: copy_name_def MAX_NEIGHBOURS_def)
  have un: "0 < MAX_NEIGHBOURS" "\<not> 0 < (0 :: nat)" by (simp_all add: MAX_NEIGHBOURS_def)
  show ?thesis
    unfolding join_through.simps st [symmetric]
    by (simp only: seq_run [of "print x" for x] bnd_run [of "send_neighbours_request x y" for x y]
        seq_run [of "deduce_self_ip x" for x] bnd_run [of "read_u8 x" for x] seq_run [of "sys_close x" for x]
        g 1 2 3 4 5 prod.case sum.case assms(4) if_False simp_thms unat_0 join_announced.simps prog_laws un
        if_True name)
qed

text \<open>
  C25. A servent that joins the network through a contact that has no neighbours and accepts it - it
  is asked to as a rescue - gets the contact as its neighbour, under the port the contact listens on,
  after two connections of which the first is closed; but its own address is by then a string it has
  freed, and the first search of its client for a file it does not have reads it.
\<close>

theorem first_join:
  assumes "0 \<le> nb_attempts" and "neighbours_ok s" and "nb_neighbours s = 0" and "self_ip s = NullPtr"
    and "resolver s (Some ip) port = Inr (Some nm # ais)" and "script s SocketCall = k1 # k2 # ks"
    and "script s ConnectCall = 0 # 0 # rs" and "k1 \<noteq> - 1" and "k2 \<noteq> - 1" and "k1 \<noteq> k2"
    and "wx s k1 = []" and "wx s k2 = []" and "sockname s k1 = Inet own q" and "listening_port s = Some lp"
    and "avail k1 s = encode (PNeighboursList []) @ rest1"
    and "avail k2 s = encode (PJoinAccepted contact_port) @ rest2" and "wf_lstr contact_port" and "has_address s k2"
    and "length ip \<le> INET6_ADDRSTRLEN" and "length port \<le> 5"
  shows "\<exists>t. join_network_through ip port nb_attempts s = (Inr 0, t) \<and> nb_neighbours t = 1 \<and>
    (\<exists>i < MAX_NEIGHBOURS. neighbours t = (neighbours s)[i := \<lparr>sc_sock = k2, sc_port = Some contact_port\<rparr>]) \<and>
    evs t = evs s @ [Printed (cs ''toto'' @ [10]), Wrote k1 (encode PNeighbours), Closed k1,
      Wrote k2 (encode (PJoin 1 lp))] \<and>
    (forks s \<and> \<not> has_entry s name \<longrightarrow> fst (answer_local_search_request name t) = Inl (UB UseAfterFree))"
proof -
  obtain n where n: "nat (nb_attempts + 1) = Suc n" using assms(1) by (cases "nat (nb_attempts + 1)") auto
  let ?e = "evs s @ [Printed (cs ''toto'' @ [10]), Wrote k1 [CMSG_NEIGHBOURS], Closed k1]"
  let ?l = "list_create (Some compare_ints) add_new_socket"
  define u where "u = (skip_rx k1 2 s)\<lparr>script := (script s)(SocketCall := k2 # ks, ConnectCall := 0 # rs),
    self_ip := FreedPtr, evs := ?e\<rparr>"
  define v where "v = after_send k2 (encode (PJoin 1 lp)) (u\<lparr>script := (script u)(SocketCall := ks, ConnectCall := rs)\<rparr>)"
  have fu: "resolver u = resolver s" "script u SocketCall = k2 # ks" "script u ConnectCall = 0 # rs" "wx u k2 = []"
    "listening_port u = Some lp" "neighbours u = neighbours s"
    using assms(12,14) by (simp_all add: u_def listening_port_def) (simp_all add: skip_rx_def)
  have fv: "neighbours v = neighbours s" "nb_neighbours v = 0" "self_ip v = FreedPtr" "avail k2 v = avail k2 s"
    "peername v = peername s" "files v = files s" "script v ForkCall = script s ForkCall"
    "script v PipeCall = script s PipeCall" "script v OpendirCall = script s OpendirCall"
    "evs v = ?e @ [Wrote k2 (encode (PJoin 1 lp))]" "wx v = wx s"
    using assms(3,10) by (simp_all add: v_def u_def after_send_def skip_rx_def)
  have free: "list_all (\<lambda>n. sc_sock n = - 1) (neighbours s)"
    using assms(2,3) by (auto simp: neighbours_ok_def used_def list_all_iff filter_empty_conv)
  have c2: "connect_to ip port u = (Inr (CONNECT_OK, Some k2), u\<lparr>script := (script u)(SocketCall := ks, ConnectCall := rs)\<rparr>)"
    using connect_at_once [of u ip port nm ais k2 ks rs] assms(5,9) fu(1-3) by simp
  have push: "list_push_back k2 ?l = (Inr (), pushed ?l k2)" "repr (pushed ?l k2) [k2]"
    using push_repr [OF repr_create [of "Some compare_ints" add_new_socket], of k2]
    by (simp_all add: list_create_def add_new_socket_def)
  have join: "join ip port ?l 1 u = (Inr (pushed ?l k2), v)"
    using absent_of_none [of u ip port] free fu(6) send_join_run [OF c2 fu(4,5), of 1] assms(9) push(1)
    by (simp add: join_def bnd_run local_run_run v_def)
  have ok: "neighbours_ok v" "nb_neighbours v \<noteq> int MAX_NEIGHBOURS" "has_address v k2"
    using assms(2,3,18) fv(1,2,5) by (simp_all add: neighbours_ok_def MAX_NEIGHBOURS_def has_address_def)
  have av: "avail k2 v = encode (if True then PJoinAccepted contact_port else PJoinRefused 0) @ rest2"
    using assms(16) fv(4) by simp
  obtain i where i: "i < MAX_NEIGHBOURS" "join_response_body 1 k2 v = (Inr None, (skip_rx k2 (3 + length contact_port) v)
      \<lparr>neighbours := (neighbours v)[i := \<lparr>sc_sock = k2, sc_port = Some contact_port\<rparr>], nb_neighbours := nb_neighbours v + 1\<rparr>)"
    using join_response_received [OF ok assms(17) av, of 1] unfolding if_True by blast
  let ?t = "(skip_rx k2 (3 + length contact_port) v)\<lparr>neighbours := (neighbours v)[i := \<lparr>sc_sock = k2, sc_port = Some contact_port\<rparr>],
      nb_neighbours := nb_neighbours v + 1\<rparr>"
  have resp: "handle_join_responses (pushed ?l k2) v = (Inr (), ?t)"
    using i(2) by (intro one_response [OF push(2)]) (simp add: join_response_body_def)
  have "join_network_through ip port nb_attempts s = (Inr 0, ?t)"
    unfolding join_network_through_def n
      contact_asked [OF assms(5,6,7,8,11,4,13,15,19,20), of n, folded u_def]
    using join resp list_destroy_repr [OF push(2)] by (simp add: bnd_run seq_run local_run_run)
  moreover have "fst (answer_local_search_request name ?t) = Inl (UB UseAfterFree)" if "forks s" "\<not> has_entry s name"
    using that fv(3,6-9) by (intro own_search_freed) (simp_all add: skip_rx_def forks_def has_entry_def entries_def)
  ultimately show ?thesis
    using i(1) fv(1,2,10) by (intro exI [of _ ?t]) (auto simp: skip_rx_def)
qed

definition lonely_servent :: server_t where
  "lonely_servent = sample_servent\<lparr>neighbours := replicate 5 \<lparr>sc_sock = - 1, sc_port = None\<rparr>, nb_neighbours := 0,
     self_ip := NullPtr, script := (\<lambda>_. [])(SocketCall := [9, 10], ConnectCall := [0, 0]),
     rx := (\<lambda>_. [])(9 := [Chunk (encode (PNeighboursList []))], 10 := [Chunk (encode (PJoinAccepted (cs ''4000'')))])\<rparr>"

theorem first_join_witness:
  "\<exists>t. join_network_through (cs ''10.0.0.3'') (cs ''10000'') 3 lonely_servent = (Inr 0, t) \<and> nb_neighbours t = 1 \<and>
     fst (answer_local_search_request (cs ''rock'') t) = Inl (UB UseAfterFree)"
proof -
  let ?s = lonely_servent
  have "neighbours_ok ?s"
    by (simp add: neighbours_ok_def lonely_servent_def sample_servent_def MAX_NEIGHBOURS_def used_def)
  moreover have "nb_neighbours ?s = 0" "self_ip ?s = NullPtr" "script ?s SocketCall = 9 # 10 # []"
    "resolver ?s (Some (cs ''10.0.0.3'')) (cs ''10000'') = Inr (Some (cs ''10.0.0.3'', cs ''10000'') # [])"
    "script ?s ConnectCall = 0 # 0 # []" "wx ?s 9 = []" "wx ?s 10 = []" "sockname ?s 9 = Inet (cs ''10.0.0.1'') 2000"
    "avail 9 ?s = encode (PNeighboursList []) @ []" "avail 10 ?s = encode (PJoinAccepted (cs ''4000'')) @ []"
    "wf_lstr (cs ''4000'')" "has_address ?s 10" "length (cs ''10.0.0.3'') \<le> INET6_ADDRSTRLEN" "length (cs ''10000'') \<le> 5"
    by (simp_all add: lonely_servent_def sample_servent_def wf_lstr_def has_address_def cs_def INET6_ADDRSTRLEN_def
        del: encode.simps)
  moreover have "listening_port ?s = Some (cs ''2000'')"
    by (simp add: lonely_servent_def sample_servent_def listening_port_def cs_def dec.simps digit_char_def)
  moreover have "forks ?s" "\<not> has_entry ?s (cs ''rock'')"
    by (simp_all add: lonely_servent_def sample_servent_def forks_def has_entry_def entries_def entry_name_def dir_prefix_def SLASH_def
        SEARCH_DIRECTORY_def map_filter_simps cs_def Let_def)
  ultimately show ?thesis
    using first_join [of 3 ?s "cs ''10.0.0.3''" "cs ''10000''" "(cs ''10.0.0.3'', cs ''10000'')" "[]" 9 10 "[]" "[]"
        "cs ''10.0.0.1''" 2000 "cs ''2000''" "[]" "cs ''4000''" "[]" "cs ''rock''"]
    by auto
qed

end
