(* ===== verification/Server_Address.thy ===== *)
theory Server_Address
  imports Server_Invariant Server_Contact
begin

text \<open>
  The address of the servent, \<open>server->self_ip\<close>: NULL at the start, learnt from the first connection that
  shows it, and read by the answers to searches. A servent that starts a network learns it from the first
  request to join and owns it from then on; one that joins through a contact has freed it.
\<close>

section \<open>What a turn keeps\<close>

text \<open>
  The contract of an invariant with all that happens in a turn: it depends on the neighbours and on
  the address only, and is kept where these change.
\<close>

locale turn_frame = server_frame +
  assumes frame_awaiting: "P (s\<lparr>awaiting_sockets := l\<rparr>) = P s"
    and frame_logs: "P (s\<lparr>received_search_requests := g\<rparr>) = P s"
    and frame_client: "P (s\<lparr>client_socket := k\<rparr>) = P s"
    and frame_handshake: "P (s\<lparr>handshake_flag := k\<rparr>) = P s"
    and frame_flag: "P (s\<lparr>loop_flag := k\<rparr>) = P s"
    and joins: "keeps P (handle_join_request sk)"
    and leaves: "keeps P (handle_leave i)"
begin

lemma keeps_awaiting: "keeps P handle_awaiting_sockets"
  unfolding handle_awaiting_sockets_def
  by (rule keeps_sweep)
    (auto simp: frame_awaiting awaiting_body_def handle_awaiting_socket_def poll_fd_def
      intro!: keep_rules os_keeps keeps_read_u8 keeps_compute_and_send joins keeps_handle_remote_download_request)

lemma keeps_neighbours: "keeps P handle_neighbours"
proof -
  have one: "keeps P (handle_neighbour i)" for i
    unfolding handle_neighbour_def poll_fd_def
    by (intro keep_rules os_keeps keeps_read_u8 keeps_handle_remote_search_request keeps_handle_remote_search_answer)
  have "keeps P (handle_neighbours_loop is)" for "is"
  proof (induction "is")
    case Nil
    show ?case unfolding handle_neighbours_loop.simps by (rule keeps_ret)
  next
    case (Cons i "is")
    show ?case unfolding handle_neighbours_loop.simps by (intro keep_rules one leaves Cons.IH)
  qed
  then show ?thesis by (simp add: handle_neighbours_def)
qed

lemma keeps_requests: "keeps P handle_pending_requests"
  unfolding handle_pending_requests_def handle_pending_request_def
  by (rule keeps_sweep)
    (auto simp: frame_requests split: request_t.split intro!: keep_rules
      intro: keeps_answer_local_search keeps_answer_remote_search keeps_answer_local_download keeps_answer_remote_download)

lemma keeps_downloads: "keeps P handle_pending_downloads"
  unfolding handle_pending_downloads_def handle_pending_download_def poll_fd_def
  by (rule keeps_sweep; (simp only: frame_downloads)?)
    (intro keep_rules os_keeps keeps_read_u8 keeps_handle_remote_download_answer)

lemma keeps_logs: "keeps P (update_log_timers d)"
  unfolding update_log_timers_def by (rule keeps_sweep) (auto simp: frame_logs intro: keep_rules)

lemma keeps_client: "keeps P handle_client"
  unfolding handle_client_def poll_fd_def
  by (intro keep_rules os_keeps keeps_read_u8 keeps_leave_network keeps_handle_local_search keeps_handle_local_download)

lemma maintains_accept: "maintains P (handle_accept_result r)"
proof -
  have hs: "keeps P (handshake k)" for k
    unfolding handshake_def
    by (intro keep_rules keeps_read_u8 keeps_write_to_fd) (simp_all add: keeps_modify frame_client frame_handshake)
  have hr: "maintains P (handle_handshake_result k)" for k
    by (auto simp: maintains_def handle_handshake_result_def elim!: seq_InrE)
  have nw: "keeps P (handle_new_socket k)" for k
    unfolding handle_new_socket_def push_awaiting_def by (rule keeps_zoom) (simp add: frame_awaiting)
  have ms: "maintains P (extract_ip_port_from_socket a b)" "maintains P (as_string c)" for a b c
    by (intro maintains_keeps keep_rules)+
  show ?thesis
    unfolding handle_accept_result_def
    by (intro maintain_rules maintains_keeps [OF hs] hr maintains_keeps [OF nw] ms maintains_keeps [OF keeps_ret])
qed

lemma turn_maintains: "maintains P (loop_turn b e tm)"
proof -
  have flag: "keeps P (modify (\<lambda>s. s\<lparr>loop_flag := k\<rparr>))" for k by (simp add: keeps_modify frame_flag)
  have ds: "keeps P display_neighbours" unfolding display_neighbours_def by (intro keep_rules)
  show ?thesis
    unfolding loop_turn_def Let_def
    by (intro maintain_rules maintains_accept maintains_keeps [OF keeps_gets] maintains_keeps [OF keeps_ret]
        maintains_keeps [OF keeps_attempt_accept] maintains_keeps [OF keeps_awaiting] maintains_keeps [OF ds]
        maintains_keeps [OF keeps_neighbours] maintains_keeps [OF keeps_downloads] maintains_keeps [OF keeps_client]
        maintains_keeps [OF flag] maintains_keeps [OF keeps_requests] maintains_keeps [OF keeps_logs]
        maintains_keeps [OF keeps_emit])
qed

end

section \<open>A servent that has joined through another one\<close>

definition freed_address :: "server_t \<Rightarrow> bool" where
  "freed_address s \<longleftrightarrow> self_ip s = FreedPtr"

interpretation dg: join_frame freed_address
  by unfold_locales (auto simp: freed_address_def add_neighbour_def intro!: keep_rules keeps_modify)

lemma dangling_leave: "keeps freed_address (handle_leave i)"
  unfolding handle_leave_def
  by (intro keep_rules dg.os_keeps dg.keeps_rejoin_loop keeps_modify) (simp add: freed_address_def)

lemma dangling_join_request: "keeps freed_address (handle_join_request sk)"
  unfolding handle_join_request_def join_answer_def add_neighbour_def
  by (intro keeps_seq [OF keeps_learning] keep_rules dg.os_keeps dg.keeps_read_u8 dg.keeps_read_lstr
      dg.keeps_answer_join_request keeps_modify) (simp_all add: freed_address_def)

interpretation dgt: turn_frame freed_address
proof unfold_locales
  show "keeps freed_address (handle_join_request sk)" for sk by (rule dangling_join_request)
  show "keeps freed_address (handle_leave i)" for i by (rule dangling_leave)
qed (simp_all add: freed_address_def)

section \<open>A servent that is the first of its network\<close>

text \<open>
  Until a neighbour comes it has no address; from then on it has one, in memory it owns: the name
  of its own end of a connection.
\<close>

definition own_end :: "(int \<Rightarrow> sockaddr) \<Rightarrow> cstr \<Rightarrow> bool" where
  "own_end name x \<longleftrightarrow> (\<exists>sk p. name sk = Inet x p \<or> name sk = Inet6 x p)"

lemma own_endI: "name sk = Inet x p \<Longrightarrow> own_end name x" "name sk = Inet6 x p \<Longrightarrow> own_end name x"
  by (auto simp: own_end_def)

definition live_address :: "server_t \<Rightarrow> bool" where
  "live_address s \<longleftrightarrow> (\<exists>x. self_ip s = Live x \<and> own_end (sockname s) x)"

definition no_neighbours :: "socket_contact_t list" where
  "no_neighbours = replicate MAX_NEIGHBOURS \<lparr>sc_sock = - 1, sc_port = None\<rparr>"

definition own_address :: "server_t \<Rightarrow> bool" where
  "own_address s \<longleftrightarrow> live_address s \<or> self_ip s = NullPtr \<and> neighbours s = no_neighbours"

interpretation al: join_frame live_address
  by unfold_locales (auto simp: live_address_def add_neighbour_def intro!: keep_rules keeps_modify)

interpretation st: server_frame own_address
  by unfold_locales (simp_all add: own_address_def live_address_def)

lemma keeps_settled_learn:
  assumes "keeps own_address m" and "\<And>s a t. m s = (Inr a, t) \<Longrightarrow> own_address s \<Longrightarrow> live_address t" and "keeps live_address k"
  shows "keeps own_address (seq m k)"
proof (rule keepsI)
  fix s assume s: "own_address s"
  obtain r t where m: "m s = (r, t)" by fastforce
  show "own_address (snd (seq m k s))"
  proof (cases r)
    case (Inl e)
    then show ?thesis using m keepsD [OF assms(1) s m] by (simp add: seq_run)
  next
    case (Inr a)
    then have "live_address (snd (k t))" using assms(2) [of s a t] assms(3) m s by (auto simp: keeps_def)
    then show ?thesis using m Inr by (simp add: seq_run own_address_def)
  qed
qed

text \<open>The first part of the handler of a request to join, which learns the address.\<close>

definition learn_address :: "int \<Rightarrow> unit server_prog" where
  "learn_address sk = bnd (gets self_ip) (\<lambda>p.
     if p = NullPtr then bnd (extract_ip_from_socket sk 0) (\<lambda>ip.
       bnd (as_string ip) (\<lambda>x. modify (\<lambda>s. s\<lparr>self_ip := Live x\<rparr>)))
     else ret ())"

lemma learn_address_run:
  "learn_address sk s = (if self_ip s \<noteq> NullPtr then (Inr (), s) else case sockname s sk of
      Inet x p \<Rightarrow> (Inr (), s\<lparr>self_ip := Live x\<rparr>) | Inet6 x p \<Rightarrow> (Inr (), s\<lparr>self_ip := Live x\<rparr>)
    | OtherFamily \<Rightarrow> (Inl (UB Uninit), s))"
  by (simp add: learn_address_def bnd_run extract_ip_run as_string_def sock_name_def split: sockaddr.split)

lemma settled_join_request: "keeps own_address (handle_join_request sk)"
  unfolding handle_join_request_def learn_address_def [symmetric]
proof (rule keeps_settled_learn)
  show "keeps own_address (learn_address sk)"
    by (auto simp: keeps_def learn_address_run own_address_def live_address_def intro: own_endI split: sockaddr.split)
  show "keeps live_address (bnd (read_u8 sk) (\<lambda>rescue. bnd (read_lstr sk) (\<lambda>port. bnd (join_answer rescue) (\<lambda>answer.
      seq (answer_join_request sk answer) (seq (if answer = 1 then add_neighbour sk port else ret ()) (ret answer))))))"
    unfolding join_answer_def add_neighbour_def
    by (intro keep_rules al.os_keeps al.keeps_read_u8 al.keeps_read_lstr al.keeps_answer_join_request keeps_modify)
      (simp add: live_address_def)
qed (auto simp: learn_address_run own_address_def live_address_def intro: own_endI split: sockaddr.splits if_splits)

text \<open>A table without a neighbour has none to join the network through.\<close>

lemma rejoin_none:
  "neighbours s = no_neighbours \<Longrightarrow> list_all (\<lambda>i. i < MAX_NEIGHBOURS) is \<Longrightarrow> rejoin_loop is s = (Inr (), s)"
  by (induction "is") (simp_all add: bnd_run no_neighbours_def)

lemma settled_leave: "keeps own_address (handle_leave i)"
proof -
  have al: "keeps live_address (handle_leave i)"
    unfolding handle_leave_def
    by (intro keep_rules al.os_keeps al.keeps_rejoin_loop keeps_modify) (simp add: live_address_def)
  have "own_address (snd (handle_leave i s))" if "self_ip s = NullPtr" "neighbours s = no_neighbours" for s
  proof -
    have "no_neighbours[i := \<lparr>sc_sock = - 1, sc_port = None\<rparr>] = no_neighbours"
      by (cases "i < MAX_NEIGHBOURS") (simp_all add: no_neighbours_def list_update_same_conv list_update_beyond)
    then show ?thesis
      using that by (simp add: handle_leave_def bnd_run seq_run sys_close_run rejoin_none list_all_iff own_address_def)
  qed
  then show ?thesis using al by (auto simp: keeps_def own_address_def)
qed

interpretation stt: turn_frame own_address
proof unfold_locales
  show "keeps own_address (handle_join_request sk)" for sk by (rule settled_join_request)
  show "keeps own_address (handle_leave i)" for i by (rule settled_leave)
qed (simp_all add: own_address_def live_address_def)

text \<open>An address it has is never exchanged for another one.\<close>

interpretation kp: join_frame "\<lambda>s. self_ip s = Live x" for x
  by unfold_locales (auto simp: add_neighbour_def intro!: keep_rules keeps_modify)

lemma kept_leave: "keeps (\<lambda>s. self_ip s = Live x) (handle_leave i)"
  unfolding handle_leave_def by (intro keep_rules kp.os_keeps kp.keeps_rejoin_loop keeps_modify) simp

lemma kept_join_rest:
  "keeps (\<lambda>s. self_ip s = Live x) (bnd (read_u8 sk) (\<lambda>rescue. bnd (read_lstr sk) (\<lambda>port. bnd (join_answer rescue) (\<lambda>answer.
      seq (answer_join_request sk answer) (seq (if answer = 1 then add_neighbour sk port else ret ()) (ret answer))))))"
  unfolding join_answer_def add_neighbour_def
  by (intro keep_rules kp.os_keeps kp.keeps_read_u8 kp.keeps_read_lstr kp.keeps_answer_join_request keeps_modify) simp

lemma kept_join_request: "keeps (\<lambda>s. self_ip s = Live x) (handle_join_request sk)"
  unfolding handle_join_request_def learn_address_def [symmetric]
  by (rule keeps_seq [OF _ kept_join_rest]) (simp add: keeps_def learn_address_run)

interpretation kpt: turn_frame "\<lambda>s. self_ip s = Live x" for x
proof unfold_locales
  show "keeps (\<lambda>s. self_ip s = Live x) (handle_join_request sk)" for x sk by (rule kept_join_request)
  show "keeps (\<lambda>s. self_ip s = Live x) (handle_leave i)" for x i by (rule kept_leave)
qed simp_all

text \<open>A request to join shows the servent its own end of the connection, whatever the request says.\<close>

lemma join_request_learns:
  assumes "self_ip s = NullPtr" and "sockname s sk = Inet x p \<or> sockname s sk = Inet6 x p"
  shows "self_ip (snd (handle_join_request sk s)) = Live x"
proof -
  have l: "learn_address sk s = (Inr (), s\<lparr>self_ip := Live x\<rparr>)"
    using assms by (auto simp: learn_address_run)
  show ?thesis
    unfolding handle_join_request_def learn_address_def [symmetric] seq_run [of "learn_address sk"] l
    using kept_join_rest [of x sk, unfolded keeps_def] by simp
qed

section \<open>How a servent starts\<close>

lemma first_settled:
  assumes "start_server True lp ip port s = (Inr (), t)"
  shows "own_address t"
proof -
  define pre :: "unit server_prog" where "pre = bnd (create_listening_socket (case lp of None \<Rightarrow> SERVER_LISTEN_PORT | Some p \<Rightarrow> p)) (\<lambda>ls.
     if ls < 0 then halt (Exit 1) else modify (\<lambda>s. s\<lparr>listening_socket := ls\<rparr>))"
  have ini: "own_address (init_server s)"
    by (simp add: own_address_def init_server_def no_neighbours_def)
  have kp: "keeps own_address pre"
    unfolding pre_def
    by (intro keep_rules st.keeps_create_listening_socket keeps_modify) (simp add: own_address_def live_address_def)
  have "start_server True lp ip port s = seq pre (modify init_lists) (init_server s)"
    by (auto simp: pre_def start_server_def seq_run bnd_run split: prod.splits sum.splits)
  with assms have "seq pre (modify init_lists) (init_server s) = (Inr (), t)" by simp
  then obtain a u where u: "pre (init_server s) = (Inr a, u)" "modify init_lists u = (Inr (), t)"
    by (rule seq_InrE)
  have "own_address u" by (rule keepsD [OF kp ini u(1)])
  then show ?thesis
    using u(2) [symmetric] by (simp add: own_address_def live_address_def init_lists_def)
qed

text \<open>
  The request for neighbours comes first; what follows, all the attempts of the contact and the
  attempts through others included, finds the address learnt and freed.
\<close>

lemma join_through_split:
  "\<exists>later. join_through (Suc k) ip port =
     seq (print (cs ''toto'' @ [10])) (bnd (send_neighbours_request ip port) (\<lambda>socket.
     if socket = - 1 then ret (- 1) else seq (deduce_self_ip socket) (later socket))) \<and>
     (\<forall>sk. keeps freed_address (later sk))"
  by (intro exI conjI, rule join_through.simps(2))
    (assumption | rule allI keeps_bnd_pair [OF dg.join_announced_gives [OF good_socks_create]]
      keeps_bnd_pair [OF dg.contact_gives] dg.keeps_handle_join_responses dg.keeps_join_through keep_rules
      dg.keeps_read_u8 dg.os_keeps | simp)+


lemma deduce_dangles: "deduce_self_ip sk s = (Inr (), t) \<Longrightarrow> self_ip s = NullPtr \<Longrightarrow> freed_address t"
  unfolding deduce_self_ip_def freed_address_def
  by (elim bnd_InrE) (auto split: if_splits elim!: bnd_InrE)

interpretation nl: server_frame "\<lambda>s. self_ip s = NullPtr"
  by unfold_locales simp_all

lemma join_through_dangles:
  assumes "join_through (Suc k) ip port s = (Inr r, t)" and "self_ip s = NullPtr" and "r \<noteq> - 1"
  shows "freed_address t"
proof -
  obtain later where later: "\<And>sk. keeps freed_address (later sk)" and "join_through (Suc k) ip port =
     seq (print (cs ''toto'' @ [10])) (bnd (send_neighbours_request ip port) (\<lambda>socket.
     if socket = - 1 then ret (- 1) else seq (deduce_self_ip socket) (later socket)))"
    using join_through_split by blast
  with assms(1) obtain a u where u: "print (cs ''toto'' @ [10]) s = (Inr a, u)"
    and "bnd (send_neighbours_request ip port) (\<lambda>socket.
     if socket = - 1 then ret (- 1) else seq (deduce_self_ip socket) (later socket)) u = (Inr r, t)"
    by (auto elim: seq_InrE)
  then obtain sk v where v: "send_neighbours_request ip port u = (Inr sk, v)"
    and rest: "(if sk = - 1 then ret (- 1) else seq (deduce_self_ip sk) (later sk)) v = (Inr r, t)"
    by (auto elim: bnd_InrE)
  have "self_ip v = NullPtr"
    by (rule keepsD [OF nl.keeps_send_neighbours_request keepsD [OF nl.keeps_print assms(2) u] v])
  moreover obtain w where "deduce_self_ip sk v = (Inr (), w)" "later sk w = (Inr r, t)"
    using rest assms(3) by (auto elim!: seq_InrE split: if_splits)
  ultimately show ?thesis using deduce_dangles keepsD [OF later] by blast
qed

lemma joined_dangling:
  assumes "start_server False lp ip port s = (Inr (), t)"
  shows "freed_address t"
proof -
  define pre :: "unit server_prog" where "pre = bnd (create_listening_socket (case lp of None \<Rightarrow> SERVER_LISTEN_PORT | Some p \<Rightarrow> p)) (\<lambda>ls.
     if ls < 0 then halt (Exit 1) else modify (\<lambda>s. s\<lparr>listening_socket := ls\<rparr>))"
  define j where "j = join_network ip port"
  have ini: "self_ip (init_server s) = NullPtr" by (simp add: init_server_def)
  have kp: "keeps (\<lambda>s. self_ip s = NullPtr) pre"
    unfolding pre_def by (intro keep_rules nl.keeps_create_listening_socket keeps_modify) simp
  have "start_server False lp ip port s = seq pre (seq (bnd j (\<lambda>res.
      if res = - 1 then seq (bnd (gets listening_socket) sys_close) (halt (Exit 1)) else ret ())) (modify init_lists)) (init_server s)"
    by (auto simp: pre_def j_def start_server_def seq_run bnd_run split: prod.splits sum.splits)
  with assms obtain a u res v where u: "pre (init_server s) = (Inr a, u)" and j: "j u = (Inr res, v)"
    and res: "res \<noteq> - 1" and t: "t = init_lists v"
    by (auto elim!: seq_InrE bnd_InrE split: if_splits)
  have "nat (JOIN_MAX_ATTEMPTS + 1) = Suc 5" by (simp add: JOIN_MAX_ATTEMPTS_def)
  then obtain n where n: "nat (JOIN_MAX_ATTEMPTS + 1) = Suc n" by blast
  have "\<exists>k i p. join_network ip port = join_through (Suc k) i p"
    unfolding join_network_def join_network_through_def n
    by (cases ip; cases port) (simp del: join_through.simps, blast)+
  then obtain k i p where "j = join_through (Suc k) i p" unfolding j_def by blast
  then have "freed_address v"
    using join_through_dangles [of k i p u res v] j res keepsD [OF kp ini u] by simp
  then show ?thesis using t by (simp add: freed_address_def init_lists_def)
qed

section \<open>Everything that follows\<close>

text \<open>The states a servent reaches from one of its states: by turns, and by SIGINT.\<close>

inductive onward :: "server_t \<Rightarrow> timers \<Rightarrow> server_t \<Rightarrow> timers \<Rightarrow> bool" for s0 tm0 where
  here: "onward s0 tm0 s0 tm0"
| turned: "onward s0 tm0 s tm \<Longrightarrow> loop_flag s = 1 \<Longrightarrow> loop_turn b e tm s = (Inr tm', t) \<Longrightarrow> onward s0 tm0 t tm'"
| interrupted: "onward s0 tm0 s tm \<Longrightarrow> onward s0 tm0 (handle_sigint s) tm"

lemma onward_maintains:
  assumes "onward s0 tm0 s tm" and "P s0" and "\<And>b e tm. maintains P (loop_turn b e tm)"
    and "\<And>s. P s \<Longrightarrow> P (s\<lparr>loop_flag := 0\<rparr>)"
  shows "P s"
  using assms(1)
proof induction
  case (turned s tm b e tm' t)
  then show ?case using maintainsD [OF assms(3)] by blast
qed (simp_all add: assms handle_sigint_def)

lemma reachable_onward:
  "reachable s tm \<Longrightarrow> \<exists>fm lp ip port s0 s1. start_server fm lp ip port s0 = (Inr (), s1) \<and> onward s1 start_timers s tm"
  by (induction rule: reachable.induct) (blast intro: onward.intros)+

lemma onward_settled: "onward s0 tm0 s tm \<Longrightarrow> own_address s0 \<Longrightarrow> own_address s"
  by (rule onward_maintains [where P = own_address], assumption, assumption, rule stt.turn_maintains)
    (simp add: own_address_def live_address_def)

lemma onward_dangling: "onward s0 tm0 s tm \<Longrightarrow> freed_address s0 \<Longrightarrow> freed_address s"
  by (rule onward_maintains [where P = freed_address], assumption, assumption, rule dgt.turn_maintains)
    (simp add: freed_address_def)

lemma used_no_neighbours: "used no_neighbours = 0"
  by (simp add: used_def no_neighbours_def)

lemma reachable_addressed:
  assumes "reachable s tm" and "nb_neighbours s \<noteq> 0"
  shows "self_ip s \<noteq> NullPtr"
proof -
  obtain fm lp ip port s0 s1 where b: "start_server fm lp ip port s0 = (Inr (), s1)" and o: "onward s1 start_timers s tm"
    using reachable_onward [OF assms(1)] by blast
  have "own_address s \<or> freed_address s"
    using onward_settled [OF o] onward_dangling [OF o] first_settled joined_dangling b by (cases fm) auto
  moreover have "nb_neighbours s = int (used (neighbours s))"
    using reachable_ok [OF assms(1)] by (simp add: servent_ok_def neighbours_ok_def)
  ultimately show ?thesis
    using assms(2) by (auto simp: own_address_def live_address_def freed_address_def used_no_neighbours)
qed

section \<open>Properties\<close>

definition joined_servent :: server_t where
  "joined_servent = sample_servent\<lparr>peername := (\<lambda>_. Inet (cs ''10.0.0.2'') 40),
     sockname := (\<lambda>_. Inet (cs ''b'') 20), rx := (\<lambda>_. [])(9 := [Chunk (encode (PJoin 1 (cs ''30'')))]),
     script := (\<lambda>_. [])(SocketCall := [3], SetsockoptCall := [0], BindCall := [0], ListenCall := [0],
       Poll 3 := [1], Revents 3 := [1], AcceptCall 3 := [9], Poll 9 := [1])\<rparr>"

lemma joined_run:
  "\<exists>s tm t. start_server True None None None joined_servent = (Inr (), s) \<and> loop_flag s = 1 \<and>
     loop_turn (0, 0) (0, 0) start_timers s = (Inr tm, t) \<and> nb_neighbours t = 1 \<and>
     self_ip s = NullPtr \<and> self_ip t = Live (cs ''b'') \<and> sockname s 9 = Inet (cs ''b'') 20"
proof -
  define r where "r = start_server True None None None joined_servent"
  define q where "q = loop_turn (0, 0) (0, 0) start_timers (snd r)"
  have "(let r = start_server True None None None joined_servent; q = loop_turn (0, 0) (0, 0) start_timers (snd r) in
      (isl (fst r), loop_flag (snd r), isl (fst q), nb_neighbours (snd q), self_ip (snd r), self_ip (snd q), sockname (snd r) 9)) =
      (False, 1, False, 1, NullPtr, Live (cs ''b''), Inet (cs ''b'') 20)" by code_simp
  then have r: "isl (fst r) = False" "loop_flag (snd r) = 1" "isl (fst q) = False" "nb_neighbours (snd q) = 1"
    "self_ip (snd r) = NullPtr" "self_ip (snd q) = Live (cs ''b'')" "sockname (snd r) 9 = Inet (cs ''b'') 20"
    unfolding q_def r_def by (simp_all add: Let_def)
  obtain tm where "q = (Inr tm, snd q)" using run_evaluated [OF r(3)] by blast
  moreover have "r = (Inr (), snd r)" by (rule run_evaluated_unit [OF r(1)])
  ultimately show ?thesis using r(2,4-7) unfolding q_def r_def by metis
qed

text \<open>
  C23. The servent that is the first of its network owns its address. As long as it does not know it, it
  has no neighbour, and the next request to join teaches it: the address is the name of its own end
  of the connection the request came on, whatever the request says. From then on \<open>self_ip\<close> is this string in every
  later state, and always the name of an end of its own - never memory that has been freed.
\<close>

theorem first_address_owned:
  assumes "start_server True lp ip port s0 = (Inr (), s)" and "onward s start_timers t tm" and "onward t tm u tm'"
  shows "case self_ip t of
      NullPtr \<Rightarrow> nb_neighbours t = 0 \<and> (\<forall>sk x p. sockname t sk = Inet x p \<or> sockname t sk = Inet6 x p \<longrightarrow>
        self_ip (snd (handle_join_request sk t)) = Live x)
    | Live x \<Rightarrow> self_ip u = Live x \<and> (\<exists>sk p. sockname t sk = Inet x p \<or> sockname t sk = Inet6 x p)
    | FreedPtr \<Rightarrow> False"
proof -
  have own: "own_address t" by (rule onward_settled [OF assms(2) first_settled [OF assms(1)]])
  have nb: "nb_neighbours t = int (used (neighbours t))"
    using onward_maintains [where P = servent_ok, OF assms(2) start_server_neighbours [OF assms(1)] loop_turn_maintains]
    by (simp add: servent_ok_def neighbours_ok_def)
  have kept: "self_ip u = Live x" if "self_ip t = Live x" for x
    by (rule onward_maintains [where P = "\<lambda>s. self_ip s = Live x", OF assms(3) that kpt.turn_maintains]) simp
  show ?thesis
  proof (cases "self_ip t")
    case NullPtr
    then have "neighbours t = no_neighbours" using own by (simp add: own_address_def live_address_def)
    then show ?thesis using NullPtr nb join_request_learns [OF NullPtr] by (auto simp: used_no_neighbours)
  next
    case (Live x)
    then show ?thesis using own kept by (auto simp: own_address_def live_address_def own_end_def)
  next
    case FreedPtr
    then show ?thesis using own by (simp add: own_address_def live_address_def)
  qed
qed

theorem first_address_owned_witness:
  "\<exists>s tm t. start_server True None None None joined_servent = (Inr (), s) \<and> self_ip s = NullPtr \<and>
     self_ip (snd (handle_join_request 9 s)) = Live (cs ''b'') \<and>
     loop_turn (0, 0) (0, 0) start_timers s = (Inr tm, t) \<and> self_ip t = Live (cs ''b'') \<and> nb_neighbours t = 1 \<and>
     self_ip (handle_sigint t) = Live (cs ''b'')"
proof -
  obtain s tm t where s: "start_server True None None None joined_servent = (Inr (), s)" and f: "loop_flag s = 1"
    and t: "loop_turn (0, 0) (0, 0) start_timers s = (Inr tm, t)" and n: "nb_neighbours t = 1"
    and nm: "self_ip s = NullPtr" "self_ip t = Live (cs ''b'')" "sockname s 9 = Inet (cs ''b'') 20"
    using joined_run by blast
  have o: "onward s start_timers t tm" using onward.turned [OF onward.here f t] .
  have i: "onward t tm (handle_sigint t) tm" by (rule onward.interrupted [OF onward.here])
  show ?thesis
    using first_address_owned [OF s onward.here o] first_address_owned [OF s o i] s f t n nm by auto
qed

text \<open>
  C22. A servent that has joined through a contact has freed the address it deduced, and nothing it
  does later gives it another: in every state after that \<open>self_ip\<close> points to freed memory, so at any
  time a search of its client for a file it does not share reads that memory when it is answered.
\<close>

theorem joined_address_freed:
  assumes "start_server False lp ip port s0 = (Inr (), s)" and "onward s start_timers t tm"
    and "forks t" and "\<not> has_entry t name"
  shows "self_ip t = FreedPtr \<and> fst (answer_local_search_request name t) = Inl (UB UseAfterFree)"
  using onward_dangling [OF assms(2) joined_dangling [OF assms(1)]] own_search_freed assms(3,4)
  by (simp add: freed_address_def)

definition guest_servent :: server_t where
  "guest_servent = sample_servent\<lparr>peername := (\<lambda>_. Inet (cs ''a'') 40), sockname := (\<lambda>_. Inet (cs ''b'') 20),
     resolver := (\<lambda>_ port. Inr [Some (cs ''c'', port)]),
     script := (\<lambda>_. [])(SocketCall := [3, 9, 10], SetsockoptCall := [0], BindCall := [0], ListenCall := [0], ConnectCall := [0, 0]),
     rx := (\<lambda>_. [])(9 := [Chunk (encode (PNeighboursList []))], 10 := [Chunk (encode (PJoinAccepted (cs ''50'')))])\<rparr>"

theorem joined_address_freed_witness:
  "\<exists>s. start_server False None (Some (cs ''a'')) (Some (cs ''60'')) guest_servent = (Inr (), s) \<and>
     nb_neighbours s = 1 \<and> fst (answer_local_search_request (cs ''rock'') s) = Inl (UB UseAfterFree)"
proof -
  define r where "r = start_server False None (Some (cs ''a'')) (Some (cs ''60'')) guest_servent"
  have "(let r = start_server False None (Some (cs ''a'')) (Some (cs ''60'')) guest_servent in
      (isl (fst r), nb_neighbours (snd r), script (snd r) ForkCall = [] \<and> script (snd r) PipeCall = [] \<and> script (snd r) OpendirCall = [], has_entry (snd r) (cs ''rock''))) =
    (False, 1, True, False)" by code_simp
  then have r: "isl (fst r) = False" "nb_neighbours (snd r) = 1" "forks (snd r)" "\<not> has_entry (snd r) (cs ''rock'')"
    unfolding r_def [symmetric] by (simp_all add: Let_def forks_def)
  then have "r = (Inr (), snd r)" by (intro run_evaluated_unit)
  then have s: "start_server False None (Some (cs ''a'')) (Some (cs ''60'')) guest_servent = (Inr (), snd r)"
    by (simp only: r_def)
  show ?thesis
    using joined_address_freed [OF s onward.here r(3,4)] s r(2) by blast
qed

end
