(* ===== verification/Progress.thy ===== *)
theory Progress
  imports Networking Clist
begin

text \<open>
  Programs that do not run forever. \<open>ends P m\<close> says so without exception; \<open>settles P Q m\<close> allows
  the one loop of the program that can run forever, the retries of \<open>connect_to\<close> and of
  \<open>create_listening_socket\<close> while \<open>socket\<close> fails, and says what a run that returns has
  established. Both have a rule for each construct, as in a logic for total correctness.
\<close>

section \<open>Programs that end\<close>

text \<open>\<open>ends P m\<close>: from a state with \<open>P\<close>, \<open>m\<close> does not run forever, and it keeps \<open>P\<close>.\<close>

definition ends :: "('s \<Rightarrow> bool) \<Rightarrow> ('s, 'a) prog \<Rightarrow> bool" where
  "ends P m \<longleftrightarrow> (\<forall>s. P s \<longrightarrow> P (snd (m s)) \<and> fst (m s) \<noteq> Inl Diverges)"

named_theorems end_rules "rules that show that a program ends"

lemma endsD: "ends P m \<Longrightarrow> P s \<Longrightarrow> m s = (r, t) \<Longrightarrow> P t \<and> r \<noteq> Inl Diverges"
  by (metis ends_def fst_conv snd_conv)

lemma ends_run: "(\<And>s. P s \<Longrightarrow> \<exists>a t. m s = (Inr a, t) \<and> P t) \<Longrightarrow> ends P m"
  by (fastforce simp: ends_def)

lemma ends_keeps: "keeps P m \<Longrightarrow> (\<And>s. fst (m s) \<noteq> Inl Diverges) \<Longrightarrow> ends P m"
  by (simp add: ends_def keeps_def)

lemma ends_total: "keeps P m \<Longrightarrow> (\<And>s. \<exists>a t. m s = (Inr a, t)) \<Longrightarrow> ends P m"
  by (rule ends_keeps) (metis fst_conv sum.distinct(1))+

lemma ends_ret [end_rules]: "ends P (ret a)"
  by (simp add: ends_def)

lemma ends_halt: "e \<noteq> Diverges \<Longrightarrow> ends P (halt e)"
  by (simp add: ends_def)

lemma ends_ub [end_rules]: "ends P (halt (UB u))"
  by (rule ends_halt) simp

lemma ends_assert [end_rules]: "ends P (halt AssertFail)"
  by (rule ends_halt) simp

lemma ends_gets [end_rules]: "ends P (gets f)"
  by (simp add: ends_def)

lemma ends_modify: "(\<And>s. P s \<Longrightarrow> P (f s)) \<Longrightarrow> ends P (modify f)"
  by (simp add: ends_def)

lemma ends_bnd [end_rules]: "ends P m \<Longrightarrow> (\<And>a. ends P (f a)) \<Longrightarrow> ends P (bnd m f)"
  unfolding ends_def bnd_def by (auto split: prod.splits sum.splits)

lemma ends_seq [end_rules]: "ends P m \<Longrightarrow> ends P k \<Longrightarrow> ends P (seq m k)"
  by (simp add: seq_def ends_bnd)

lemma ends_if [end_rules]: "(b \<Longrightarrow> ends P m) \<Longrightarrow> (\<not> b \<Longrightarrow> ends P k) \<Longrightarrow> ends P (if b then m else k)"
  by simp

lemma ends_case_option [end_rules]:
  "ends P m \<Longrightarrow> (\<And>x. ends P (f x)) \<Longrightarrow> ends P (case z of None \<Rightarrow> m | Some x \<Rightarrow> f x)"
  by (simp split: option.splits)

lemma ends_case_prod [end_rules]:
  "(\<And>a b. ends P (f a b)) \<Longrightarrow> ends P (case z of (a, b) \<Rightarrow> f a b)"
  by (simp split: prod.splits)

lemma ends_for_list [end_rules]: "(\<And>x. ends P (body x)) \<Longrightarrow> ends P (for_list xs body)"
  by (induction xs) (auto intro: end_rules)

lemma ends_foreach_spec:
  "(\<And>p x. ends P (body p x)) \<Longrightarrow> ends P (foreach_spec body as)"
  by (induction as) (auto intro!: end_rules)

lemma ends_write_to_packet [end_rules]: "ends P (write_to_packet p data len)"
  unfolding write_to_packet_def by (intro end_rules)

lemma ends_write_lstr [end_rules]: "ends P (write_lstr p x)"
  unfolding write_lstr_def by (intro end_rules)

text \<open>A loop over \<open>write\<close> ends, for the buffer gets shorter.\<close>

lemma write_to_fd_ends: "fst (write_to_fd fd bs s) \<noteq> Inl Diverges"
proof (induction fd bs s rule: write_to_fd.induct)
  case (1 fd bs s)
  have "fst (sys_write fd bs s) \<noteq> Inl Diverges"
    by (simp add: sys_write_def Let_def split: list.splits wr.splits)
  then show ?case
    using "1" by (subst write_to_fd.simps) (auto split: prod.splits sum.splits option.splits)
qed

lemma sys_total: "\<exists>a t. sys c s = (Inr a, t)"
  by (simp add: sys_def split: list.splits)

context os_frame
begin

lemma ends_os:
  "ends P (write_to_fd fd bs)" "ends P (read_u8 fd)" "ends P (read_lstr fd)" "ends P (print x)"
  "ends P (sys c)" "ends P (log_to_file level file format va)"
proof -
  show "ends P (write_to_fd fd bs)" by (rule ends_keeps [OF keeps_write_to_fd write_to_fd_ends])
  show "ends P (read_u8 fd)" by (rule ends_total [OF keeps_read_u8 read_u8_total])
  show "ends P (read_lstr fd)" by (rule ends_total [OF keeps_read_lstr read_lstr_total])
  show "ends P (print x)" by (rule ends_total [OF keeps_print]) (simp add: print_run)
  show "ends P (sys c)" by (rule ends_total [OF keeps_sys sys_total])
  have "ends P (emit e)" for e by (rule ends_total [OF keeps_emit]) (simp add: emit_run)
  then show "ends P (log_to_file level file format va)"
    unfolding log_to_file_def log_internal_def vsnprintf_def by (intro end_rules)
qed

end

section \<open>Programs that settle\<close>

text \<open>
  \<open>settles P Q m\<close>: from a state with \<open>P\<close>, \<open>m\<close> either returns a value with \<open>Q\<close> in a state with
  \<open>P\<close>, or stops; it runs forever only where no call of \<open>socket\<close> will succeed any more.
\<close>

definition stuck :: "'z os_scheme \<Rightarrow> bool" where
  "stuck s \<longleftrightarrow> script s SocketCall = []"

definition settles :: "('z os_scheme \<Rightarrow> bool) \<Rightarrow> ('a \<Rightarrow> bool) \<Rightarrow> ('z, 'a) osprog \<Rightarrow> bool" where
  "settles P Q m \<longleftrightarrow> (\<forall>s r t. P s \<longrightarrow> m s = (r, t) \<longrightarrow>
     (case r of Inl e \<Rightarrow> e = Diverges \<longrightarrow> stuck t | Inr a \<Rightarrow> P t \<and> Q a))"

abbreviation settles_any :: "('z os_scheme \<Rightarrow> bool) \<Rightarrow> ('z, 'a) osprog \<Rightarrow> bool" where
  "settles_any P \<equiv> settles P (\<lambda>_. True)"

named_theorems settle_rules "rules that show that a program settles"

lemma settlesI:
  "(\<And>s a t. P s \<Longrightarrow> m s = (Inr a, t) \<Longrightarrow> P t \<and> Q a) \<Longrightarrow>
   (\<And>s t. P s \<Longrightarrow> m s = (Inl Diverges, t) \<Longrightarrow> stuck t) \<Longrightarrow> settles P Q m"
  unfolding settles_def by (auto split: sum.split)

lemma settles_InrD: "settles P Q m \<Longrightarrow> P s \<Longrightarrow> m s = (Inr a, t) \<Longrightarrow> P t \<and> Q a"
  unfolding settles_def by force

lemma settles_stuck: "settles P Q m \<Longrightarrow> P s \<Longrightarrow> m s = (Inl Diverges, t) \<Longrightarrow> stuck t"
  unfolding settles_def by force

lemma settles_anyD:
  "settles_any P m \<Longrightarrow> P s \<Longrightarrow> m s = (r, t) \<Longrightarrow> case r of Inl e \<Rightarrow> e = Diverges \<longrightarrow> stuck t | Inr a \<Rightarrow> P t"
  unfolding settles_def by (auto split: sum.split)

lemma settles_anyI:
  "(\<And>s r t. P s \<Longrightarrow> m s = (r, t) \<Longrightarrow> case r of Inl e \<Rightarrow> e = Diverges \<longrightarrow> stuck t | Inr a \<Rightarrow> P t) \<Longrightarrow> settles_any P m"
  by (rule settlesI; fastforce)

lemma settles_weaken: "settles P R m \<Longrightarrow> (\<And>a. R a \<Longrightarrow> Q a) \<Longrightarrow> settles P Q m"
  unfolding settles_def by (auto split: sum.split)

lemma settles_ends: "ends P m \<Longrightarrow> settles_any P m"
  unfolding settles_def ends_def by (auto split: sum.split; metis fst_conv snd_conv)

lemma settles_keeps: "keeps P m \<Longrightarrow> (\<And>s. fst (m s) \<noteq> Inl Diverges) \<Longrightarrow> settles_any P m"
  by (intro settles_ends ends_keeps)

lemma settles_ret: "Q a \<Longrightarrow> settles P Q (ret a)"
  by (simp add: settles_def)

lemma settles_ret_any [settle_rules]: "settles_any P (ret a)"
  by (simp add: settles_def)

lemma settles_halt: "e \<noteq> Diverges \<Longrightarrow> settles P Q (halt e)"
  by (simp add: settles_def)

lemma settles_stops [settle_rules]:
  "settles P Q (halt (UB u))" "settles P Q (halt AssertFail)" "settles P Q (halt (Exit n))"
  by (simp_all add: settles_halt)

lemma settles_gets [settle_rules]: "settles_any P (gets f)"
  by (simp add: settles_def)

lemma settles_gets_val: "(\<And>s. P s \<Longrightarrow> Q (f s)) \<Longrightarrow> settles P Q (gets f)"
  by (simp add: settles_def)

lemma settles_modify: "(\<And>s. P s \<Longrightarrow> P (f s)) \<Longrightarrow> settles_any P (modify f)"
  by (simp add: settles_def)

lemma settles_bnd_val: "settles P R m \<Longrightarrow> (\<And>a. R a \<Longrightarrow> settles P Q (f a)) \<Longrightarrow> settles P Q (bnd m f)"
  by (rule settlesI) (auto simp: bnd_run split: prod.splits sum.splits dest: settles_InrD settles_stuck)

lemma settles_bnd [settle_rules]: "settles_any P m \<Longrightarrow> (\<And>a. settles P Q (f a)) \<Longrightarrow> settles P Q (bnd m f)"
  by (rule settles_bnd_val)

lemma settles_seq [settle_rules]: "settles_any P m \<Longrightarrow> settles P Q k \<Longrightarrow> settles P Q (seq m k)"
  by (simp add: seq_def settles_bnd)

lemma settles_if [settle_rules]:
  "(b \<Longrightarrow> settles P Q m) \<Longrightarrow> (\<not> b \<Longrightarrow> settles P Q k) \<Longrightarrow> settles P Q (if b then m else k)"
  by simp

lemma settles_case_option [settle_rules]:
  "settles P Q m \<Longrightarrow> (\<And>x. settles P Q (f x)) \<Longrightarrow> settles P Q (case z of None \<Rightarrow> m | Some x \<Rightarrow> f x)"
  by (simp split: option.splits)

lemma settles_case_sum [settle_rules]:
  "(\<And>x. settles P Q (f x)) \<Longrightarrow> (\<And>x. settles P Q (g x)) \<Longrightarrow>
   settles P Q (case z of Inl x \<Rightarrow> f x | Inr x \<Rightarrow> g x)"
  by (simp split: sum.splits)

lemma settles_case_prod [settle_rules]:
  "(\<And>a b. settles P Q (f a b)) \<Longrightarrow> settles P Q (case z of (a, b) \<Rightarrow> f a b)"
  by (simp split: prod.splits)

lemma settles_case_sockaddr [settle_rules]:
  "(\<And>i p. settles P Q (f i p)) \<Longrightarrow> (\<And>i p. settles P Q (g i p)) \<Longrightarrow> settles P Q h \<Longrightarrow>
   settles P Q (case a of Inet i p \<Rightarrow> f i p | Inet6 i p \<Rightarrow> g i p | OtherFamily \<Rightarrow> h)"
  by (simp split: sockaddr.splits)

lemma settles_for_list [settle_rules]: "(\<And>x. settles_any P (body x)) \<Longrightarrow> settles_any P (for_list xs body)"
  by (induction xs) (auto intro: settle_rules)

text \<open>Programs that use no state.\<close>

lemma settles_pure [settle_rules]:
  "settles_any P (write_to_packet p d n)" "settles_any P (write_lstr p x)" "settles_any P (as_string b)"
  "settles_any P (area_string a)" "settles_any P (int_to_string v k)"
proof -
  show "settles_any P (write_to_packet p d n)" "settles_any P (write_lstr p x)"
    by (rule settles_ends, rule end_rules)+
  show "settles_any P (as_string b)" "settles_any P (area_string a)" "settles_any P (int_to_string v k)"
    unfolding as_string_def area_string_def int_to_string_def Let_def by (intro settle_rules)+
qed

section \<open>The retries of a failed \<open>socket\<close>\<close>

lemma sys_socket:
  "sys SocketCall s = (Inr r, t) \<Longrightarrow>
   (script s SocketCall = [] \<and> r = - 1 \<and> t = s) \<or> (\<exists>rs. script s SocketCall = r # rs \<and> script t SocketCall = rs)"
  by (auto simp: sys_def split: list.splits)

lemma sys_other: "c \<noteq> SocketCall \<Longrightarrow> sys c s = (r, t) \<Longrightarrow> script t SocketCall = script s SocketCall"
  by (auto simp: sys_def split: list.splits)

lemma connect_loop_settles:
  "length (script s SocketCall) < n \<Longrightarrow> connect_loop n ais s = (Inl Diverges, t) \<Longrightarrow> stuck t"
proof (induction n ais arbitrary: s rule: connect_loop.induct)
  case (4 n nm ais)
  show ?case
  proof (cases "script s SocketCall")
    case Nil
    then show ?thesis using "4.prems"(2) by (simp add: connect_loop_stuck stuck_def)
  next
    case (Cons r rs)
    let ?s = "s\<lparr>script := (script s)(SocketCall := rs)\<rparr>"
    have run: "(if r = - 1 then connect_loop n (Some nm # ais) else bnd (sys ConnectCall) (\<lambda>res.
        if res = 0 then ret (CONNECT_OK, Some r) else seq (sys_close r) (connect_loop n ais))) ?s = (Inl Diverges, t)"
      using "4.prems"(2) Cons by (simp add: connect_loop.simps bnd_run sys_def)
    have n: "length (script ?s SocketCall) < n" using "4.prems"(1) Cons by simp
    show ?thesis
    proof (cases "r = - 1")
      case True
      then show ?thesis using "4.IH"(1) [OF True n] run by simp
    next
      case False
      obtain c u where c: "sys ConnectCall ?s = (Inr c, u)" using sys_Inr by blast
      then have "length (script u SocketCall) < n" using sys_other [of ConnectCall] n by fastforce
      then show ?thesis using "4.IH"(2) [OF False, of c "u\<lparr>evs := evs u @ [Closed r]\<rparr>"] run False c
        by (simp add: bnd_run seq_run sys_close_def emit_run split: if_splits)
    qed
  qed
qed simp_all

lemma listen_loop_settles:
  "length (script s SocketCall) < n \<Longrightarrow> listen_loop n ais s = (Inl Diverges, t) \<Longrightarrow> stuck t"
proof (induction n ais arbitrary: s rule: listen_loop.induct)
  case (3 n ai ais)
  show ?case
  proof (cases "script s SocketCall")
    case Nil
    then show ?thesis using "3.prems"(2) by (simp add: listen_loop_stuck stuck_def)
  next
    case (Cons r rs)
    let ?s = "s\<lparr>script := (script s)(SocketCall := rs)\<rparr>"
    have n: "length (script ?s SocketCall) < n" using "3.prems"(1) Cons by simp
    obtain k u where k: "sys SetsockoptCall ?s = (Inr k, u)" using sys_Inr by blast
    obtain b v where b: "sys BindCall u = (Inr b, v)" using sys_Inr by blast
    have u: "length (script u SocketCall) < n" "length (script v SocketCall) < n"
      using sys_other [OF _ k] sys_other [OF _ b] n by simp_all
    have s: "sys SocketCall s = (Inr r, ?s)" using Cons by (simp add: sys_def)
    show ?thesis
      using "3.prems"(2) s k b u "3.IH"(1) [of r ?s] "3.IH"(2) [of r k u] "3.IH"(3) [of r k b "v\<lparr>evs := evs v @ [Closed r]\<rparr>"] n
      by (simp add: listen_loop.simps bnd_run seq_run sys_close_def emit_run split: if_splits option.splits)
  qed
qed simp_all

section \<open>Operations on descriptors\<close>

context os_frame
begin

lemma settles_os:
  "settles_any P (write_to_fd fd bs)" "settles_any P (read_u8 fd)" "settles_any P (read_lstr fd)"
  "settles_any P (read_larea fd)" "settles_any P (read_buf fd n)" "settles_any P (sys c)"
  "settles_any P (sys_close fd)" "settles_any P (emit e)" "settles_any P (print x)"
  "settles_any P (take_junk k)" "settles_any P junk_int" "settles_any P (applog level format va)"
  "settles_any P (debug_assert b fmt va)"
proof -
  have total: "settles_any P m" if "keeps P m" "\<And>s. \<exists>a t. m s = (Inr a, t)" for m :: "('b, 'c) osprog" and P
    using that by (intro settles_ends ends_total)
  show "settles_any P (write_to_fd fd bs)" "settles_any P (read_u8 fd)" "settles_any P (read_lstr fd)"
    "settles_any P (print x)" "settles_any P (sys c)"
    by (rule settles_ends, rule ends_os)+
  show "settles_any P (read_larea fd)"
    by (rule settles_ends, rule ends_total [OF keeps_read_larea read_larea_total])
  show "settles_any P (read_buf fd n)"
    by (rule settles_ends, rule ends_total [OF keeps_read_buf read_buf_total])
  have e: "settles_any P (emit e)" for e
    by (rule settles_ends, rule ends_total [OF keeps_emit]) (simp add: emit_run)
  then show "settles_any P (emit e)" "settles_any P (sys_close fd)" by (simp_all add: sys_close_def)
  have j: "settles_any P (take_junk k)" for k
    by (rule settles_ends, rule ends_total [OF keeps_take_junk take_junk_total])
  show "settles_any P (take_junk k)" by (rule j)
  show "settles_any P junk_int" unfolding junk_int_def by (intro settle_rules j)
  show "settles_any P (applog level format va)"
    unfolding applog_def log_internal_def vsnprintf_def by (intro settle_rules e)
  show "settles_any P (debug_assert b fmt va)"
    unfolding debug_assert_def print_def by (intro settle_rules e)
qed

lemma settles_extract:
  "settles_any P (extract_port_from_socket fd r)" "settles_any P (extract_ip_from_socket fd r)"
  "settles_any P (extract_ip_port_from_socket fd r)"
  unfolding extract_port_from_socket_def extract_ip_from_socket_def extract_ip_port_from_socket_def
  by (intro settle_rules)+

text \<open>What a connection returns is a descriptor, or none.\<close>

lemma settles_connect_to: "settles P connect_result_ok (connect_to ip port)"
proof (rule settlesI)
  show "P t \<and> connect_result_ok a" if "P s" "connect_to ip port s = (Inr a, t)" for s a t
    using keepsD [OF keeps_connect_to that] connect_to_result [OF that(2)] by simp
  show "stuck t" if "connect_to ip port s = (Inl Diverges, t)" for s t
  proof (cases "resolver s (Some ip) port")
    case (Inl err)
    then show ?thesis using that by (auto simp: connect_to_def bnd_run seq_run applog_def log_internal_def
        vsnprintf_def emit_run split: option.splits if_splits)
  next
    case (Inr ais)
    then show ?thesis using that connect_loop_settles [of s "connect_fuel s" ais t]
      by (simp add: connect_to_def bnd_run connect_fuel_def)
  qed
qed

lemma settles_create_listening_socket: "settles_any P (create_listening_socket port)"
proof (rule settlesI)
  show "P t \<and> True" if "P s" "create_listening_socket port s = (Inr a, t)" for s a t
    using keepsD [OF keeps_create_listening_socket that] by simp
  show "stuck t" if "create_listening_socket port s = (Inl Diverges, t)" for s t
  proof (cases "resolver s None port")
    case (Inl err)
    then show ?thesis using that by (simp add: create_listening_socket_def bnd_run)
  next
    case (Inr ais)
    obtain r u where u: "listen_loop (connect_fuel s) ais s = (r, u)" by fastforce
    have "r = Inl Diverges \<and> u = t"
      using that Inr u sys_Inr [of ListenCall u]
      by (auto simp: create_listening_socket_def bnd_run split: sum.splits option.splits if_splits)
    then show ?thesis using listen_loop_settles [of s "connect_fuel s" ais t] u
      by (simp add: connect_fuel_def)
  qed
qed

lemma settles_attempt_accept: "settles_any P (attempt_accept fd)"
  unfolding attempt_accept_def by (intro settle_rules settles_os)

end

section \<open>Lists that are walked\<close>

text \<open>
  A list of the servent: its cells are linked, and its head is the first of them or, after
  \<open>list_pop_at\<close> has removed the first cell alone, a freed one. A walk over it ends, or reads the
  freed cell.
\<close>

definition walkable :: "'a list_t \<Rightarrow> bool" where
  "walkable l \<longleftrightarrow> (\<exists>as. owns l as \<and> (head l = first as 0 \<or> dangling l))"

lemma walkable_repr: "repr l xs \<Longrightarrow> walkable l"
  by (auto simp: walkable_def repr_def)

lemma walkable_cases:
  assumes "walkable l"
  obtains xs where "repr l xs" | n where "brk l = Suc n" and "head l \<noteq> 0" and "cells l (head l) = None"
  using assms unfolding walkable_def repr_def dangling_def owns_def
  by (metis gr0_conv_Suc)

lemma walkable_push:
  assumes "walkable l" and "list_push_back x l = (r, t)"
  shows "r \<noteq> Inl Diverges \<and> (\<forall>a. r = Inr a \<longrightarrow> walkable t)"
  using assms(1)
proof (cases rule: walkable_cases)
  case (1 xs)
  then show ?thesis using push_repr [OF 1, of x] assms(2) by (auto intro: walkable_repr)
next
  case (2 n)
  then show ?thesis using assms(2)
    by (auto simp: list_push_back_def list_push_back_no_create_def bnd_run load_freed)
qed

lemma walkable_destroy:
  assumes "walkable l" and "list_destroy l = (r, t)"
  shows "r \<noteq> Inl Diverges \<and> (\<forall>a. r = Inr a \<longrightarrow> walkable t)"
  using assms(1)
proof (cases rule: walkable_cases)
  case (1 xs)
  then have "0 < brk l" by (auto simp: repr_def owns_def)
  then have "owns (l\<lparr>cells := Map.empty, head := 0\<rparr>) []" by (simp add: owns_def)
  then show ?thesis using list_destroy_repr [OF 1] assms(2) by (auto simp: walkable_def)
next
  case (2 n)
  then show ?thesis using assms(2) by (auto simp: list_destroy_def list_clear_def bnd_run seq_run load_freed)
qed

text \<open>The list of a loop is the same before and after a body that does not look at it.\<close>

lemma indep_same_list:
  assumes "list_field getf putf" and "indep putf m" and "m s = (r, t)"
  shows "getf t = getf s"
  using assms unfolding list_field_def indep_def by (metis case_prod_conv prod.inject)

lemma settles_foreach_spec:
  assumes "\<And>p x. settles_any P (body p x)"
  shows "settles_any P (foreach_spec body as)"
proof (induction as)
  case Nil
  show ?case unfolding foreach_spec.simps by (intro settle_rules)
next
  case (Cons a as)
  show ?case unfolding foreach_spec.simps by (intro settle_rules assms Cons.IH)
qed

lemma settles_foreach:
  assumes "\<And>s. P s \<Longrightarrow> walkable (getf s)" and "\<And>p x. settles_any P (body p x)"
    and "\<And>p x s. getf (snd (body p x s)) = getf s"
  shows "settles_any P (foreach getf body)"
proof -
  have "case r of Inl e \<Rightarrow> e = Diverges \<longrightarrow> stuck t | Inr a \<Rightarrow> P t"
    if s: "P s" "foreach getf body s = (r, t)" for s r t
    using assms(1) [OF s(1)]
  proof (cases rule: walkable_cases)
    case (1 xs)
    then obtain as where as: "owns (getf s) as" "head (getf s) = first as 0" by (auto simp: repr_def)
    have "foreach_spec body as s = (r, t)"
      using foreach_owned [where getf = getf and body = body, OF assms(3) as] s(2) by simp
    then show ?thesis
      by (rule settles_anyD [where P = P, OF settles_foreach_spec [where body = body, OF assms(2)] s(1)])
  next
    case (2 n)
    then show ?thesis using s(2) by (auto simp: foreach_def bnd_run zoom_run load_freed)
  qed
  then show ?thesis by (rule settles_anyI)
qed

text \<open>A walk over a list that is a variable of the caller.\<close>

lemma settles_foreach_local: "walkable l \<Longrightarrow> (\<And>p x. settles_any P (body p x)) \<Longrightarrow> settles_any P (foreach (\<lambda>_. l) body)"
  by (rule settles_foreach) simp_all

text \<open>What the cells of a list hold, in any order.\<close>

definition stored :: "'a list_t \<Rightarrow> 'a set" where
  "stored l = {dat c | p c. cells l p = Some c}"

lemma stored_create [simp]: "stored (list_create cmp mk) = {}"
  by (simp add: stored_def list_create_def)

lemma stored_repr: "repr l xs \<Longrightarrow> stored l = set xs"
proof -
  assume "repr l xs"
  then obtain as where o: "owns l as" "xs = map snd as" by (auto simp: repr_def)
  have lk: "linked m as q \<Longrightarrow> a \<in> set as \<Longrightarrow> \<exists>n. m (fst a) = Some \<lparr>nxt = n, dat = snd a\<rparr>" for m as q and a :: "addr \<times> 'a"
    by (induction as) auto
  have at: "\<exists>n. cells l (fst a) = Some \<lparr>nxt = n, dat = snd a\<rparr>" if "a \<in> set as" for a
    using lk [of "cells l" as 0 a] o(1) that by (simp add: owns_def)
  have "dat c \<in> set xs" if c: "cells l p = Some c" for p c
  proof -
    have "p \<in> dom (cells l)" using c by blast
    then obtain a where a: "a \<in> set as" "fst a = p" using o(1) by (auto simp: owns_def)
    then show ?thesis using at [OF a(1)] c o(2) by force
  qed
  moreover have "x \<in> stored l" if "x \<in> set xs" for x
  proof -
    from that obtain a where "a \<in> set as" "snd a = x" unfolding o(2) by auto
    then show ?thesis using at [of a] by (force simp: stored_def)
  qed
  ultimately show ?thesis by (auto simp: stored_def)
qed

lemma stored_push:
  assumes "walkable l" and "list_push_back x l = (Inr a, t)"
  shows "stored t = insert (create l x) (stored l)" and "create t = create l"
proof -
  have "stored t = insert (create l x) (stored l) \<and> create t = create l"
    using assms(1)
  proof (cases rule: walkable_cases)
    case (1 xs)
    then show ?thesis using push_repr [OF 1, of x] push_no_create_repr(3) [OF 1, of "create l x"] assms(2)
      by (auto dest!: stored_repr)
  next
    case (2 n)
    then show ?thesis using assms(2)
      by (auto simp: list_push_back_def list_push_back_no_create_def bnd_run load_freed)
  qed
  then show "stored t = insert (create l x) (stored l)" "create t = create l" by auto
qed

text \<open>
  The cursor loop: whatever its bodies remove, the list stays one that can be walked, and holds
  nothing new.
\<close>

lemma walkable_pop_at:
  assumes "owns l (ks @ (p, x) # rs)" and "head l = first (ks @ (p, x) # rs) 0 \<or> dangling l"
  obtains l' where "list_pop_at (if ks = [] then 0 else fst (last ks)) p l = (Inr (first rs 0), l')"
    and "owns l' (ks @ rs)" and "head l' = first (ks @ rs) 0 \<or> dangling l'"
    and "stored l' \<subseteq> stored l" and "create l' = create l"
proof (cases ks rule: rev_cases)
  case Nil
  let ?l = "l\<lparr>cells := (cells l)(p := None), head := (if rs = [] then 0 else head l)\<rparr>"
  have o: "owns l ((p, x) # rs)" using assms(1) Nil by simp
  have "owns ?l rs" using o by (intro owns_remove_first)
  moreover have "p \<noteq> 0" using o by (simp add: owns_def)
  then have "head ?l = first rs 0 \<or> dangling ?l"
    using assms(2) Nil by (cases "rs = []") (auto simp: dangling_def)
  moreover have "stored ?l \<subseteq> stored l" by (auto simp: stored_def split: if_splits)
  ultimately show ?thesis using that [of ?l] pop_at_first [OF o] Nil by simp
next
  case (snoc us u)
  obtain q y where u: "u = (q, y)" by (cases u)
  let ?l = "l\<lparr>cells := (cells l)(q \<mapsto> \<lparr>nxt = first rs 0, dat = y\<rparr>, p := None)\<rparr>"
  have o: "owns l (us @ (q, y) # (p, x) # rs)" using assms(1) snoc u by simp
  have q: "cells l q = Some \<lparr>nxt = p, dat = y\<rparr>" using o by (auto simp: owns_def)
  then have "y \<in> stored l" by (force simp: stored_def)
  then have "stored ?l \<subseteq> stored l" by (auto simp: stored_def split: if_splits)
  moreover from q have "head ?l = first (ks @ rs) 0 \<or> dangling ?l"
    using assms(2) snoc u by (auto simp: dangling_def first_append)
  ultimately show ?thesis using that [of ?l] pop_at_next [OF o] owns_remove_next [OF o] snoc u by simp
qed

lemma sweep_loop_settles:
  assumes lf: "list_field getf putf" and ind: "\<And>x. indep putf (body x)" and body: "\<And>x. settles_any P (body x)"
    and put: "\<And>s l. P s \<Longrightarrow> walkable l \<Longrightarrow> stored l \<subseteq> stored (getf s) \<Longrightarrow> create l = create (getf s) \<Longrightarrow> P (putf l s)"
  shows "P s \<Longrightarrow> owns (getf s) (ks @ rs) \<Longrightarrow> head (getf s) = first (ks @ rs) 0 \<or> dangling (getf s) \<Longrightarrow>
    length rs < n \<Longrightarrow> sweep_loop getf putf body n (if ks = [] then 0 else fst (last ks)) (first rs 0) s = (r, t) \<Longrightarrow>
    case r of Inl e \<Rightarrow> e = Diverges \<longrightarrow> stuck t | Inr a \<Rightarrow> P t"
proof (induction rs arbitrary: ks s n)
  case Nil
  then show ?case by (cases n) auto
next
  case (Cons c rs)
  obtain p x where c: "c = (p, x)" by (cases c)
  obtain m where n: "n = Suc m" "length rs < m" using Cons.prems(4) by (cases n) auto
  have p: "cells (getf s) p = Some \<lparr>nxt = first rs 0, dat = x\<rparr>" "p \<noteq> 0"
    using Cons.prems(2) c by (auto simp: owns_def)
  have rd: "zoom getf putf (load p) u = (Inr \<lparr>nxt = first rs 0, dat = x\<rparr>, u)" if "getf u = getf s" for u
    using p lf that [symmetric] by (simp add: zoom_run load_def list_field_def)
  obtain q u where b: "body x s = (q, u)" by fastforce
  have u: "getf u = getf s" by (rule indep_same_list [OF lf ind b])
  show ?case
  proof (cases q)
    case (Inl e)
    then have "r = Inl e" "t = u" using Cons.prems(5) n c p b rd [OF refl] by (simp_all add: bnd_run)
    then show ?thesis using settles_stuck [OF body Cons.prems(1)] b Inl by auto
  next
    case (Inr rm)
    have P: "P u" using settles_InrD [OF body Cons.prems(1)] b Inr by simp
    show ?thesis
    proof (cases rm)
      case False
      then have "sweep_loop getf putf body m (if ks @ [c] = [] then 0 else fst (last (ks @ [c]))) (first rs 0) u = (r, t)"
        using Cons.prems(5) n c p b Inr rd [OF refl] rd [OF u] by (simp add: bnd_run)
      from Cons.IH [OF P _ _ n(2) this] show ?thesis using Cons.prems(2,3) u by simp
    next
      case True
      obtain l where l: "list_pop_at (if ks = [] then 0 else fst (last ks)) p (getf s) = (Inr (first rs 0), l)"
        "owns l (ks @ rs)" "head l = first (ks @ rs) 0 \<or> dangling l"
        "stored l \<subseteq> stored (getf u)" "create l = create (getf u)"
        unfolding u using walkable_pop_at [of "getf s" ks p x rs thesis] Cons.prems(2,3) c by blast
      have "walkable l" using l(2,3) by (auto simp: walkable_def)
      then have "P (putf l u)" using put [OF P] l(4,5) by blast
      moreover have "getf (putf l u) = l" using lf by (simp add: list_field_def)
      moreover have "sweep_loop getf putf body m (if ks = [] then 0 else fst (last ks)) (first rs 0) (putf l u) = (r, t)"
        using Cons.prems(5) n c p b Inr True rd [OF refl] l(1) u by (simp add: bnd_run zoom_run)
      ultimately show ?thesis using Cons.IH [of "putf l u" ks m] n(2) l(2,3) by simp
    qed
  qed
qed

lemma settles_sweep:
  assumes lf: "list_field getf putf" and ind: "\<And>x. indep putf (body x)" and body: "\<And>x. settles_any P (body x)"
    and put: "\<And>s l. P s \<Longrightarrow> walkable l \<Longrightarrow> stored l \<subseteq> stored (getf s) \<Longrightarrow> create l = create (getf s) \<Longrightarrow> P (putf l s)"
    and walk: "\<And>s. P s \<Longrightarrow> walkable (getf s)"
  shows "settles_any P (sweep getf putf body)"
proof -
  have "case r of Inl e \<Rightarrow> e = Diverges \<longrightarrow> stuck t | Inr a \<Rightarrow> P t"
    if s: "P s" "sweep getf putf body s = (r, t)" for s r t
  proof -
    obtain as where as: "owns (getf s) as" "head (getf s) = first as 0 \<or> dangling (getf s)"
      using walk [OF s(1)] by (auto simp: walkable_def)
    show ?thesis
    proof (cases "head (getf s) = first as 0")
      case True
      show ?thesis
      proof (rule sweep_loop_settles [where ks = "[]" and rs = as, OF lf ind body])
        show "P (putf l u)" if "P u" "walkable l" "stored l \<subseteq> stored (getf u)" "create l = create (getf u)" for u l
          using that by (rule put)
        show "sweep_loop getf putf body (brk (getf s)) (if [] = ([] :: (addr \<times> 'b) list) then 0 else fst (last ([] :: (addr \<times> 'b) list))) (first as 0) s = (r, t)"
          using s(2) True by (simp add: sweep_def bnd_run)
      qed (use s(1) as True owns_short [OF as(1)] in simp_all)
    next
      case False
      then obtain k where "brk (getf s) = Suc k" using as(1) by (metis gr0_conv_Suc owns_def)
      then show ?thesis using False as(2) s(2) lf
        by (auto simp: sweep_def bnd_run zoom_run dangling_def load_freed)
    qed
  qed
  then show ?thesis by (rule settles_anyI)
qed

end
