(* ===== verification/Null_Safety.thy ===== *)
theory Null_Safety
  imports Progress
begin

text \<open>
  Programs that dereference no NULL pointer. \<open>safe P m\<close> says so of \<open>m\<close> in the states with \<open>P\<close>, and
  \<open>nonnull m\<close> in all states; a rule for each construct, for the operations on lists and for the
  system calls.
\<close>

section \<open>Programs that do not dereference NULL\<close>

definition safe :: "('s \<Rightarrow> bool) \<Rightarrow> ('s, 'a) prog \<Rightarrow> bool" where
  "safe P m \<longleftrightarrow> (\<forall>s. P s \<longrightarrow> fst (m s) \<noteq> Inl (UB NullDeref))"

abbreviation nonnull :: "('s, 'a) prog \<Rightarrow> bool" where
  "nonnull \<equiv> safe (\<lambda>_. True)"

named_theorems null_rules "rules that show that a program dereferences no NULL pointer"

lemma safeD: "safe P m \<Longrightarrow> P s \<Longrightarrow> fst (m s) \<noteq> Inl (UB NullDeref)"
  by (simp add: safe_def)

lemma safe_weaken: "safe P m \<Longrightarrow> (\<And>s. Q s \<Longrightarrow> P s) \<Longrightarrow> safe Q m"
  by (simp add: safe_def)

lemma safe_nonnull: "nonnull m \<Longrightarrow> safe P m"
  by (simp add: safe_def)

lemma nonnullI: "(\<And>s. fst (m s) \<noteq> Inl (UB NullDeref)) \<Longrightarrow> nonnull m"
  by (simp add: safe_def)

lemma nonnull_total: "(\<And>s. \<exists>a t. m s = (Inr a, t)) \<Longrightarrow> nonnull m"
  by (rule nonnullI) (metis fst_conv sum.distinct(1))

lemma nonnull_ret [null_rules]: "nonnull (ret a)"
  by (simp add: safe_def)

lemma nonnull_halt: "e \<noteq> UB NullDeref \<Longrightarrow> nonnull (halt e)"
  by (simp add: safe_def)

lemma nonnull_stops [null_rules]:
  "nonnull (halt AssertFail)" "nonnull (halt (Exit n))" "nonnull (halt Diverges)" "nonnull (halt Sigpipe)"
  "nonnull (halt (UB OutOfBounds))" "nonnull (halt (UB UseAfterFree))" "nonnull (halt (UB DoubleFree))"
  "nonnull (halt (UB Uninit))" "nonnull (halt (UB BadVarargs))"
  by (rule nonnull_halt, simp)+

lemma nonnull_gets [null_rules]: "nonnull (gets f)"
  by (simp add: safe_def)

lemma nonnull_modify [null_rules]: "nonnull (modify f)"
  by (simp add: safe_def)

lemma safe_bnd:
  "safe P m \<Longrightarrow> maintains P m \<Longrightarrow> (\<And>a. safe P (f a)) \<Longrightarrow> safe P (bnd m f)"
  unfolding safe_def maintains_def by (auto simp: bnd_run split: prod.split sum.split)

lemma safe_seq: "safe P m \<Longrightarrow> maintains P m \<Longrightarrow> safe P k \<Longrightarrow> safe P (seq m k)"
  by (simp add: seq_def safe_bnd)

lemma nonnull_bnd [null_rules]: "nonnull m \<Longrightarrow> (\<And>a. nonnull (f a)) \<Longrightarrow> nonnull (bnd m f)"
  by (rule safe_bnd) (simp_all add: maintains_def)

lemma nonnull_seq [null_rules]: "nonnull m \<Longrightarrow> nonnull k \<Longrightarrow> nonnull (seq m k)"
  by (rule safe_seq) (simp_all add: maintains_def)

lemma safe_if [null_rules]: "(b \<Longrightarrow> safe P m) \<Longrightarrow> (\<not> b \<Longrightarrow> safe P k) \<Longrightarrow> safe P (if b then m else k)"
  by simp

lemma safe_case_option [null_rules]:
  "safe P m \<Longrightarrow> (\<And>x. safe P (f x)) \<Longrightarrow> safe P (case z of None \<Rightarrow> m | Some x \<Rightarrow> f x)"
  by (simp split: option.splits)

lemma safe_case_sum [null_rules]:
  "(\<And>x. safe P (f x)) \<Longrightarrow> (\<And>x. safe P (g x)) \<Longrightarrow> safe P (case z of Inl x \<Rightarrow> f x | Inr x \<Rightarrow> g x)"
  by (simp split: sum.splits)

lemma safe_case_prod [null_rules]: "(\<And>a b. safe P (f a b)) \<Longrightarrow> safe P (case z of (a, b) \<Rightarrow> f a b)"
  by (simp split: prod.splits)

lemma safe_case_sockaddr [null_rules]:
  "(\<And>i p. safe P (f i p)) \<Longrightarrow> (\<And>i p. safe P (g i p)) \<Longrightarrow> safe P h \<Longrightarrow>
   safe P (case a of Inet i p \<Rightarrow> f i p | Inet6 i p \<Rightarrow> g i p | OtherFamily \<Rightarrow> h)"
  by (simp split: sockaddr.splits)

lemma nonnull_for_list [null_rules]: "(\<And>x. nonnull (body x)) \<Longrightarrow> nonnull (for_list xs body)"
  by (induction xs) (auto intro: null_rules)

lemma nonnull_bnd_val:
  "nonnull m \<Longrightarrow> (\<And>s a t. m s = (Inr a, t) \<Longrightarrow> nonnull (f a)) \<Longrightarrow> nonnull (bnd m f)"
  unfolding safe_def by (auto simp: bnd_run split: prod.split sum.split) (metis fst_conv)+

text \<open>What is nonnull in every state may follow anything.\<close>

lemma safe_bnd_nonnull: "safe P m \<Longrightarrow> (\<And>a. nonnull (f a)) \<Longrightarrow> safe P (bnd m f)"
  unfolding safe_def by (auto simp: bnd_run split: prod.split sum.split)

lemma safe_seq_nonnull: "safe P m \<Longrightarrow> nonnull k \<Longrightarrow> safe P (seq m k)"
  by (simp add: seq_def safe_bnd_nonnull)

lemma safe_after: "nonnull m \<Longrightarrow> (\<And>s a t. m s = (Inr a, t) \<Longrightarrow> P t) \<Longrightarrow> safe P k \<Longrightarrow> nonnull (seq m k)"
  unfolding safe_def by (auto simp: seq_run split: prod.split sum.split) (metis fst_conv)

lemma safe_gets_val: "(\<And>a. safe (\<lambda>s. P s \<and> g s = a) (f a)) \<Longrightarrow> safe P (bnd (gets g) f)"
  by (simp add: safe_def bnd_run)

lemma safe_gets: "(\<And>s. P s \<Longrightarrow> safe P (f (g s))) \<Longrightarrow> safe P (bnd (gets g) f)"
  by (simp add: safe_def bnd_run)

section \<open>Lists\<close>

lemma nonnull_load [null_rules]: "p \<noteq> 0 \<Longrightarrow> nonnull (load p)"
  by (simp add: safe_def load_def split: option.split)

lemma nonnull_zoom [null_rules]: "nonnull m \<Longrightarrow> nonnull (zoom getf putf m)"
  by (auto simp: safe_def zoom_run split: prod.split) (metis fst_conv)

lemma nonnull_local_run [null_rules]: "nonnull m \<Longrightarrow> nonnull (local_run l m)"
  by (auto simp: safe_def local_run_run split: prod.split sum.split) (metis fst_conv)

lemma nonnull_cells [null_rules]:
  "p \<noteq> 0 \<Longrightarrow> nonnull (store_nxt p q)" "p \<noteq> 0 \<Longrightarrow> nonnull (free_cell p)"
  unfolding store_nxt_def free_cell_def by (intro null_rules; assumption)+

lemma nonnull_push [null_rules]: "nonnull (list_push_back x)"
proof -
  have last: "nonnull (find_last n q p)" for n p and q :: addr
  proof (induction n arbitrary: p q)
    case 0
    show ?case unfolding find_last.simps by (intro null_rules)
  next
    case (Suc n)
    show ?case unfolding find_last.simps by (intro null_rules Suc.IH)
  qed
  have "nonnull (malloc_cell x)" for x :: 'a by (simp add: safe_def malloc_cell_def)
  then show ?thesis
    unfolding list_push_back_def list_push_back_no_create_def by (intro null_rules last)
qed

lemma nonnull_pop_at [null_rules]: "p \<noteq> 0 \<Longrightarrow> nonnull (list_pop_at q p)"
  unfolding list_pop_at_def by (intro null_rules)

lemma nonnull_destroy [null_rules]: "nonnull list_destroy"
proof -
  have "nonnull (list_clear_loop n p)" for n p
  proof (induction n arbitrary: p)
    case 0
    show ?case unfolding list_clear_loop.simps by (intro null_rules)
  next
    case (Suc n)
    show ?case unfolding list_clear_loop.simps by (intro null_rules Suc.IH)
  qed
  then show ?thesis unfolding list_destroy_def list_clear_def by (intro null_rules)
qed

lemma nonnull_foreach [null_rules]:
  assumes "\<And>p x. nonnull (body p x)"
  shows "nonnull (foreach getf body)"
proof -
  have "nonnull (foreach_loop getf body n p)" for n p
  proof (induction n arbitrary: p)
    case 0
    show ?case unfolding foreach_loop.simps by (intro null_rules)
  next
    case (Suc n)
    show ?case unfolding foreach_loop.simps by (intro null_rules assms Suc.IH)
  qed
  then show ?thesis unfolding foreach_def by (intro null_rules)
qed

lemma safe_sweep:
  fixes getf :: "'s \<Rightarrow> 'a list_t"
  assumes "\<And>x. safe P (body x)" and "\<And>x. maintains P (body x)"
    and "\<And>l s. P s \<Longrightarrow> P (putf l s)"
  shows "safe P (sweep getf putf body)"
proof -
  have z: "maintains P (zoom getf putf m)" for m :: "('a list_t, 'c) prog"
    using assms(3) by (auto simp: maintains_def zoom_run split: prod.splits)
  have "safe P (sweep_loop getf putf body n q p)" for n q p
  proof (induction n arbitrary: p q)
    case 0
    show ?case unfolding sweep_loop.simps by (rule safe_nonnull, rule null_rules)
  next
    case (Suc n)
    have at: "safe P (zoom getf putf (load p))" "safe P (zoom getf putf (list_pop_at q p))" if "p \<noteq> 0"
      by (rule safe_nonnull, intro null_rules that)+
    show ?case unfolding sweep_loop.simps
      by (intro safe_if safe_nonnull [OF nonnull_ret] safe_bnd z assms(1,2) Suc.IH at)
  qed
  then show ?thesis
    unfolding sweep_def by (intro safe_bnd safe_nonnull [OF nonnull_gets] maintains_keeps keeps_gets safe_case_prod)
qed

lemma nonnull_sweep [null_rules]: "(\<And>x. nonnull (body x)) \<Longrightarrow> nonnull (sweep getf putf body)"
  by (rule safe_sweep) (simp_all add: maintains_def)

section \<open>System calls\<close>

lemma nonnull_os [null_rules]:
  "nonnull (read_u8 fd)" "nonnull (read_lstr fd)" "nonnull (read_larea fd)" "nonnull (read_buf fd n)"
  "nonnull (sys c)" "nonnull (emit e)" "nonnull (sys_close fd)" "nonnull (print x)" "nonnull (take_junk k)"
  "nonnull junk_int" "nonnull (applog level format va)" "nonnull (debug_assert b fmt va)" "nonnull (write_to_fd fd bs)"
proof -
  show "nonnull (read_u8 fd)" "nonnull (read_lstr fd)" "nonnull (read_larea fd)" "nonnull (read_buf fd n)" "nonnull (sys c)"
    by (rule nonnull_total, rule read_u8_total read_lstr_total read_larea_total read_buf_total sys_total)+
  have e: "nonnull (emit e)" for e by (rule nonnull_total) (simp add: emit_run)
  then show "nonnull (emit e)" "nonnull (sys_close fd)" by (simp_all add: sys_close_def)
  show "nonnull (print x)" by (rule nonnull_total) (simp add: print_run)
  have j: "nonnull (take_junk k)" for k by (rule nonnull_total, rule take_junk_total)
  show "nonnull (take_junk k)" by (rule j)
  show "nonnull junk_int" unfolding junk_int_def by (intro null_rules j)
  show "nonnull (applog level format va)"
    unfolding applog_def log_internal_def vsnprintf_def by (intro null_rules e)
  show "nonnull (debug_assert b fmt va)" unfolding debug_assert_def print_def by (intro null_rules e)
  have "fst (write_to_fd fd bs s) \<noteq> Inl (UB NullDeref)" for s
  proof (induction fd bs s rule: write_to_fd.induct)
    case (1 fd bs s)
    have "fst (sys_write fd bs s) \<noteq> Inl (UB NullDeref)"
      by (simp add: sys_write_def Let_def split: list.splits wr.splits)
    then show ?case
      using "1" by (subst write_to_fd.simps) (auto split: prod.splits sum.splits option.splits)
  qed
  then show "nonnull (write_to_fd fd bs)" by (rule nonnullI)
qed

lemma nonnull_pure [null_rules]:
  "nonnull (write_to_packet p d n)" "nonnull (write_lstr p x)" "nonnull (as_string b)"
  "nonnull (area_string a)" "nonnull (int_to_string v k)"
  unfolding write_to_packet_def write_lstr_def as_string_def area_string_def int_to_string_def Let_def
  by (intro null_rules)+

lemma nonnull_extract [null_rules]:
  "nonnull (extract_port_from_socket fd r)" "nonnull (extract_ip_from_socket fd r)"
  "nonnull (extract_ip_port_from_socket fd r)"
  unfolding extract_port_from_socket_def extract_ip_from_socket_def extract_ip_port_from_socket_def
  by (intro null_rules)+

lemma nonnull_connections [null_rules]:
  "nonnull (connect_to ip port)" "nonnull (create_listening_socket p)" "nonnull (attempt_accept fd)"
proof -
  have "nonnull (connect_loop n ais)" for n ais
  proof (induction n ais rule: connect_loop.induct)
    case (4 n nm ais)
    show ?case unfolding connect_loop.simps by (intro null_rules "4.IH")
  qed (unfold connect_loop.simps, (rule null_rules)+)
  then show "nonnull (connect_to ip port)" unfolding connect_to_def by (intro null_rules)
  have "nonnull (listen_loop n ais)" for n ais
  proof (induction n ais rule: listen_loop.induct)
    case (3 n nm ais)
    show ?case unfolding listen_loop.simps by (intro null_rules "3.IH")
  qed (unfold listen_loop.simps, (rule null_rules)+)
  then show "nonnull (create_listening_socket p)" unfolding create_listening_socket_def by (intro null_rules)
  show "nonnull (attempt_accept fd)" unfolding attempt_accept_def by (intro null_rules)
qed

end
