(* ===== verification/Server_Null.thy ===== *)
theory Server_Null
  imports Server_Address Null_Safety
begin

text \<open>
  No servent dereferences NULL. Most of its programs never do, in any state; three depend on the
  state: the answers to searches read \<open>self_ip\<close>, and the list of neighbours and its display read the
  contact ports. \<open>servent_inv\<close> is the invariant they need, and every run of \<open>run_server\<close> has it.
\<close>

section \<open>Packets\<close>

lemma nonnull_deref: "p \<noteq> NullPtr \<Longrightarrow> nonnull (deref p)"
  unfolding deref_def by (cases p) (simp_all add: null_rules)

lemma nonnull_lists [null_rules]:
  "nonnull (write_machines machines p)" "nonnull (write_areas areas p)"
  "nonnull (read_machines sk n)" "nonnull (read_areas sk n)" "nonnull (junk_ints n)"
proof -
  show "nonnull (write_machines machines p)"
    by (induction machines arbitrary: p) (simp_all only: write_machines.simps, (intro null_rules; assumption?)+)
  show "nonnull (write_areas areas p)"
    by (induction areas arbitrary: p) (simp_all only: write_areas.simps, (intro null_rules; assumption?)+)
  show "nonnull (read_machines sk n)"
    by (induction n) (simp_all only: read_machines.simps, (intro null_rules; assumption?)+)
  show "nonnull (read_areas sk n)"
    by (induction n) (simp_all only: read_areas.simps, (intro null_rules; assumption?)+)
  show "nonnull (junk_ints n)"
    by (induction n) (simp_all only: junk_ints.simps, (intro null_rules; assumption?)+)
qed

lemma nonnull_own_port [null_rules]: "nonnull own_port"
  unfolding own_port_def by (intro null_rules)

lemma nonnull_packets [null_rules]:
  "nonnull (add_neighbour sk port)" "nonnull (answer_join_request sk j)"
  "nonnull (send_neighbours_request ip port)" "nonnull (send_join_request ip port r)"
  "nonnull (broadcast_packet bs)" "nonnull (broadcast_packet_to fds n bs)" "nonnull leave_network"
  unfolding add_neighbour_def answer_join_request_def
    send_neighbours_request_def send_join_request_def leave_network_def broadcast_packet_def
    broadcast_packet_to_def Let_def
  by (intro null_rules)+

lemma nonnull_push_queues [null_rules]:
  "nonnull (push_awaiting sk)" "nonnull (push_request q)" "nonnull (push_download sk)"
  unfolding push_awaiting_def push_request_def push_download_def by (intro null_rules)+

section \<open>Joining and leaving\<close>

lemma nonnull_ensure_absent [null_rules]: "nonnull (ensure_absent_ip ip port)"
proof -
  have "nonnull (ensure_absent_loop ip port ns)" for ns
  proof (induction ns)
    case Nil
    show ?case unfolding ensure_absent_loop.simps by (intro null_rules)
  next
    case (Cons n ns)
    show ?case unfolding ensure_absent_loop.simps same_name_def by (intro null_rules Cons.IH)
  qed
  then show ?thesis unfolding ensure_absent_ip_def by (intro null_rules)
qed

text \<open>The pointer is compared with NULL before it is read.\<close>

lemma nonnull_is_self [null_rules]: "nonnull (is_self ip)"
  unfolding is_self_def by (intro null_rules nonnull_deref)

lemma nonnull_join [null_rules]:
  "nonnull (join ip port l force)" "nonnull (copy_name names ip port)" "nonnull (deduce_self_ip sk)"
  "nonnull (handle_join_responses l)" "nonnull (extract_neighbour_from_response sk)"
  unfolding join_def copy_name_def deduce_self_ip_def handle_join_responses_def join_response_body_def
    handle_join_response_def extract_neighbour_from_response_def
  by (intro null_rules)+

lemma nonnull_join_announced [null_rules]: "nonnull (join_announced sk n names l)"
proof (induction n arbitrary: names l)
  case 0
  show ?case unfolding join_announced.simps by (intro null_rules)
next
  case (Suc n)
  show ?case unfolding join_announced.simps by (intro null_rules Suc.IH)
qed

lemma nonnull_join_through [null_rules]: "nonnull (join_through k ip port)"
proof (induction k arbitrary: ip port)
  case 0
  show ?case unfolding join_through.simps by (intro null_rules)
next
  case (Suc k)
  show ?case unfolding join_through.simps by (intro null_rules Suc.IH)
qed

lemma nonnull_join_more [null_rules]:
  "nonnull (join_network_through ip port n)" "nonnull (join_network oip oport)" "nonnull (handle_join_request sk)"
  unfolding join_network_def join_network_through_def handle_join_request_def join_answer_def
  by (intro null_rules)+

lemma nonnull_handle_leave [null_rules]: "nonnull (handle_leave i)"
proof -
  have "nonnull (rejoin_loop is)" for "is"
  proof (induction "is")
    case Nil
    show ?case unfolding rejoin_loop.simps by (intro null_rules)
  next
    case (Cons i "is")
    show ?case unfolding rejoin_loop.simps by (intro null_rules Cons.IH)
  qed
  then show ?thesis unfolding handle_leave_def by (intro null_rules)
qed

section \<open>The contact ports of the neighbours\<close>

definition has_ports :: "socket_contact_t list \<Rightarrow> bool" where
  "has_ports ns \<longleftrightarrow> list_all (\<lambda>n. sc_sock n \<noteq> - 1 \<longrightarrow> sc_port n \<noteq> None) ns"

definition ports_ok :: "server_t \<Rightarrow> bool" where
  "ports_ok s \<longleftrightarrow> has_ports (neighbours s)"

lemma has_ports_update: "has_ports ns \<Longrightarrow> sc_port n \<noteq> None \<or> sc_sock n = - 1 \<Longrightarrow> has_ports (ns[i := n])"
  by (auto simp: has_ports_def list_all_iff dest!: set_update_subset_insert [THEN subsetD])

lemma servent_ports: "servent_ok s \<Longrightarrow> ports_ok s"
  by (auto simp: servent_ok_def neighbours_ok_def ports_ok_def has_ports_def list_all_iff)

lemma ports_add: "keeps ports_ok (add_neighbour sk port)"
  unfolding add_neighbour_def
  by (intro keep_rules keeps_modify) (simp add: ports_ok_def has_ports_update)

interpretation pt: join_frame ports_ok
  by unfold_locales (simp_all add: ports_ok_def has_ports_update ports_add)

lemma nonnull_deref_port: "p \<noteq> None \<Longrightarrow> nonnull (deref_port p)"
  unfolding deref_port_def by (auto intro: null_rules)

lemma neighbour_names_ports:
  "neighbour_names ns s = (Inr names, t) \<Longrightarrow> has_ports ns \<Longrightarrow> list_all (\<lambda>m. snd m \<noteq> None) names"
  by (induction ns arbitrary: names s t)
    (auto simp: has_ports_def bnd_run split: if_splits sockaddr.splits prod.splits sum.splits)

lemma nonnull_neighbour_names [null_rules]: "nonnull (neighbour_names ns)"
  by (induction ns) (simp_all only: neighbour_names.simps, (intro null_rules; assumption?)+)

lemma nonnull_write_names: "list_all (\<lambda>m. snd m \<noteq> None) ms \<Longrightarrow> nonnull (write_names ms p)"
proof (induction ms arbitrary: p)
  case Nil
  show ?case unfolding write_names.simps by (rule null_rules)
next
  case (Cons m ms)
  then have "nonnull (deref_port (snd m))" "nonnull (write_names ms p)" for p
    by (auto intro: nonnull_deref_port)
  then show ?case unfolding write_names.simps by (intro null_rules)
qed

lemma safe_compute_and_send: "safe ports_ok (compute_and_send_neighbours sk)"
  unfolding compute_and_send_neighbours_def
proof (rule safe_gets, rule safe_nonnull, rule nonnull_bnd_val [OF nonnull_neighbour_names])
  fix s u names t assume "ports_ok s" and "neighbour_names (neighbours s) u = (Inr names, t)"
  then have "nonnull (write_names names p)" for p
    by (intro nonnull_write_names) (auto simp: ports_ok_def dest: neighbour_names_ports)
  then show "nonnull (send_neighbours_list sk names)"
    unfolding send_neighbours_list_def Let_def by (intro null_rules)
qed

lemma nonnull_display: "has_ports ns \<Longrightarrow> nonnull (display_loop ns)"
proof (induction ns)
  case Nil
  show ?case unfolding display_loop.simps by (rule null_rules)
next
  case (Cons n ns)
  then have "nonnull (display_loop ns)" "sc_sock n \<noteq> - 1 \<Longrightarrow> nonnull (deref_port (sc_port n))"
    by (auto simp: has_ports_def intro: nonnull_deref_port)
  then show ?case unfolding display_loop.simps by (intro null_rules)
qed

lemma safe_display: "safe ports_ok display_neighbours"
  unfolding display_neighbours_def
  by (rule safe_gets, rule safe_nonnull, rule nonnull_display) (simp add: ports_ok_def)

text \<open>The sockets that wait, the round that sends the list of neighbours.\<close>

lemma nonnull_handle_remote_requests [null_rules]:
  "nonnull (handle_remote_search_request sk)" "nonnull (handle_remote_download_request sk)"
  unfolding handle_remote_search_request_def handle_remote_download_request_def by (intro null_rules)+

lemma safe_awaiting: "safe ports_ok handle_awaiting_sockets"
  unfolding handle_awaiting_sockets_def
proof (rule safe_sweep)
  have jr: "keeps ports_ok (handle_join_request sk)" for sk
    unfolding handle_join_request_def join_answer_def
    by (intro keeps_seq [OF keeps_learning] keep_rules pt.os_keeps pt.keeps_read_u8 pt.keeps_read_lstr
        pt.keeps_answer_join_request ports_add) (simp_all add: ports_ok_def)
  have hk: "keeps ports_ok (handle_awaiting_socket sk)" for sk
    unfolding handle_awaiting_socket_def poll_fd_def
    by (intro keep_rules pt.os_keeps pt.keeps_read_u8 pt.keeps_compute_and_send
        pt.keeps_handle_remote_download_request jr)
  then show "maintains ports_ok (awaiting_body sk)" for sk
    unfolding awaiting_body_def by (intro maintains_keeps keep_rules pt.os_keeps)
  have leaf: "safe ports_ok (ret a)" "safe ports_ok (read_u8 fd)" "safe ports_ok (sys c)" "safe ports_ok (sys_close fd)"
    "safe ports_ok (handle_join_request sk)" "safe ports_ok (handle_remote_download_request sk)" for a :: 'a and fd c sk
    by (rule safe_nonnull, rule null_rules)+
  have one: "safe ports_ok (handle_awaiting_socket sk)" for sk
    unfolding handle_awaiting_socket_def poll_fd_def
    by (intro safe_bnd safe_seq safe_if leaf safe_compute_and_send maintains_keeps pt.os_keeps pt.keeps_read_u8 keep_rules
        pt.keeps_compute_and_send pt.keeps_handle_remote_download_request jr)
  show "safe ports_ok (awaiting_body sk)" for sk
    unfolding awaiting_body_def
    by (intro safe_bnd safe_seq safe_if leaf one maintains_keeps keep_rules pt.os_keeps hk)
qed (simp add: ports_ok_def)

section \<open>The answers to requests\<close>

lemma nonnull_files [null_rules]:
  "nonnull (search_file f)" "nonnull (store_file path b)" "nonnull (load_file rest buffer)"
  "nonnull (read_whole_file path)" "nonnull (write_content p b)"
proof -
  show "nonnull (search_file f)" "nonnull (store_file path b)"
    unfolding search_file_def search_file_fork_def store_file_def by (intro null_rules)+
  have load: "nonnull (load_file rest buffer)" for rest buffer
  proof (rule nonnullI)
    show "fst (load_file rest buffer s) \<noteq> Inl (UB NullDeref)" for s
      by (induction rest buffer rule: load_file.induct; subst load_file.simps) (auto simp: Let_def)
  qed
  then show "nonnull (load_file rest buffer)" .
  show "nonnull (read_whole_file path)" "nonnull (write_content p b)"
    unfolding read_whole_file_def write_content_def by (intro null_rules load)+
qed

lemma nonnull_searches [null_rules]:
  "nonnull (check_unique_request r)" "nonnull (clean_search_request b r)" "nonnull (send_search_answer_to_client f n areas)"
  "nonnull (forward_to_local r)" "nonnull (handle_remote_search_answer sk)"
  unfolding handle_remote_search_answer_def forward_to_local_def check_unique_request_def
    clean_search_request_def send_search_answer_to_client_def Let_def
  by (intro null_rules)+

lemma nonnull_downloads [null_rules]:
  "nonnull (send_download_error_response r c)" "nonnull (answer_remote_download_request d)"
  "nonnull (answer_local_download_request dl)" "nonnull (handle_remote_download_answer sk)"
  unfolding send_download_error_response_def clean_download_run build_download_answer_header_def answer_remote_download_request_def
    answer_local_download_request_def handle_remote_download_answer_def Let_def
  by (intro null_rules)+

text \<open>The searches read the address of the servent.\<close>

definition addressed :: "server_t \<Rightarrow> bool" where
  "addressed s \<longleftrightarrow> self_ip s \<noteq> NullPtr"

interpretation addr: server_frame addressed
  by unfold_locales (simp_all add: addressed_def)

lemma safe_write_self: "safe addressed (write_self p)"
  unfolding write_self_def
  by (rule safe_gets, rule safe_nonnull) (intro null_rules nonnull_deref, simp add: addressed_def)

lemma safe_answer_local: "safe addressed (answer_local_search_request name)"
proof -
  have leaf: "safe addressed (search_file f)" "safe addressed (write_to_packet p d n)" "safe addressed (write_lstr p x)"
    "safe addressed (ret b)" "safe addressed (broadcast_packet bs)" "safe addressed (gets client_socket)"
    "safe addressed (write_to_fd fd bs)" "safe addressed (ret u)" for f p d n x b bs fd u
    by (rule safe_nonnull, rule null_rules)+
  show ?thesis
    unfolding answer_local_search_request_def Let_def
    by (intro safe_bnd safe_if leaf safe_write_self maintains_keeps keep_rules addr.keeps_search_file
        addr.keeps_write_to_fd)
qed


lemma safe_answer_remote: "safe addressed (answer_remote_search_request r)"
proof -
  have leaf: "safe addressed (search_file f)" "safe addressed (write_to_packet p d n)" "safe addressed (write_lstr p x)"
    "safe addressed (ret b)" "safe addressed (broadcast_packet_to fds n bs)" "safe addressed (gets neighbours)"
    "safe addressed (write_machines ms p)" "safe addressed (ret i)" "safe addressed (check_unique_request r)"
    "safe addressed (forward_to_local r)" "safe addressed (clean_search_request c r)" "safe addressed (junk_ints n)"
    "safe addressed (halt AssertFail :: pbuf server_prog)" for f p d n x b bs fds ms i c
    by (rule safe_nonnull, rule null_rules)+
  have dr: "safe addressed (deref (self_ip s))" if "addressed s" for s
    using that by (intro safe_nonnull [OF nonnull_deref]) (simp add: addressed_def)
  show ?thesis
    unfolding answer_remote_search_request_def Let_def
    by (rule safe_gets) (intro safe_bnd safe_seq safe_if safe_case_prod leaf safe_write_self dr maintains_keeps keep_rules
        addr.keeps_search_file addr.keeps_write_to_fd addr.keeps_broadcast_packet_to addr.keeps_junk_ints; assumption)
qed

lemma safe_requests: "safe addressed handle_pending_requests"
  unfolding handle_pending_requests_def
proof (rule safe_sweep)
  have one: "safe addressed (handle_pending_request r)" for r
    unfolding handle_pending_request_def
    by (cases r) (simp_all add: safe_answer_local safe_answer_remote safe_nonnull nonnull_downloads)
  have keep: "keeps addressed (handle_pending_request r)" for r
    unfolding handle_pending_request_def
    by (cases r) (simp_all add: addr.keeps_answer_local_search addr.keeps_answer_remote_search
        addr.keeps_answer_local_download addr.keeps_answer_remote_download)
  show "safe addressed (seq (handle_pending_request r) (ret True))" for r
    by (intro safe_seq one maintains_keeps keep safe_nonnull [OF nonnull_ret])
  show "maintains addressed (seq (handle_pending_request r) (ret True))" for r
    by (intro maintains_keeps keep_rules keep)
qed (simp add: addressed_def)

section \<open>The other steps of a turn\<close>

lemma nonnull_clear_server [null_rules]: "nonnull clear_server"
proof -
  have "nonnull (close_neighbours is)" for "is"
  proof (induction "is")
    case Nil
    show ?case unfolding close_neighbours.simps by (intro null_rules)
  next
    case (Cons i "is")
    show ?case unfolding close_neighbours.simps by (intro null_rules Cons.IH)
  qed
  moreover have "nonnull (clear_request r)" for r
    unfolding clear_request_def by (cases r) (auto intro: null_rules)
  ultimately show ?thesis
    unfolding clear_server_def each_def close_first_field_def by (intro null_rules)
qed

lemma nonnull_steps [null_rules]:
  "nonnull (handle_accept_result r)" "nonnull handle_pending_downloads" "nonnull handle_client"
  "nonnull (update_log_timers d)" "nonnull handle_neighbours"
proof -
  show "nonnull (handle_accept_result r)"
    unfolding handle_accept_result_def handshake_def handle_handshake_result_def handle_new_socket_def
    by (intro null_rules)
  show "nonnull handle_pending_downloads" "nonnull (update_log_timers d)"
    unfolding handle_pending_downloads_def handle_pending_download_def update_log_timers_def poll_fd_def
    by (intro null_rules)+
  show "nonnull handle_client"
    unfolding handle_client_def handle_local_search_request_def handle_local_download_request_def poll_fd_def
    by (intro null_rules)
  have "nonnull (handle_neighbours_loop is)" for "is"
  proof (induction "is")
    case Nil
    show ?case unfolding handle_neighbours_loop.simps by (intro null_rules)
  next
    case (Cons i "is")
    show ?case unfolding handle_neighbours_loop.simps handle_neighbour_def poll_fd_def
      by (intro null_rules Cons.IH)
  qed
  then show "nonnull handle_neighbours" by (simp add: handle_neighbours_def)
qed

section \<open>A whole servent\<close>

text \<open>What a turn starts with: the neighbours are counted, and with one of them the address is known.\<close>

definition servent_inv :: "server_t \<Rightarrow> bool" where
  "servent_inv s \<longleftrightarrow> servent_ok s \<and> (own_address s \<or> freed_address s)"

lemma inv_addressed: "servent_inv s \<Longrightarrow> nb_neighbours s \<noteq> 0 \<Longrightarrow> addressed s"
  by (auto simp: servent_inv_def servent_ok_def neighbours_ok_def own_address_def live_address_def
      freed_address_def addressed_def used_no_neighbours)

lemma maintains_inv:
  "maintains servent_ok m \<Longrightarrow> maintains own_address m \<Longrightarrow> maintains freed_address m \<Longrightarrow> maintains servent_inv m"
  unfolding maintains_def servent_inv_def by blast

lemma display_keeps [keep_rules]: "keeps P display_neighbours"
  unfolding display_neighbours_def by (intro keep_rules)

lemma inv_steps:
  "maintains servent_inv (attempt_accept fd)" "maintains servent_inv (handle_accept_result r)"
  "maintains servent_inv handle_awaiting_sockets" "maintains servent_inv handle_neighbours"
  "maintains servent_inv handle_pending_downloads" "maintains servent_inv handle_client"
  "maintains servent_inv (modify (\<lambda>s. s\<lparr>loop_flag := k\<rparr>))"
  by (rule maintains_inv; (rule handle_accept_maintains stt.maintains_accept dgt.maintains_accept | rule maintains_keeps,
      (rule sv.keeps_attempt_accept st.keeps_attempt_accept dg.keeps_attempt_accept
        keeps_handle_awaiting_sockets stt.keeps_awaiting dgt.keeps_awaiting
        keeps_handle_neighbours stt.keeps_neighbours dgt.keeps_neighbours
        keeps_handle_pending_downloads stt.keeps_downloads dgt.keeps_downloads
        keeps_handle_client stt.keeps_client dgt.keeps_client
       | rule keeps_modify, simp add: servent_ok_def neighbours_ok_def own_address_def live_address_def freed_address_def)))+

lemma turn_inv: "maintains servent_inv (loop_turn b e tm)"
  by (intro maintains_inv loop_turn_maintains stt.turn_maintains dgt.turn_maintains)

lemma safe_loop_turn: "safe servent_inv (loop_turn b e tm)"
proof -
  have "ports_ok s" if "servent_inv s" for s using that by (simp add: servent_inv_def servent_ports)
  then have aw: "safe servent_inv handle_awaiting_sockets" and ds: "safe servent_inv display_neighbours"
    by (blast intro: safe_weaken [OF safe_awaiting] safe_weaken [OF safe_display])+
  have rq: "safe (\<lambda>s. servent_inv s \<and> nb_neighbours s = a) handle_pending_requests" if "a \<noteq> 0" for a
    using that inv_addressed by (intro safe_weaken [OF safe_requests]) auto
  have atoms: "safe P (ret a)" "safe P (ret u)" "safe P (modify f)" "safe P (attempt_accept fd)" "safe P (handle_accept_result r)"
    "safe P handle_neighbours" "safe P handle_pending_downloads" "safe P handle_client" "safe P (gets listening_socket)"
    for P and a :: int and u :: unit and f fd r
    by (rule safe_nonnull, rule null_rules)+
  have requests: "safe servent_inv (bnd (gets nb_neighbours) (\<lambda>nb. seq (if nb \<noteq> 0 then handle_pending_requests else ret ()) k))"
    if "nonnull k" for k :: "timers server_prog"
    by (rule safe_gets_val, rule safe_seq_nonnull [OF _ that]) (intro safe_if rq atoms)
  have tail: "nonnull (seq (update_log_timers d) (if c then seq (emit x) (ret a) else ret a'))" for d c x and a a' :: timers
    by (intro null_rules)
  show ?thesis
    unfolding loop_turn_def Let_def
    by (intro requests tail safe_bnd safe_seq safe_if atoms aw ds inv_steps maintains_keeps [OF keeps_gets] maintains_if
        maintains_keeps [OF display_keeps] maintains_seq maintains_keeps [OF keeps_ret])
qed

lemma safe_loop: "safe servent_inv (loop clock tm)"
proof (induction clock arbitrary: tm)
  case Nil
  show ?case unfolding loop.simps by (rule safe_nonnull) (intro null_rules)
next
  case (Cons c clock)
  show ?case unfolding loop.simps
    by (rule safe_bnd) (intro safe_nonnull [OF nonnull_gets] maintains_keeps keeps_gets safe_if safe_bnd safe_loop_turn turn_inv Cons.IH
        safe_nonnull [OF nonnull_ret])+
qed

lemma nonnull_start: "nonnull (start_server fm lp ip port)"
  unfolding start_server_def by (intro null_rules)

lemma start_inv: "start_server fm lp ip port s = (Inr (), t) \<Longrightarrow> servent_inv t"
  unfolding servent_inv_def using start_server_neighbours [of fm] first_settled joined_dangling
  by (cases fm) auto

lemma nonnull_run_server: "nonnull (run_server clock fm lp ip port)"
  unfolding run_server_def
proof (rule safe_after [OF nonnull_start])
  show "servent_inv t" if "start_server fm lp ip port s = (Inr a, t)" for s a t
    using that start_inv by simp
  show "safe servent_inv (seq (bnd (loop clock start_timers) (\<lambda>_. ret ())) (seq leave_network (seq clear_server (ret 0))))"
    by (intro safe_seq_nonnull safe_bnd_nonnull safe_loop null_rules)
qed

section \<open>Properties\<close>

text \<open>
  C7. No servent dereferences a NULL pointer, from its start to its end, whatever its arguments, whatever the
  network and its client send, in whatever pieces, and however the system calls answer: the addresses
  and ports it reads have been set, and every walk over a list stops at its end.
\<close>

theorem servent_never_null: "fst (run_server clock first_machine listen_port ip port s) \<noteq> Inl (UB NullDeref)"
  by (rule safeD [OF nonnull_run_server TrueI])

end
