(* ===== verification/Server_Progress.thy ===== *)
theory Server_Progress
  imports Server_Fields Server_Invariant Progress
begin

text \<open>
  No turn of a servent runs forever, except where \<open>socket\<close> fails for good. The invariant is
  \<open>lists_alive\<close>: the four lists can be walked, and the log of searches is empty. The contract
  \<open>settle_frame\<close> is shared by the start of a servent, which has no lists yet, and by its turns.
\<close>

section \<open>Programs on no state, and on the lists of a caller\<close>

lemma settles_deref [settle_rules]: "settles_any P (deref p)"
  unfolding deref_def by (cases p) (simp_all add: settle_rules)

lemma settles_deref_port [settle_rules]: "settles_any P (deref_port p)"
  unfolding deref_port_def by (intro settle_rules)

lemma settles_neighbour_names [settle_rules]: "settles_any P (neighbour_names ns)"
proof (induction ns)
  case Nil
  show ?case unfolding neighbour_names.simps by (intro settle_rules)
next
  case (Cons n ns)
  show ?case unfolding neighbour_names.simps by (intro settle_rules Cons.IH)
qed

lemma settles_write_names [settle_rules]: "settles_any P (write_names ms p)"
proof (induction ms arbitrary: p)
  case Nil
  show ?case unfolding write_names.simps by (intro settle_rules)
next
  case (Cons m ms)
  show ?case unfolding write_names.simps by (intro settle_rules Cons.IH)
qed

lemma settles_write_machines [settle_rules]: "settles_any P (write_machines ms p)"
proof (induction ms arbitrary: p)
  case Nil
  show ?case unfolding write_machines.simps by (intro settle_rules)
next
  case (Cons m ms)
  show ?case unfolding write_machines.simps by (intro settle_rules Cons.IH)
qed

lemma settles_write_areas [settle_rules]: "settles_any P (write_areas ms p)"
proof (induction ms arbitrary: p)
  case Nil
  show ?case unfolding write_areas.simps by (intro settle_rules)
next
  case (Cons m ms)
  show ?case unfolding write_areas.simps by (intro settle_rules Cons.IH)
qed

lemma settles_own_port [settle_rules]: "settles_any P own_port"
  by (auto simp: settles_def own_port_run split: option.splits)

lemma settles_load_file [settle_rules]: "settles_any P (load_file rest buffer)"
proof (rule settles_keeps)
  show "keeps P (load_file rest buffer)" by (simp add: keeps_def load_file_state)
  show "fst (load_file rest buffer s) \<noteq> Inl Diverges" for s
    by (induction rest buffer rule: load_file.induct; subst load_file.simps) (auto simp: Let_def)
qed

lemma settles_local_push:
  assumes "walkable l"
  shows "settles P walkable (local_run l (list_push_back x))"
  using walkable_push [OF assms, of x]
  by (auto simp: settles_def local_run_run split: prod.splits sum.splits)

lemma walkable_create: "walkable (list_create cmp mk)"
  by (rule walkable_repr, rule repr_create)

section \<open>The operations of a servent\<close>

locale settle_frame = os_frame P for P :: "server_t \<Rightarrow> bool" +
  assumes frame_neighbours: "P (s\<lparr>neighbours := ns\<rparr>) = P s"
    and frame_nb: "P (s\<lparr>nb_neighbours := n\<rparr>) = P s"
    and frame_self: "P (s\<lparr>self_ip := x\<rparr>) = P s"
    and frame_client: "P (s\<lparr>client_socket := k\<rparr>) = P s"
    and frame_handshake: "P (s\<lparr>handshake_flag := h\<rparr>) = P s"
    and frame_listening: "P (s\<lparr>listening_socket := k\<rparr>) = P s"
    and frame_loop: "P (s\<lparr>loop_flag := h\<rparr>) = P s"
begin

lemmas servent_frames = frame_neighbours frame_nb frame_self frame_client frame_handshake
  frame_listening frame_loop

lemmas settles_steps [settle_rules] = settles_os settles_extract settles_attempt_accept
  settles_create_listening_socket settles_weaken [OF settles_connect_to TrueI]

lemma settles_set [settle_rules]:
  "settles_any P (modify (\<lambda>s. s\<lparr>neighbours := f s, nb_neighbours := g s\<rparr>))"
  "settles_any P (modify (\<lambda>s. s\<lparr>neighbours := f s\<rparr>))" "settles_any P (modify (\<lambda>s. s\<lparr>self_ip := x\<rparr>))"
  "settles_any P (modify (\<lambda>s. s\<lparr>client_socket := k\<rparr>))" "settles_any P (modify (\<lambda>s. s\<lparr>handshake_flag := h\<rparr>))"
  "settles_any P (modify (\<lambda>s. s\<lparr>listening_socket := k\<rparr>))" "settles_any P (modify (\<lambda>s. s\<lparr>loop_flag := h\<rparr>))"
  "settles_any P (modify (\<lambda>s. s\<lparr>files := e s\<rparr>))"
  by (rule settles_modify, simp add: servent_frames frames)+

subsection \<open>Packets\<close>

lemma settles_packets [settle_rules]:
  "settles_any P (send_neighbours_list sk names)" "settles_any P (compute_and_send_neighbours sk)"
  "settles_any P (add_neighbour sk port)" "settles_any P (answer_join_request sk j)"
  "settles_any P (send_neighbours_request ip port)" "settles_any P (send_join_request ip port r)"
  "settles_any P (broadcast_packet bs)" "settles_any P (broadcast_packet_to fds n bs)" "settles_any P leave_network"
  unfolding compute_and_send_neighbours_def send_neighbours_list_def add_neighbour_def answer_join_request_def
    send_neighbours_request_def send_join_request_def leave_network_def broadcast_packet_def
    broadcast_packet_to_def Let_def
  by (intro settle_rules)+

subsection \<open>Joining and leaving\<close>

lemma settles_ensure_absent [settle_rules]: "settles_any P (ensure_absent_ip ip port)"
proof -
  have "settles_any P (ensure_absent_loop ip port ns)" for ns
  proof (induction ns)
    case Nil
    show ?case unfolding ensure_absent_loop.simps by (intro settle_rules)
  next
    case (Cons n ns)
    show ?case unfolding ensure_absent_loop.simps same_name_def by (intro settle_rules Cons.IH)
  qed
  then show ?thesis unfolding ensure_absent_ip_def by (intro settle_rules)
qed

lemma settles_join: "walkable l \<Longrightarrow> settles P walkable (join ip port l force)"
  unfolding join_def by (intro settle_rules settles_local_push settles_ret) assumption+

lemma settles_handle_join_responses: "walkable l \<Longrightarrow> settles_any P (handle_join_responses l)"
  unfolding handle_join_responses_def join_response_body_def handle_join_response_def
  by (intro settle_rules settles_foreach_local)

lemma settles_copy_name [settle_rules]: "settles_any P (copy_name names ip port)"
  unfolding copy_name_def by (intro settle_rules)

lemma settles_is_self [settle_rules]: "settles_any P (is_self ip)"
  unfolding is_self_def by (intro settle_rules)

lemma settles_deduce_self_ip [settle_rules]: "settles_any P (deduce_self_ip sk)"
  unfolding deduce_self_ip_def by (intro settle_rules)

lemma settles_join_announced:
  "walkable l \<Longrightarrow> settles P (\<lambda>r. walkable (snd r)) (join_announced sk n names l)"
proof (induction n arbitrary: names l)
  case 0
  then show ?case unfolding join_announced.simps by (intro settles_ret) simp
next
  case (Suc n)
  have loop: "settles P (\<lambda>r. walkable (snd r)) (bnd (join i p l 0) (join_announced sk n ns))" for i p ns
    by (rule settles_bnd_val [OF settles_join [OF Suc.prems] Suc.IH])
  show ?case unfolding join_announced.simps extract_neighbour_from_response_def
    by (intro settle_rules loop Suc.IH Suc.prems)
qed

lemma settles_join_through [settle_rules]: "settles_any P (join_through k ip port)"
proof (induction k arbitrary: ip port)
  case 0
  show ?case unfolding join_through.simps by (intro settle_rules)
next
  case (Suc k)
  have contact: "settles P (\<lambda>r. walkable (snd r))
      (if b then bnd (copy_name names ip port) (\<lambda>names.
         bnd (join ip port l f) (\<lambda>awaiting. ret (names, awaiting)))
       else ret (names, l))" if "walkable l" for b names l f
    by (intro settle_rules settles_bnd_val [OF settles_join [OF that]] settles_ret) (simp_all add: that)
  have rest: "settles_any P (bnd m (\<lambda>(names, awaiting). seq (handle_join_responses awaiting) (k names awaiting)))"
    if "settles P (\<lambda>r. walkable (snd r)) m" "\<And>names awaiting. walkable awaiting \<Longrightarrow> settles_any P (k names awaiting)"
    for m :: "(machine list \<times> int list_t) server_prog" and k
    by (rule settles_bnd_val [OF that(1)]) (auto intro!: settle_rules settles_handle_join_responses that(2))
  have destroy: "settles_any P (local_run l list_destroy)" if "walkable l" for l :: "int list_t"
    using walkable_destroy [OF that]
    by (auto simp: settles_def local_run_run split: prod.splits sum.splits)
  have split: "settles_any P (bnd m (\<lambda>(names, awaiting). seq (sys_close sk) (bnd (g names awaiting) (f names awaiting))))"
    if "settles P (\<lambda>r. walkable (snd r)) m" "\<And>names awaiting. walkable awaiting \<Longrightarrow> settles_any P (bnd (g names awaiting) (f names awaiting))"
    for m :: "(machine list \<times> int list_t) server_prog" and sk and f :: "machine list \<Rightarrow> int list_t \<Rightarrow> (machine list \<times> int list_t) \<Rightarrow> int server_prog" and g
    by (rule settles_bnd_val [OF that(1)]) (auto intro!: settle_rules that(2))
  show ?case unfolding join_through.simps
    by (intro split rest contact settles_join_announced walkable_create Suc.IH destroy settle_rules)
qed

lemma settles_join_more [settle_rules]:
  "settles_any P (join_network_through ip port n)" "settles_any P (join_network oip oport)"
  "settles_any P (handle_join_request sk)"
  unfolding join_network_def join_network_through_def handle_join_request_def join_answer_def
  by (intro settle_rules)+

lemma settles_handle_leave [settle_rules]: "settles_any P (handle_leave i)"
proof -
  have "settles_any P (rejoin_loop is)" for "is"
  proof (induction "is")
    case Nil
    show ?case unfolding rejoin_loop.simps by (intro settle_rules)
  next
    case (Cons i "is")
    show ?case unfolding rejoin_loop.simps by (intro settle_rules Cons.IH)
  qed
  then show ?thesis unfolding handle_leave_def by (intro settle_rules)
qed

subsection \<open>Searches and downloads\<close>

lemma settles_search_file [settle_rules]: "settles_any P (search_file f)"
  unfolding search_file_def search_file_fork_def by (intro settle_rules)

lemma settles_write_self [settle_rules]: "settles_any P (write_self p)"
  unfolding write_self_def by (intro settle_rules)

lemma settles_read_machines [settle_rules]: "settles_any P (read_machines sk n)"
proof (induction n)
  case 0
  show ?case unfolding read_machines.simps by (intro settle_rules)
next
  case (Suc n)
  show ?case unfolding read_machines.simps by (intro settle_rules Suc.IH)
qed

lemma settles_read_areas [settle_rules]: "settles_any P (read_areas sk n)"
proof (induction n)
  case 0
  show ?case unfolding read_areas.simps by (intro settle_rules)
next
  case (Suc n)
  show ?case unfolding read_areas.simps by (intro settle_rules Suc.IH)
qed

lemma settles_junk_ints [settle_rules]: "settles_any P (junk_ints n)"
proof (induction n)
  case 0
  show ?case unfolding junk_ints.simps by (intro settle_rules)
next
  case (Suc n)
  show ?case unfolding junk_ints.simps by (intro settle_rules Suc.IH)
qed

lemma settles_searches [settle_rules]:
  "settles_any P (answer_local_search_request name)" "settles_any P (clean_search_request b r)"
  "settles_any P (send_search_answer_to_client f n areas)" "settles_any P (forward_to_local r)"
  "settles_any P (handle_remote_search_answer sk)"
  unfolding handle_remote_search_answer_def forward_to_local_def answer_local_search_request_def
    clean_search_request_def send_search_answer_to_client_def Let_def
  by (intro settle_rules)+

text \<open>A search is compared with the log, which has to be a list that can be walked.\<close>

lemma settles_answer_remote_search:
  assumes "\<And>s. P s \<Longrightarrow> walkable (received_search_requests s)"
  shows "settles_any P (answer_remote_search_request r)"
proof -
  have "settles_any P (check_unique_request r)"
    unfolding check_unique_request_def by (intro settle_rules settles_foreach assms) auto
  then show ?thesis
    unfolding answer_remote_search_request_def Let_def by (intro settle_rules)
qed

lemma settles_store_file [settle_rules]: "settles_any P (store_file path b)"
  unfolding store_file_def by (intro settle_rules)

lemma settles_downloads [settle_rules]:
  "settles_any P (send_download_error_response r c)" "settles_any P (answer_remote_download_request d)"
  "settles_any P (handle_remote_download_answer sk)"
  unfolding send_download_error_response_def clean_download_run build_download_answer_header_def answer_remote_download_request_def
    handle_remote_download_answer_def write_content_def read_whole_file_def Let_def
  by (intro settle_rules)+

text \<open>The handlers that queue something, where queueing settles.\<close>

lemma settles_queueing:
  assumes "\<And>r. settles_any P (push_request r)"
  shows "settles_any P (handle_remote_search_request sk)" "settles_any P (handle_remote_download_request sk)"
    "settles_any P handle_local_search_request" "settles_any P handle_local_download_request"
  unfolding handle_remote_search_request_def handle_remote_download_request_def
    handle_local_search_request_def handle_local_download_request_def
  by (intro settle_rules assms)+

lemma settles_answer_local_download:
  assumes "\<And>d. settles_any P (push_download d)"
  shows "settles_any P (answer_local_download_request d)"
  unfolding answer_local_download_request_def clean_download_run Let_def by (intro settle_rules assms)

end

text \<open>Before the lists exist nothing is asked of them.\<close>

interpretation boot: settle_frame "\<lambda>_. True"
  by unfold_locales simp_all

section \<open>The turns\<close>

definition lists_alive :: "server_t \<Rightarrow> bool" where
  "lists_alive s \<longleftrightarrow> walkable (awaiting_sockets s) \<and> walkable (pending_requests s) \<and>
     walkable (received_search_requests s) \<and> walkable (pending_downloads s)"

interpretation alive: settle_frame lists_alive
  by unfold_locales (simp_all add: lists_alive_def)

lemma settles_zoom_alive:
  assumes "\<And>s r l. lists_alive s \<Longrightarrow> m (getf s) = (r, l) \<Longrightarrow>
    r \<noteq> Inl Diverges \<and> (\<forall>a. r = Inr a \<longrightarrow> lists_alive (putf l s))"
  shows "settles_any lists_alive (zoom getf putf m)"
  using assms by (intro settlesI) (auto simp: zoom_run split: prod.splits)

lemma settles_push_alive [settle_rules]:
  "settles_any lists_alive (push_awaiting sk)" "settles_any lists_alive (push_request q)"
  "settles_any lists_alive (push_download sk)"
  unfolding push_awaiting_def push_request_def push_download_def
  by (rule settles_zoom_alive, use walkable_push in \<open>fastforce simp: lists_alive_def\<close>)+

lemma settles_destroy_alive [settle_rules]:
  "settles_any lists_alive (zoom awaiting_sockets put_awaiting list_destroy)"
  "settles_any lists_alive (zoom pending_requests put_requests list_destroy)"
  "settles_any lists_alive (zoom received_search_requests put_logs list_destroy)"
  "settles_any lists_alive (zoom pending_downloads put_downloads list_destroy)"
  by (rule settles_zoom_alive, use walkable_destroy in \<open>fastforce simp: lists_alive_def\<close>)+

lemma settles_clear_server [settle_rules]: "settles_any lists_alive clear_server"
proof -
  have each: "settles_any lists_alive (each getf body)"
    if "\<And>s. lists_alive s \<Longrightarrow> walkable (getf s)" "\<And>p x. settles_any lists_alive (body p x)"
      "\<And>p x s. getf (snd (body p x s)) = getf s"
    for getf :: "server_t \<Rightarrow> 'c list_t" and body
  proof -
    have "getf u = getf s" if "body p x s = (r, u)" for p x s r u
      using \<open>\<And>p x s. getf (snd (body p x s)) = getf s\<close> [of p x s] that by simp
    then show ?thesis
      unfolding each_def using that(1,2)
      by (intro settle_rules settles_foreach) (auto simp: bnd_run split: prod.splits sum.splits)
  qed
  have first: "settles_any lists_alive (close_first_field p)" for p
    unfolding close_first_field_def by (intro settle_rules)
  have keep: "awaiting_sockets (snd (close_first_field p s)) = awaiting_sockets s" for p s
    by (simp add: close_first_field_def bnd_run sys_close_def emit_run junk_int_def take_junk_def split: option.split)
  have ns: "settles_any lists_alive (close_neighbours is)" for "is"
  proof (induction "is")
    case Nil
    show ?case unfolding close_neighbours.simps by (intro settle_rules)
  next
    case (Cons i "is")
    show ?case unfolding close_neighbours.simps by (intro settle_rules Cons.IH)
  qed
  have req: "settles_any lists_alive (clear_request r)" for r
    unfolding clear_request_def by (cases r) (auto intro: settle_rules)
  have keepr: "pending_requests (snd (clear_request r s)) = pending_requests s" for r s
    by (simp add: clear_request_def sys_close_def emit_run split: request_t.split)
  show ?thesis
    unfolding clear_server_def
    by (intro settle_rules each ns first req keep keepr)
      (simp_all add: lists_alive_def sys_close_def emit_run)
qed

lemma settles_handle_accept [settle_rules]: "settles_any lists_alive (handle_accept_result r)"
  unfolding handle_accept_result_def handshake_def handle_handshake_result_def handle_new_socket_def
  by (intro settle_rules)

text \<open>The four rounds over the lists.\<close>

lemma list_fields: "list_field awaiting_sockets put_awaiting" "list_field pending_requests put_requests"
  "list_field received_search_requests put_logs" "list_field pending_downloads put_downloads"
  by unfold_locales simp_all

lemmas settles_queueing_alive [settle_rules] = alive.settles_queueing [OF settles_push_alive(2)]
  alive.settles_answer_local_download [OF settles_push_alive(3)]

lemma settles_rounds [settle_rules]:
  "settles_any lists_alive handle_awaiting_sockets" "settles_any lists_alive handle_pending_requests"
  "settles_any lists_alive handle_pending_downloads" "settles_any lists_alive (update_log_timers d)"
proof -
  have "settles_any lists_alive (awaiting_body sk)" for sk
    unfolding awaiting_body_def handle_awaiting_socket_def poll_fd_def by (intro settle_rules)
  then show "settles_any lists_alive handle_awaiting_sockets"
    unfolding handle_awaiting_sockets_def
    by (intro settles_sweep list_fields indep_awaiting_body) (simp_all add: lists_alive_def)
  have "settles_any lists_alive (seq (handle_pending_request r) (ret True))" for r
    unfolding handle_pending_request_def
    by (cases r) (auto intro!: settle_rules alive.settles_answer_remote_search simp: lists_alive_def)
  then show "settles_any lists_alive handle_pending_requests"
    unfolding handle_pending_requests_def
    by (intro settles_sweep list_fields indep_rules indep_pending_request) (simp_all add: lists_alive_def)
  have "settles_any lists_alive (bnd (handle_pending_download sk) (\<lambda>remove. ret (remove \<noteq> 0)))" for sk
    unfolding handle_pending_download_def poll_fd_def by (intro settle_rules)
  then show "settles_any lists_alive handle_pending_downloads"
    unfolding handle_pending_downloads_def
    by (intro settles_sweep list_fields indep_rules indep_pending_download) (simp_all add: lists_alive_def)
  show "settles_any lists_alive (update_log_timers d)"
    unfolding update_log_timers_def
    by (intro settles_sweep list_fields indep_rules settle_rules) (simp_all add: lists_alive_def)
qed

lemma settles_neighbours [settle_rules]:
  "settles_any lists_alive handle_neighbours" "settles_any lists_alive display_neighbours"
proof -
  have "settles_any lists_alive (handle_neighbours_loop is)" for "is"
  proof (induction "is")
    case Nil
    show ?case unfolding handle_neighbours_loop.simps by (intro settle_rules)
  next
    case (Cons i "is")
    show ?case unfolding handle_neighbours_loop.simps handle_neighbour_def poll_fd_def
      by (intro settle_rules Cons.IH)
  qed
  then show "settles_any lists_alive handle_neighbours" by (simp add: handle_neighbours_def)
  have "settles_any lists_alive (display_loop ns)" for ns
  proof (induction ns)
    case Nil
    show ?case unfolding display_loop.simps by (intro settle_rules)
  next
    case (Cons n ns)
    show ?case unfolding display_loop.simps by (intro settle_rules Cons.IH)
  qed
  then show "settles_any lists_alive display_neighbours"
    unfolding display_neighbours_def by (intro settle_rules)
qed

lemma settles_loop_turn: "settles_any lists_alive (loop_turn b e tm)"
  unfolding loop_turn_def handle_client_def poll_fd_def Let_def by (intro settle_rules)

section \<open>Properties\<close>

lemma start_settles: "settles_any (\<lambda>_. True) (start_server first_machine listen_port ip port)"
proof -
  have "settles_any (\<lambda>_. True) (modify f)" for f :: "server_t \<Rightarrow> server_t"
    by (rule settles_modify) simp
  then show ?thesis unfolding start_server_def by (intro settle_rules)
qed

lemma start_alive:
  assumes "start_server first_machine listen_port ip port s = (Inr (), t)"
  shows "lists_alive t"
proof -
  obtain u where "t = init_lists u"
    using assms unfolding start_server_def by (auto elim!: seq_InrE bnd_InrE split: if_splits)
  then show ?thesis by (simp add: lists_alive_def init_lists_def walkable_create)
qed

lemma reachable_alive: "reachable s tm \<Longrightarrow> lists_alive s"
proof (induction rule: reachable.induct)
  case (boots fm lp ip port s t)
  then show ?case by (rule start_alive)
next
  case (turn s tm b e tm' t)
  then show ?case using settles_InrD [OF settles_loop_turn turn.IH turn.hyps(3)] by simp
next
  case (sigint s tm)
  then show ?case by (simp add: handle_sigint_def lists_alive_def)
qed

text \<open>
  C6. A servent never hangs: in every state it reaches, a turn of its loop ends - whatever the
  network sends, however the calls answer and whatever its handlers remove from the lists they
  walk - as long as \<open>socket\<close> does not fail for good; and the cells of its lists stay linked, each
  list starting at its first cell or at a freed one.
\<close>

theorem servent_never_hangs:
  assumes "reachable s tm" and "loop_turn b e tm s = (r, t)" and "script t SocketCall \<noteq> []"
  shows "r \<noteq> Inl Diverges \<and> lists_alive s"
  using settles_stuck [OF settles_loop_turn reachable_alive [OF assms(1)], of b e tm t] assms
    reachable_alive [OF assms(1)] by (auto simp: stuck_def)

definition lasting_servent :: server_t where
  "lasting_servent = sample_servent\<lparr>script := (\<lambda>_. [])(SocketCall := [3, 8], SetsockoptCall := [0],
     BindCall := [0], ListenCall := [0])\<rparr>"

theorem servent_never_hangs_witness:
  "fst (loop_turn (0, 0) (0, 0) start_timers (snd (start_server True None None None lasting_servent))) \<noteq> Inl Diverges"
proof -
  let ?s = "snd (start_server True None None None lasting_servent)"
  let ?t = "loop_turn (0, 0) (0, 0) start_timers ?s"
  have "isl (fst (start_server True None None None lasting_servent)) = False" by code_simp
  then have "start_server True None None None lasting_servent = (Inr (), ?s)"
    by (cases "start_server True None None None lasting_servent"; cases "fst (start_server True None None None lasting_servent)") auto
  then have "reachable ?s start_timers" by (rule reachable.boots)
  moreover have "script (snd ?t) SocketCall \<noteq> []" by code_simp
  ultimately show ?thesis using servent_never_hangs [of ?s start_timers "(0, 0)" "(0, 0)" "fst ?t" "snd ?t"] by simp
qed

end
