(* ===== verification/Server_Types.thy ===== *)
theory Server_Types
  imports Server_Progress
begin

text \<open>
  The types of what a servent keeps: every request that waits holds C strings a length byte can
  announce, and a search as many addresses and ports as it counts. The handlers that queue
  requests establish it from whatever bytes arrive; the other operations of a turn keep it.
\<close>

section \<open>What readers return\<close>

lemma read_loop_length:
  "read_loop fd n got s = (Inr (k, bs), t) \<Longrightarrow> length got \<le> n \<Longrightarrow> length bs \<le> n"
proof (induction fd n got s rule: read_loop.induct)
  case (1 fd n got s)
  obtain r u where w: "sys_read fd (n - length got) s = (r, u)" by fastforce
  have len: "length bs' \<le> n - length got" if "r = Inr (Some bs')" for bs'
    using w that by (auto simp: sys_read_def split: list.splits rd.splits)
  show ?case
  proof (cases "length got < n")
    case False
    then show ?thesis using "1.prems" by (subst (asm) read_loop.simps) auto
  next
    case True
    show ?thesis
    proof (cases "\<exists>bs'. r = Inr (Some bs') \<and> bs' \<noteq> []")
      case False
      then show ?thesis using True w "1.prems"
        by (subst (asm) read_loop.simps) (auto split: sum.splits option.splits if_splits)
    next
      case True
      then obtain bs' where b: "r = Inr (Some bs')" "bs' \<noteq> []" by blast
      then have "read_loop fd n (got @ bs') u = (Inr (k, bs), t)"
        using \<open>length got < n\<close> w "1.prems" by (subst (asm) read_loop.simps) simp
      then show ?thesis
        using "1.IH" [OF \<open>length got < n\<close> w [symmetric] b(1) _ b(2)] len [OF b(1)] \<open>length got < n\<close> by auto
    qed
  qed
qed

lemma read_buf_length: "read_buf fd n s = (Inr bs, t) \<Longrightarrow> length bs = n"
  by (auto simp: read_buf_def read_from_fd_def bnd_run take_junk_def split: prod.splits sum.splits
      dest!: read_loop_length)

lemma read_lstr_type: "read_lstr fd s = (Inr x, t) \<Longrightarrow> wf_lstr x"
proof -
  assume "read_lstr fd s = (Inr x, t)"
  then obtain n u b where "read_buf fd (unat (n :: byte)) u = (Inr b, t)" "x = c_str b"
    unfolding read_lstr_def read_string_def by (auto elim!: bnd_InrE)
  then have "length x \<le> unat n" using read_buf_length [of fd "unat n" u b t] length_c_str [of b] by simp
  then have "length x < 256" by (rule le_less_trans) (rule unat_byte_less)
  then show ?thesis using \<open>x = c_str b\<close> by (simp add: wf_lstr_def)
qed

context settle_frame
begin

lemma settles_read_typed: "settles P wf_lstr (read_lstr fd)"
  using settles_stuck [OF settles_os(3) [of fd]] settles_InrD [OF settles_os(3) [of fd]] read_lstr_type
  by (intro settlesI) blast+

lemma settles_read_machines_typed:
  "settles P (\<lambda>ms. length ms = n \<and> list_all wf_machine ms) (read_machines fd n)"
proof (induction n)
  case 0
  show ?case unfolding read_machines.simps by (intro settles_ret) simp
next
  case (Suc n)
  show ?case unfolding read_machines.simps
    by (intro settles_bnd_val [OF settles_read_typed] settles_bnd_val [OF Suc.IH] settles_ret)
      (simp add: wf_machine_def)
qed

end

section \<open>The invariant\<close>

definition wf_request :: "request_t \<Rightarrow> bool" where
  "wf_request r = (case r of
       REQUEST_SEARCH_LOCAL name \<Rightarrow> wf_lstr name
     | REQUEST_DOWNLOAD_LOCAL d \<Rightarrow> wf_lstr (dl_ip d) \<and> wf_lstr (dl_port d) \<and> wf_lstr (dl_filename d)
     | REQUEST_SEARCH_REMOTE q \<Rightarrow> wf_lstr (ip_source q) \<and> wf_lstr (port_source q) \<and> wf_lstr (sr_filename q) \<and>
         length (sr_ips q) = unat (nb_ips q) \<and> length (sr_ports q) = unat (nb_ips q) \<and>
         list_all wf_machine (zip (sr_ips q) (sr_ports q))
     | REQUEST_DOWNLOAD_REMOTE d \<Rightarrow> wf_lstr (rdl_filename d))"

definition typed :: "server_t \<Rightarrow> bool" where
  "typed s \<longleftrightarrow> lists_alive s \<and> (\<forall>r \<in> stored (pending_requests s). wf_request r) \<and>
     create (pending_requests s) = add_new_request"

interpretation typd: settle_frame typed
  by unfold_locales (simp_all add: typed_def lists_alive_def)

lemma settles_push_typed [settle_rules]:
  "wf_request r \<Longrightarrow> settles_any typed (push_request r)"
  "settles_any typed (push_awaiting sk)" "settles_any typed (push_download sk)"
proof -
  show "settles_any typed (push_request r)" if "wf_request r"
  proof (rule settlesI)
    fix s t and a :: unit
    assume s: "typed s" "push_request r s = (Inr a, t)"
    obtain l where l: "list_push_back r (pending_requests s) = (Inr a, l)" "t = s\<lparr>pending_requests := l\<rparr>"
      using s(2) by (auto simp: push_request_def zoom_run split: prod.splits)
    have w: "walkable (pending_requests s)" using s(1) by (simp add: typed_def lists_alive_def)
    show "typed t \<and> True"
      using s(1) that l stored_push [OF w l(1)] walkable_push [OF w l(1)]
      by (auto simp: typed_def lists_alive_def add_new_request_def)
  next
    fix s t
    assume "typed s" "push_request r s = (Inl Diverges, t)"
    then show "stuck t" using settles_stuck [OF settles_push_alive(2) [of r], of s t] by (simp add: typed_def)
  qed
  have other: "settles_any typed m" if "settles_any lists_alive m"
    "\<And>s a t. m s = (Inr a, t) \<Longrightarrow> pending_requests t = pending_requests s" for m :: "unit server_prog"
    using settles_InrD [OF that(1)] settles_stuck [OF that(1)] that(2)
    by (intro settlesI) (fastforce simp: typed_def)+
  show "settles_any typed (push_awaiting sk)"
    by (rule other [OF settles_push_alive(1)]) (auto simp: push_awaiting_def zoom_run split: prod.splits)
  show "settles_any typed (push_download sk)"
    by (rule other [OF settles_push_alive(3)]) (auto simp: push_download_def zoom_run split: prod.splits)
qed

lemma settles_queueing_typed [settle_rules]:
  "settles_any typed (handle_remote_search_request sk)" "settles_any typed (handle_remote_download_request sk)"
  "settles_any typed handle_local_search_request" "settles_any typed handle_local_download_request"
  "settles_any typed (answer_local_download_request d)"
proof -
  note rd = settles_bnd_val [OF typd.settles_read_typed] settles_bnd_val [OF typd.settles_read_machines_typed]
  show "settles_any typed (handle_remote_search_request sk)"
    unfolding handle_remote_search_request_def
    by (intro rd settle_rules) (auto simp: wf_request_def zip_map_fst_snd)
  show "settles_any typed (handle_remote_download_request sk)"
    unfolding handle_remote_download_request_def by (intro rd settle_rules) (simp add: wf_request_def)
  show "settles_any typed handle_local_search_request"
    unfolding handle_local_search_request_def by (intro rd settle_rules) (simp add: wf_request_def)
  show "settles_any typed handle_local_download_request"
    unfolding handle_local_download_request_def by (intro rd settle_rules) (simp add: wf_request_def)
  show "settles_any typed (answer_local_download_request d)"
    by (rule typd.settles_answer_local_download [OF settles_push_typed(3)])
qed

section \<open>The turns\<close>

lemma typed_alive: "typed s \<Longrightarrow> lists_alive s"
  by (simp add: typed_def)

lemma settles_clear_typed [settle_rules]:
  "settles_any typed (seq clear_server (seq (emit e) (halt (Exit n))))"
proof (rule settlesI)
  fix s t and a :: 'a
  assume "seq clear_server (seq (emit e) (halt (Exit n))) s = (Inr a, t)"
  then show "typed t \<and> True" by (auto elim!: seq_InrE)
next
  fix s t
  assume s: "typed s" "seq clear_server (seq (emit e) (halt (Exit n))) s = (Inl Diverges, t)"
  then have "clear_server s = (Inl Diverges, t)"
    by (auto simp: seq_run emit_run split: prod.splits sum.splits)
  then show "stuck t" using settles_stuck [OF settles_clear_server typed_alive [OF s(1)]] by simp
qed

lemma settles_accept_typed [settle_rules]: "settles_any typed (handle_accept_result r)"
  unfolding handle_accept_result_def handshake_def handle_handshake_result_def handle_new_socket_def
  by (intro settle_rules)

lemma typed_puts:
  "typed s \<Longrightarrow> walkable l \<Longrightarrow> typed (s\<lparr>awaiting_sockets := l\<rparr>)"
  "typed s \<Longrightarrow> walkable d \<Longrightarrow> typed (s\<lparr>pending_downloads := d\<rparr>)"
  "typed s \<Longrightarrow> walkable g \<Longrightarrow> typed (s\<lparr>received_search_requests := g\<rparr>)"
  "typed s \<Longrightarrow> walkable q \<Longrightarrow> stored q \<subseteq> stored (pending_requests s) \<Longrightarrow>
   create q = create (pending_requests s) \<Longrightarrow> typed (s\<lparr>pending_requests := q\<rparr>)"
  by (auto simp: typed_def lists_alive_def)

lemma typed_walks:
  "typed s \<Longrightarrow> walkable (awaiting_sockets s)" "typed s \<Longrightarrow> walkable (pending_downloads s)"
  "typed s \<Longrightarrow> walkable (received_search_requests s)" "typed s \<Longrightarrow> walkable (pending_requests s)"
  by (simp_all add: typed_def lists_alive_def)

lemma settles_rounds_typed [settle_rules]:
  "settles_any typed handle_awaiting_sockets" "settles_any typed handle_pending_requests"
  "settles_any typed handle_pending_downloads" "settles_any typed (update_log_timers d)"
proof -
  have "settles_any typed (awaiting_body sk)" for sk
    unfolding awaiting_body_def handle_awaiting_socket_def poll_fd_def by (intro settle_rules)
  then show "settles_any typed handle_awaiting_sockets"
    unfolding handle_awaiting_sockets_def
    by (intro settles_sweep list_fields indep_awaiting_body) (simp_all add: typed_puts typed_walks)
  have "settles_any typed (seq (handle_pending_request r) (ret True))" for r
    unfolding handle_pending_request_def
    by (cases r) (auto intro!: settle_rules typd.settles_answer_remote_search simp: typed_walks)
  then show "settles_any typed handle_pending_requests"
    unfolding handle_pending_requests_def
    by (intro settles_sweep list_fields indep_rules indep_pending_request) (simp_all add: typed_puts typed_walks)
  have "settles_any typed (bnd (handle_pending_download sk) (\<lambda>remove. ret (remove \<noteq> 0)))" for sk
    unfolding handle_pending_download_def poll_fd_def by (intro settle_rules)
  then show "settles_any typed handle_pending_downloads"
    unfolding handle_pending_downloads_def
    by (intro settles_sweep list_fields indep_rules indep_pending_download) (simp_all add: typed_puts typed_walks)
  show "settles_any typed (update_log_timers d)"
    unfolding update_log_timers_def
    by (intro settles_sweep list_fields indep_rules settle_rules) (simp_all add: typed_puts typed_walks)
qed

lemma settles_turn_typed: "settles_any typed (loop_turn b e tm)"
proof -
  have "settles_any typed (handle_neighbours_loop is)" for "is"
  proof (induction "is")
    case Nil
    show ?case unfolding handle_neighbours_loop.simps by (intro settle_rules)
  next
    case (Cons i "is")
    show ?case unfolding handle_neighbours_loop.simps handle_neighbour_def poll_fd_def
      by (intro settle_rules Cons.IH)
  qed
  moreover have "settles_any typed (display_loop ns)" for ns
  proof (induction ns)
    case Nil
    show ?case unfolding display_loop.simps by (intro settle_rules)
  next
    case (Cons n ns)
    show ?case unfolding display_loop.simps by (intro settle_rules Cons.IH)
  qed
  ultimately show ?thesis
    unfolding loop_turn_def handle_neighbours_def display_neighbours_def handle_client_def poll_fd_def Let_def
    by (intro settle_rules)
qed

lemma reachable_typed: "reachable s tm \<Longrightarrow> typed s"
proof (induction rule: reachable.induct)
  case (boots fm lp ip port s t)
  then obtain u where "t = init_lists u"
    unfolding start_server_def by (auto elim!: seq_InrE bnd_InrE split: if_splits)
  then show ?case by (simp add: typed_def lists_alive_def init_lists_def walkable_create)
    (simp add: list_create_def)
next
  case (turn s tm b e tm' t)
  then show ?case using settles_InrD [OF settles_turn_typed turn.IH turn.hyps(3)] by simp
next
  case (sigint s tm)
  then show ?case by (simp add: handle_sigint_def typed_def lists_alive_def)
qed

section \<open>Properties\<close>

text \<open>
  C9. Every request that waits in a state a servent reaches is well typed, whatever bytes its
  neighbours and its client have sent, the streams that end in the middle of a packet included: its
  strings are C strings of at most 255 bytes, and a search holds as many addresses and ports as its
  counter says.
\<close>

theorem requests_well_typed:
  assumes "reachable s tm" and "cells (pending_requests s) p = Some c"
  shows "wf_request (dat c)"
  using reachable_typed [OF assms(1)] assms(2) by (auto simp: typed_def stored_def)

definition searching_servent :: server_t where
  "searching_servent = sample_servent\<lparr>rx := (\<lambda>_. [])(0 := [Chunk (CMSG_INT_SEARCH # enc_lstr (cs ''song''))]),
     script := (\<lambda>_. [])(SocketCall := [3], SetsockoptCall := [0], BindCall := [0], ListenCall := [0], Poll 0 := [1])\<rparr>"

theorem requests_well_typed_witness:
  "\<exists>t c. cells (pending_requests t) 1 = Some c \<and> dat c = REQUEST_SEARCH_LOCAL (cs ''song'') \<and> wf_request (dat c) \<and>
     t = snd (loop_turn (0, 0) (0, 0) start_timers (snd (start_server True None None None searching_servent)))"
proof -
  define s where "s = snd (start_server True None None None searching_servent)"
  define t where "t = snd (loop_turn (0, 0) (0, 0) start_timers s)"
  have "isl (fst (start_server True None None None searching_servent)) = False" by code_simp
  then have "start_server True None None None searching_servent = (Inr (), s)"
    unfolding s_def by (rule run_evaluated_unit)
  then have s: "reachable s start_timers" by (rule reachable.boots)
  have "isl (fst (loop_turn (0, 0) (0, 0) start_timers s)) = False" unfolding s_def by code_simp
  from run_evaluated [OF this] obtain tm where tm: "loop_turn (0, 0) (0, 0) start_timers s = (Inr tm, t)"
    unfolding t_def by blast
  have "loop_flag s = 1" unfolding s_def by code_simp
  then have r: "reachable t tm" using s tm by (blast intro: reachable.turn)
  have "map_option dat (cells (pending_requests t) 1) = Some (REQUEST_SEARCH_LOCAL (cs ''song''))"
    unfolding t_def s_def by code_simp
  then obtain c where "cells (pending_requests t) 1 = Some c" "dat c = REQUEST_SEARCH_LOCAL (cs ''song'')" by auto
  then show ?thesis using requests_well_typed [OF r] t_def s_def by blast
qed

end
