(* ===== verification/Server_Accept.thy ===== *)
theory Server_Accept
  imports Server_Fields
begin

text \<open>
  What the servent does with a connection that has been accepted (\<open>handle_accept_result\<close> of
  \<open>server.c\<close>), and with the first packet of a connection that waits (\<open>handle_awaiting_socket\<close>).
\<close>

section \<open>A new connection\<close>

text \<open>The two addresses the code takes for the local machine.\<close>

definition local_names :: "cstr set" where
  "local_names = {cs ''127.0.0.1'', cs ''0000:0000:0000:0000:0000:0000:0000:0001''}"

lemma peer_strings:
  assumes "peername s k = Inet ip p \<or> peername s k = Inet6 ip p"
  shows "extract_ip_port_from_socket k 1 s = (Inr (Some ip, Some (dec (unat p))), s)"
  using assms by (auto simp: extract_ip_port_from_socket_def bnd_run sock_name_def)

lemma accept_branches:
  assumes "peername s k = Inet ip p \<or> peername s k = Inet6 ip p" and "0 \<le> k"
  shows "handle_accept_result k s =
    (if ip \<in> local_names then bnd (handshake k) handle_handshake_result else handle_new_socket k) s"
  using assms(2) peer_strings [OF assms(1)]
  by (simp add: handle_accept_result_def bnd_run as_string_def ACCEPT_ERR_TIMEOUT_def local_names_def)

lemma local_accepted:
  assumes "peername s k = Inet ip p \<or> peername s k = Inet6 ip p" and "0 \<le> k" and "ip \<in> local_names"
    and "handshake_flag s \<noteq> 1" and "avail k s = CMSG_INT_HANDSHAKE # rest" and "wx s k = []"
  shows "handle_accept_result k s = (Inr (), (skip_rx k 1 s)\<lparr>client_socket := k, handshake_flag := 1,
    evs := evs s @ [Wrote k [SMSG_INT_HANDSHAKE]]\<rparr>)"
proof -
  have "avail k (s\<lparr>client_socket := k\<rparr>) = CMSG_INT_HANDSHAKE # rest" using assms(5) by simp
  from read_u8_avail [OF this] show ?thesis
    using accept_branches [OF assms(1,2)] assms(3,4,6)
    by (simp add: handshake_def bnd_run seq_run handle_handshake_result_def handshake_codes write_to_fd_free skip_rx_def)
qed

text \<open>
  C36. A connection from another machine waits behind those that wait already, whatever it sends and
  without a byte of it being read. One from the local machine is left alone when there is a client
  already: its socket is neither kept nor closed. Otherwise its first byte decides: with the handshake it
  becomes the client and is answered; with another byte the servent cleans up, interrupts the
  application and exits.
\<close>

theorem connection_accepted:
  assumes "peername s k = Inet ip p \<or> peername s k = Inet6 ip p" and "0 \<le> k"
    and "repr (awaiting_sockets s) xs" and "create (awaiting_sockets s) = add_new_socket"
    and "ip \<in> local_names \<Longrightarrow> handshake_flag s \<noteq> 1 \<Longrightarrow> avail k s = b # rest \<and> wx s k = []"
  shows "if ip \<notin> local_names then
       \<exists>l. handle_accept_result k s = (Inr (), s\<lparr>awaiting_sockets := l\<rparr>) \<and> repr l (xs @ [k])
     else if handshake_flag s = 1 then handle_accept_result k s = (Inr (), s)
     else if b = CMSG_INT_HANDSHAKE then handle_accept_result k s =
       (Inr (), (skip_rx k 1 s)\<lparr>client_socket := k, handshake_flag := 1, evs := evs s @ [Wrote k [SMSG_INT_HANDSHAKE]]\<rparr>)
     else handle_accept_result k s =
       seq clear_server (seq (emit SigintParent) (halt (Exit 1))) (skip_rx k 1 (s\<lparr>client_socket := k\<rparr>))"
proof -
  note acc = accept_branches [OF assms(1,2)]
  consider "ip \<notin> local_names" | "ip \<in> local_names" "handshake_flag s = 1" | "ip \<in> local_names" "handshake_flag s \<noteq> 1"
    by blast
  then show ?thesis
  proof cases
    case 1
    obtain l where "zoom awaiting_sockets put_awaiting (list_push_back k) s = (Inr (), s\<lparr>awaiting_sockets := l\<rparr>)"
      "repr l (xs @ [create (awaiting_sockets s) k])"
      by (rule awaiting.push_field [OF assms(3), of k])
    then show ?thesis
      using 1 acc assms(4) by (auto simp: handle_new_socket_def push_awaiting_def add_new_socket_def)
  next
    case 2
    then show ?thesis
      using acc by (simp add: handshake_def bnd_run handle_handshake_result_def handshake_codes)
  next
    case 3
    have a: "avail k (s\<lparr>client_socket := k\<rparr>) = b # rest" using assms(5) [OF 3] by simp
    from 3 show ?thesis
      using local_accepted [OF assms(1,2) 3, of rest] assms(5) [OF 3] acc read_u8_avail [OF a]
      by (simp add: handshake_def bnd_run seq_run handle_handshake_result_def handshake_codes)
  qed
qed

definition called_servent :: "cstr \<Rightarrow> byte \<Rightarrow> server_t" where
  "called_servent ip b = sample_servent\<lparr>handshake_flag := 0, peername := (\<lambda>_. Inet6 ip 5000), rx := (\<lambda>_. [])(9 := [Chunk [b]])\<rparr>"

theorem connection_accepted_witness:
  "(\<exists>l. handle_accept_result 9 (called_servent (cs ''::1'') CMSG_DOWNLOAD) =
     (Inr (), called_servent (cs ''::1'') CMSG_DOWNLOAD \<lparr>awaiting_sockets := l\<rparr>) \<and> repr l [9]) \<and>
   (\<exists>u. handle_accept_result 9 (called_servent (cs ''127.0.0.1'') CMSG_INT_HANDSHAKE) = (Inr (), u) \<and>
     client_socket u = 9 \<and> handshake_flag u = 1 \<and> evs u = [Wrote 9 [SMSG_INT_HANDSHAKE]])"
proof -
  have n: "cs ''::1'' \<notin> local_names" "cs ''127.0.0.1'' \<in> local_names" by (simp_all add: local_names_def cs_def)
  have f: "peername (called_servent ip b) 9 = Inet6 ip 5000" "repr (awaiting_sockets (called_servent ip b)) []"
    "create (awaiting_sockets (called_servent ip b)) = add_new_socket" "handshake_flag (called_servent ip b) = 0"
    "avail 9 (called_servent ip b) = b # []" "wx (called_servent ip b) 9 = []" "evs (called_servent ip b) = []" for ip b
    by (simp_all add: called_servent_def) (simp_all add: sample_servent_def repr_create, simp add: list_create_def)
  note accepted = connection_accepted [OF disjI2 [OF f(1)] _ f(2,3) conjI [OF f(5,6)]]
  show ?thesis
    using accepted [of "cs ''::1''" CMSG_DOWNLOAD] accepted [of "cs ''127.0.0.1''" CMSG_INT_HANDSHAKE] n by (simp add: f)
qed

section \<open>The request of another servent to download\<close>

lemma remote_download_run:
  assumes "avail k s = enc_lstr f @ rest" and "wf_lstr f"
    and "repr (pending_requests s) rs" and "create (pending_requests s) = add_new_request"
  obtains l where "handle_remote_download_request k s =
      (Inr (), (skip_rx k (Suc (length f)) s)\<lparr>pending_requests := l\<rparr>)"
    and "repr l (rs @ [REQUEST_DOWNLOAD_REMOTE \<lparr>rdl_socket = k, rdl_filename = f\<rparr>])"
proof -
  let ?s = "skip_rx k (Suc (length f)) s"
  have "repr (pending_requests ?s) rs" "create (pending_requests ?s) = add_new_request"
    using assms(3,4) by (simp_all add: skip_rx_def)
  then obtain l where "push_request (REQUEST_DOWNLOAD_REMOTE \<lparr>rdl_socket = k, rdl_filename = f\<rparr>) ?s =
      (Inr (), ?s\<lparr>pending_requests := l\<rparr>)"
    "repr l (rs @ [REQUEST_DOWNLOAD_REMOTE \<lparr>rdl_socket = k, rdl_filename = f\<rparr>])"
    by (rule push_request_run)
  then show ?thesis
    using that read_lstr_avail [OF assms(1,2)] by (simp add: handle_remote_download_request_def bnd_run)
qed

lemma waiting_download_run:
  assumes "ready k s" and "avail k s = encode (PDownload f) @ rest" and "wf_lstr f"
    and "repr (pending_requests s) rs" and "create (pending_requests s) = add_new_request"
  obtains l where "awaiting_body k s =
      (Inr True, (skip_rx k (Suc (length f)) (opened k s))\<lparr>pending_requests := l\<rparr>)"
    and "repr l (rs @ [REQUEST_DOWNLOAD_REMOTE \<lparr>rdl_socket = k, rdl_filename = f\<rparr>])"
proof -
  have a: "avail k s = CMSG_DOWNLOAD # enc_lstr f @ rest" using assms(2) by simp
  have q: "repr (pending_requests (opened k s)) rs" "create (pending_requests (opened k s)) = add_new_request"
    using assms(4,5) by (simp_all add: opened_def polled_def skip_rx_def)
  show ?thesis
    by (rule remote_download_run [OF avail_opened [OF a] assms(3) q])
      (simp add: that awaiting_body_def handle_awaiting_socket_def bnd_run seq_run poll_ready [OF assms(1)]
        opcode_read [OF a] opcode_values await_codes)
qed

text \<open>
  C18. A servent asked for a file on a waiting connection serves it: the round over the waiting
  sockets takes the socket off its list without closing it and queues the request; the round
  over the requests sends the file, or says that there is none, closes the socket and leaves the
  queue empty.
\<close>

theorem waiting_download_served:
  assumes "repr (awaiting_sockets s) [k]" and "repr (pending_requests s) []"
    and "create (pending_requests s) = add_new_request"
    and "ready k s" and "avail k s = encode (PDownload f) @ rest" and "wf_lstr f"
    and "forks s" and "wx s k = []" and "sockname s k = Inet ip port" and "length ip \<le> INET6_ADDRSTRLEN"
    and "has_entry s f \<Longrightarrow> map_of (files s) (full_name f) = Some content \<and> length content < 2 ^ 31"
  shows "\<exists>u. seq handle_awaiting_sockets handle_pending_requests s = (Inr (), u) \<and>
    evs u = evs s @ [Wrote k (encode (if has_entry s f then PDownloadFile f content
      else PDownloadNotFound ip (dec (unat port)) f)), Closed k] \<and>
    repr (awaiting_sockets u) [] \<and> repr (pending_requests u) []"
proof -
  let ?pk = "if has_entry s f then PDownloadFile f content else PDownloadNotFound ip (dec (unat port)) f"
  let ?r = "\<lparr>rdl_socket = k, rdl_filename = f\<rparr>"
  obtain l where b: "awaiting_body k s = (Inr True, (skip_rx k (Suc (length f)) (opened k s))\<lparr>pending_requests := l\<rparr>)"
    "repr l [REQUEST_DOWNLOAD_REMOTE ?r]"
    using waiting_download_run [OF assms(4,5,6,2,3)] by auto
  let ?t = "(skip_rx k (Suc (length f)) (opened k s))\<lparr>pending_requests := l\<rparr>"
  have "sweep_spec awaiting_body [k] s = (Inr [True], ?t)" using b(1) by (simp add: bnd_run)
  then obtain la where a: "handle_awaiting_sockets s = (Inr (), ?t\<lparr>awaiting_sockets := la\<rparr>)" "repr la []"
    using awaiting.sweep_field [where body = awaiting_body, OF indep_awaiting_body assms(1)]
    unfolding handle_awaiting_sockets_def by (metis kept_simps(1,2) list.set_intros(1) empty_iff empty_set insert_iff list.simps(15))
  let ?u = "?t\<lparr>awaiting_sockets := la\<rparr>"
  have same: "forks ?u = forks s" "has_entry ?u f = has_entry s f" "files ?u = files s" "wx ?u k = wx s k"
    "sockname ?u k = sockname s k" "evs ?u = evs s"
    by (simp_all add: forks_def has_entry_def entries_def opened_def polled_def skip_rx_def)
  have "answer_remote_download_request ?r ?u = (Inr (), answered k (encode ?pk) ?u)"
    using answer_remote_download_found [of ?u f content k] answer_remote_download_missing [of ?u f k ip port]
      assms(6-11) same by (cases "has_entry s f") (auto simp: wf_lstr_def simp del: encode.simps)
  then have "for_list [REQUEST_DOWNLOAD_REMOTE ?r] handle_pending_request ?u = (Inr (), answered k (encode ?pk) ?u)"
    by (simp add: seq_run handle_pending_request_def)
  moreover have "repr (pending_requests ?u) [REQUEST_DOWNLOAD_REMOTE ?r]" using b(2) by simp
  ultimately obtain lr where "handle_pending_requests ?u = (Inr (), (answered k (encode ?pk) ?u)\<lparr>pending_requests := lr\<rparr>)"
    "repr lr []" using handle_pending_requests_run by blast
  then show ?thesis
    using a same(6) by (simp add: seq_run answered_def)
qed

theorem waiting_download_served_witness:
  "\<exists>u. seq handle_awaiting_sockets handle_pending_requests (sample_servent\<lparr>
       awaiting_sockets := pushed (awaiting_sockets sample_servent) 9, script := (\<lambda>_. [])(Poll 9 := [1]),
       rx := (\<lambda>_. [])(9 := [Chunk (encode (PDownload (cs ''song'')))])\<rparr>) = (Inr (), u) \<and>
     evs u = [Wrote 9 (encode (PDownloadFile (cs ''song'') [1, 2, 3])), Closed 9]"
proof -
  let ?s = "sample_servent\<lparr>awaiting_sockets := pushed (awaiting_sockets sample_servent) 9,
    script := (\<lambda>_. [])(Poll 9 := [1]), rx := (\<lambda>_. [])(9 := [Chunk (encode (PDownload (cs ''song'')))])\<rparr>"
  have q: "repr (awaiting_sockets ?s) [9]" "repr (pending_requests ?s) []" "create (pending_requests ?s) = add_new_request"
    using push_no_create_repr(2) [of "awaiting_sockets sample_servent" "[]" 9]
    by (simp_all add: sample_servent_def repr_create) (simp add: list_create_def)
  have a: "avail 9 ?s = encode (PDownload (cs ''song'')) @ []" "ready 9 ?s" "forks ?s" "wx ?s 9 = []"
    "sockname ?s 9 = Inet (cs ''10.0.0.1'') 2000" "evs ?s = []"
    by (simp_all add: ready_def forks_def) (simp_all add: sample_servent_def)
  have f: "has_entry ?s (cs ''song'')" using sample_entries(1) by (simp add: has_entry_def entries_def)
  have "map_of (files ?s) (full_name (cs ''song'')) = Some [1, 2, 3]"
    by (simp add: sample_servent_def full_name_def SEARCH_DIRECTORY_def SLASH_def cs_def)
  then show ?thesis
    using waiting_download_served [OF q a(2,1) wf_lstr_sample(1) a(3,4,5) sample_short, of "[1, 2, 3]"] f a(6)
    by (auto simp del: encode.simps)
qed

end
