(* ===== verification/Server_End.thy ===== *)
theory Server_End
  imports Server_Fields
begin

text \<open>
  The two ends of the loop of \<open>server.c\<close>: how long a turn lasts, and what \<open>clear_server\<close> closes when
  the loop has ended.
\<close>

section \<open>The end of a turn\<close>

text \<open>A reading of the clock in nanoseconds.\<close>

definition nanos :: "int \<times> int \<Rightarrow> int" where
  "nanos c = fst c * 10 ^ 9 + snd c"

definition wf_clock :: "int \<times> int \<Rightarrow> bool" where
  "wf_clock c \<longleftrightarrow> 0 \<le> snd c \<and> snd c < 10 ^ 9"

lemma sint_of_int_small:
  assumes "0 \<le> n" and "n < 2 ^ 31"
  shows "sint (of_int n :: 32 word) = n"
  using assms by (simp add: signed_of_int signed_take_bit_int_eq_self)

lemma elapsed_floor:
  assumes "wf_clock a" and "wf_clock b" and "nanos a \<le> nanos b" and "nanos b - nanos a < 2 ^ 31 * 10 ^ 6"
  shows "elapsed_time_since a b = (nanos b - nanos a) div 10 ^ 6"
proof -
  have split: "x * 1000 + n div 1000 div 1000 = (x * 10 ^ 9 + n) div 10 ^ 6" for x n :: int
    by (simp add: zdiv_zmult2_eq [symmetric])
  let ?d = "nanos b - nanos a"
  have "0 \<le> ?d div 10 ^ 6" "?d div 10 ^ 6 < 2 ^ 31" using assms(3,4) by simp_all
  note small = sint_of_int_small [OF this]
  have d: "(fst b - fst a) * 10 ^ 9 + (snd b - snd a) = ?d"
    "(fst b - fst a - 1) * 10 ^ 9 + (snd b - snd a + 1000000000) = ?d"
    by (simp_all add: nanos_def algebra_simps)
  show ?thesis
  proof (cases "snd b - snd a < 0")
    case True
    then have "elapsed_time_since a b =
        sint (of_int ((fst b - fst a - 1) * 1000 + (snd b - snd a + 1000000000) div 1000 div 1000) :: 32 word)"
      unfolding elapsed_time_since_def Let_def by (simp only: if_True prod.case)
    then show ?thesis unfolding split d(2) small .
  next
    case False
    then have "elapsed_time_since a b =
        sint (of_int ((fst b - fst a) * 1000 + (snd b - snd a) div 1000 div 1000) :: 32 word)"
      unfolding elapsed_time_since_def Let_def by (simp only: if_False prod.case)
    then show ?thesis unfolding split d(1) small .
  qed
qed

text \<open>
  C32. A turn of the servent lasts at least \<open>LOOP_MIN_DURATION\<close> milliseconds: it measures the time
  since it began, rounded down, and sleeps for what is missing; the timers of the next turn are set
  to the larger of the two.
\<close>

theorem turn_lasts:
  assumes "loop_turn a b tm s = (Inr tm', t)" and "wf_clock a" and "wf_clock b" and "nanos a \<le> nanos b"
    and "nanos b - nanos a < 2 ^ 31 * 10 ^ 6"
  shows "time_diff tm' = max LOOP_MIN_DURATION ((nanos b - nanos a) div 10 ^ 6) \<and>
    ((nanos b - nanos a) div 10 ^ 6 \<ge> LOOP_MIN_DURATION \<or>
     last (evs t) = Slept (LOOP_MIN_DURATION - (nanos b - nanos a) div 10 ^ 6))"
  using assms(1) unfolding loop_turn_def elapsed_floor [OF assms(2-5)] Let_def
  by (elim bnd_InrE seq_InrE) (auto simp: emit_run seq_run split: if_splits elim!: bnd_InrE seq_InrE)

theorem turn_lasts_witness:
  "\<exists>tm t. loop_turn (7, 999999999) (8, 20000000) start_timers sample_servent = (Inr tm, t) \<and>
     time_diff tm = 50 \<and> last (evs t) = Slept 30"
proof -
  let ?r = "loop_turn (7, 999999999) (8, 20000000) start_timers sample_servent"
  have "\<not> isl (fst ?r)" by code_simp
  then obtain tm where "fst ?r = Inr tm" by (cases "fst ?r") auto
  then obtain t where r: "?r = (Inr tm, t)" by (cases ?r) auto
  from turn_lasts [OF this] show ?thesis
    by (auto simp: wf_clock_def nanos_def LOOP_MIN_DURATION_def r)
qed

section \<open>The end of the servent\<close>

text \<open>A loop over a list whose body only has effects.\<close>

lemma each_effects:
  assumes "repr (getf s) xs" and "\<And>t e. getf (t\<lparr>evs := e\<rparr>) = getf t"
    and "\<And>p x t. body p x t = (Inr (), t\<lparr>evs := evs t @ g x\<rparr>)"
  shows "each getf body s = (Inr (), s\<lparr>evs := evs s @ concat (map g xs)\<rparr>)"
proof -
  let ?body = "\<lambda>p x. bnd (body p x) (\<lambda>_. ret (None :: unit option))"
  from assms(1) obtain as where as: "owns (getf s) as" "head (getf s) = first as 0" "xs = map snd as"
    by (auto simp: repr_def)
  have spec: "foreach_spec ?body as t = (Inr None, t\<lparr>evs := evs t @ concat (map (g \<circ> snd) as)\<rparr>)" for t
    by (induction as arbitrary: t) (simp_all add: bnd_run assms(3))
  have "foreach getf ?body s = foreach_spec ?body as s"
    by (rule foreach_owned [where getf = getf and body = ?body, OF _ as(1,2)]) (simp add: bnd_run assms(2,3))
  then show ?thesis using spec as(3) by (simp add: each_def bnd_run)
qed

lemma foreach_spec_next:
  "body (fst a) (snd a) s = (Inr None, t) \<Longrightarrow> foreach_spec body (a # as) s = foreach_spec body as t"
  by (simp add: bnd_run)

text \<open>What \<open>close(*(int*)head)\<close> closes: a descriptor for each cell, the last of them 0.\<close>

lemma close_fields_spec:
  assumes "linked (cells (awaiting_sockets s)) as 0"
  shows "\<exists>js n. foreach_spec (\<lambda>p _. bnd (close_first_field p) (\<lambda>_. ret (None :: unit option))) as s =
      (Inr None, s\<lparr>evs := evs s @ map Closed js, junk := drop n (junk s)\<rparr>) \<and>
    length js = length as \<and> (as = [] \<or> last js = 0)"
  using assms
proof (induction as arbitrary: s)
  case Nil
  then show ?case by (intro exI [of _ "[]"] exI [of _ 0]) simp
next
  case (Cons a as)
  have c: "cells (awaiting_sockets s) (fst a) = Some \<lparr>nxt = first as 0, dat = snd a\<rparr>"
    and l: "linked (cells (awaiting_sockets s)) as 0" using Cons.prems by simp_all
  obtain k m where run: "close_first_field (fst a) s = (Inr (), s\<lparr>evs := evs s @ [Closed k], junk := drop m (junk s)\<rparr>)"
    and k: "as = [] \<Longrightarrow> k = 0"
  proof (cases "first as 0 = 0")
    case True
    then show ?thesis
      using that [where k = 0 and m = 0] c by (simp add: close_first_field_def bnd_run sys_close_def emit_run)
  next
    case False
    then have "as \<noteq> []" by auto
    then show ?thesis
      using that [where k = "int_of_bytes (take 4 (junk s @ replicate 4 0))" and m = 4] c False
      by (simp add: close_first_field_def bnd_run sys_close_def emit_run junk_int_def take_junk_def)
  qed
  let ?t = "s\<lparr>evs := evs s @ [Closed k], junk := drop m (junk s)\<rparr>"
  have l': "linked (cells (awaiting_sockets ?t)) as 0" using l by simp
  from Cons.IH [OF l'] obtain js n where js: "foreach_spec (\<lambda>p _. bnd (close_first_field p) (\<lambda>_. ret (None :: unit option))) as ?t =
      (Inr None, ?t\<lparr>evs := evs ?t @ map Closed js, junk := drop n (junk ?t)\<rparr>)"
    "length js = length as" "as = [] \<or> last js = 0"
    by blast
  have "foreach_spec (\<lambda>p _. bnd (close_first_field p) (\<lambda>_. ret (None :: unit option))) (a # as) s =
      foreach_spec (\<lambda>p _. bnd (close_first_field p) (\<lambda>_. ret (None :: unit option))) as ?t"
    by (rule foreach_spec_next) (simp add: bnd_run run)
  then have "foreach_spec (\<lambda>p _. bnd (close_first_field p) (\<lambda>_. ret (None :: unit option))) (a # as) s =
      (Inr None, s\<lparr>evs := evs s @ map Closed (k # js), junk := drop (m + n) (junk s)\<rparr>)"
    unfolding js(1) by (simp add: add.commute)
  moreover have "length (k # js) = length (a # as) \<and> (a # as = [] \<or> last (k # js) = 0)"
    using js(2,3) k by auto
  ultimately show ?case by blast
qed

lemma close_fields_run:
  assumes "repr (awaiting_sockets s) xs"
  obtains js n where "each awaiting_sockets (\<lambda>p _. close_first_field p) s =
      (Inr (), s\<lparr>evs := evs s @ map Closed js, junk := drop n (junk s)\<rparr>)"
    and "length js = length xs" and "xs = [] \<or> last js = 0"
proof -
  let ?body = "\<lambda>p (_ :: int). bnd (close_first_field p) (\<lambda>_. ret (None :: unit option))"
  from assms obtain as where as: "owns (awaiting_sockets s) as" "head (awaiting_sockets s) = first as 0"
    "xs = map snd as" by (auto simp: repr_def)
  have keep: "awaiting_sockets (snd (?body p x t)) = awaiting_sockets t" for p x t
    by (simp add: close_first_field_def bnd_run sys_close_def emit_run junk_int_def take_junk_def split: option.split)
  have "foreach awaiting_sockets ?body s = foreach_spec ?body as s"
    by (rule foreach_owned [where getf = awaiting_sockets and body = ?body, OF keep as(1,2)])
  moreover have "linked (cells (awaiting_sockets s)) as 0" using as(1) by (simp add: owns_def)
  ultimately show ?thesis
    using close_fields_spec [of s as] as(3) that by (auto simp: each_def bnd_run)
qed

lemma close_neighbours_run:
  "k \<le> length (neighbours s) \<Longrightarrow> close_neighbours [k..<length (neighbours s)] s = (Inr (), s\<lparr>
     neighbours := take k (neighbours s) @ map (\<lambda>n. n\<lparr>sc_sock := - 1\<rparr>) (drop k (neighbours s)),
     evs := evs s @ map Closed (filter (\<lambda>k. k \<noteq> - 1) (map sc_sock (drop k (neighbours s))))\<rparr>)"
proof (induction "length (neighbours s) - k" arbitrary: k s)
  case 0
  then show ?case by simp
next
  case (Suc d)
  let ?n = "neighbours s ! k"
  let ?ns = "(neighbours s)[k := ?n\<lparr>sc_sock := - 1\<rparr>]"
  let ?e = "evs s @ (if sc_sock ?n \<noteq> - 1 then [Closed (sc_sock ?n)] else [])"
  let ?t = "s\<lparr>evs := ?e, neighbours := ?ns\<rparr>"
  have k: "k < length (neighbours s)" using Suc.hyps(2) by simp
  have "close_neighbours [Suc k..<length (neighbours ?t)] ?t = (Inr (), ?t\<lparr>
     neighbours := take (Suc k) (neighbours ?t) @ map (\<lambda>n. n\<lparr>sc_sock := - 1\<rparr>) (drop (Suc k) (neighbours ?t)),
     evs := evs ?t @ map Closed (filter (\<lambda>k. k \<noteq> - 1) (map sc_sock (drop (Suc k) (neighbours ?t))))\<rparr>)"
    using Suc.hyps k by (intro Suc.hyps(1)) simp_all
  moreover have "close_neighbours [k..<length (neighbours s)] s = close_neighbours [Suc k..<length (neighbours s)] ?t"
    using k by (cases "sc_sock ?n = - 1") (simp_all add: upt_conv_Cons bnd_run seq_run sys_close_def emit_run)
  moreover have "drop k (neighbours s) = ?n # drop (Suc k) (neighbours s)"
    using k by (simp add: Cons_nth_drop_Suc)
  moreover have "take (Suc k) ?ns = take k (neighbours s) @ [?n\<lparr>sc_sock := - 1\<rparr>]"
    using k by (simp add: take_Suc_conv_app_nth)
  ultimately show ?case by simp
qed

text \<open>The descriptor a request holds.\<close>

definition request_socks :: "request_t \<Rightarrow> int list" where
  "request_socks r = (case r of
     REQUEST_DOWNLOAD_REMOTE d \<Rightarrow> [rdl_socket d] | REQUEST_SEARCH_REMOTE q \<Rightarrow> [source_sock q] | _ \<Rightarrow> [])"

lemma clear_request_run: "clear_request r t = (Inr (), t\<lparr>evs := evs t @ map Closed (request_socks r)\<rparr>)"
  by (simp add: clear_request_def request_socks_def sys_close_def emit_run split: request_t.split)

text \<open>The rounds of \<open>clear_server\<close> over the lists.\<close>

lemma clear_rounds:
  "repr (received_search_requests t) ls \<Longrightarrow> each received_search_requests (\<lambda>_ _. ret ()) t = (Inr (), t)"
  "repr (awaiting_sockets t) xs \<Longrightarrow>
   each awaiting_sockets (\<lambda>_ sk. sys_close sk) t = (Inr (), t\<lparr>evs := evs t @ map Closed xs\<rparr>)"
  "repr (pending_downloads t) ds \<Longrightarrow>
   each pending_downloads (\<lambda>_ sk. sys_close sk) t = (Inr (), t\<lparr>evs := evs t @ map Closed ds\<rparr>)"
  "repr (pending_requests t) rs \<Longrightarrow>
   each pending_requests (\<lambda>_ r. clear_request r) t =
     (Inr (), t\<lparr>evs := evs t @ map Closed (concat (map request_socks rs))\<rparr>)"
  using each_effects [where getf = received_search_requests and body = "\<lambda>_ _. ret ()" and g = "\<lambda>_. []"]
    each_effects [where getf = awaiting_sockets and body = "\<lambda>_ sk. sys_close sk" and g = "\<lambda>sk. [Closed sk]"]
    each_effects [where getf = pending_downloads and body = "\<lambda>_ sk. sys_close sk" and g = "\<lambda>sk. [Closed sk]"]
    each_effects [where getf = pending_requests and body = "\<lambda>_ r. clear_request r"
      and g = "\<lambda>r. map Closed (request_socks r)"]
  by (simp_all add: sys_close_def emit_run clear_request_run map_concat comp_def)

lemma clear_server_run:
  assumes "length (neighbours s) = MAX_NEIGHBOURS" and "repr (awaiting_sockets s) xs"
    and "repr (pending_requests s) rs" and "repr (received_search_requests s) ls" and "repr (pending_downloads s) ds"
  shows "\<exists>u js. clear_server s = (Inr (), u) \<and>
    evs u = evs s @ map Closed ([listening_socket s, client_socket s] @ neighbour_socks s @ js @ xs @
      concat (map request_socks rs) @ ds) \<and>
    length js = length xs \<and> (xs = [] \<or> last js = 0) \<and> neighbour_socks u = []"
proof -
  let ?n = "map (\<lambda>n. n\<lparr>sc_sock := - 1\<rparr>) (neighbours s)"
  define s1 where "s1 = s\<lparr>neighbours := ?n, evs := evs s @ map Closed ([listening_socket s, client_socket s] @ neighbour_socks s)\<rparr>"
  have n: "close_neighbours [0..<MAX_NEIGHBOURS] t = (Inr (), t\<lparr>neighbours := ?n,
      evs := evs t @ map Closed (neighbour_socks s)\<rparr>)" if "neighbours t = neighbours s" for t
    using close_neighbours_run [of 0 t] assms(1) that by (simp add: neighbour_socks_def)
  have x: "repr (awaiting_sockets s1) xs" using assms(2) by (simp add: s1_def)
  obtain js k where js: "each awaiting_sockets (\<lambda>p _. close_first_field p) s1 =
      (Inr (), s1\<lparr>evs := evs s1 @ map Closed js, junk := drop k (junk s1)\<rparr>)"
    "length js = length xs" "xs = [] \<or> last js = 0"
    using close_fields_run [OF x] by blast
  note rounds = clear_rounds(1) [of _ ls] clear_rounds(2) [of _ xs] clear_rounds(3) [of _ ds] clear_rounds(4) [of _ rs]
  have start: "clear_server s = (seq (each awaiting_sockets (\<lambda>p _. close_first_field p))
    (seq (each received_search_requests (\<lambda>_ _. ret ()))
    (seq (zoom received_search_requests put_logs list_destroy)
    (seq (each awaiting_sockets (\<lambda>_ sk. sys_close sk))
    (seq (zoom awaiting_sockets put_awaiting list_destroy)
    (seq (each pending_requests (\<lambda>_ r. clear_request r))
    (seq (zoom pending_requests put_requests list_destroy)
    (seq (each pending_downloads (\<lambda>_ sk. sys_close sk))
         (zoom pending_downloads put_downloads list_destroy))))))))) s1"
    by (simp add: clear_server_def bnd_run seq_run sys_close_def emit_run n s1_def)
  let ?l = "\<lambda>l. l\<lparr>cells := Map.empty, head := 0\<rparr>"
  let ?u = "s1\<lparr>evs := evs s1 @ map Closed (js @ xs @ concat (map request_socks rs) @ ds), junk := drop k (junk s1),
    awaiting_sockets := ?l (awaiting_sockets s), pending_requests := ?l (pending_requests s),
    received_search_requests := ?l (received_search_requests s), pending_downloads := ?l (pending_downloads s)\<rparr>"
  have "clear_server s = (Inr (), ?u)"
    unfolding start using assms
    by (simp only: seq_run js(1) prod.case sum.case)
      (simp add: rounds zoom_run s1_def list_destroy_repr)
  moreover have "neighbour_socks ?u = []" by (simp add: neighbour_socks_def s1_def comp_def)
  ultimately show ?thesis
    using js(2,3) by (intro exI [of _ ?u] exI [of _ js]) (simp add: s1_def)
qed

text \<open>
  C39. The end of the servent closes every descriptor it holds: the two sockets of its own, the
  neighbours, the sockets that wait, those of the pending requests and of the downloads, each
  once and in this order, and leaves no neighbour and no list. But it also closes a descriptor of
  no meaning for each socket that waits, the last of them its standard input.
\<close>

theorem clear_server_closes:
  assumes "length (neighbours s) = MAX_NEIGHBOURS" and "repr (awaiting_sockets s) xs"
    and "repr (pending_requests s) rs" and "repr (received_search_requests s) ls" and "repr (pending_downloads s) ds"
  shows "\<exists>u js. clear_server s = (Inr (), u) \<and>
    evs u = evs s @ map Closed ([listening_socket s, client_socket s] @ neighbour_socks s @ js @ xs @
      concat (map request_socks rs) @ ds) \<and>
    length js = length xs \<and> (xs = [] \<or> last js = 0) \<and> neighbour_socks u = []"
  using clear_server_run [OF assms] .

theorem clear_server_closes_witness:
  "\<exists>u j. clear_server (sample_servent\<lparr>awaiting_sockets := sample_list\<rparr>) = (Inr (), u) \<and>
     evs u = map Closed [3, 4, 6, 7, j, 0, 1, 2]"
proof -
  let ?s = "sample_servent\<lparr>awaiting_sockets := sample_list\<rparr>"
  have l: "length (neighbours ?s) = MAX_NEIGHBOURS" "neighbour_socks ?s = [6, 7]" "evs ?s = []"
    "listening_socket ?s = 3" "client_socket ?s = 4"
    by (simp_all add: sample_servent_def neighbour_socks_def MAX_NEIGHBOURS_def)
  have e: "repr (pending_requests ?s) []" "repr (received_search_requests ?s) []" "repr (pending_downloads ?s) []"
    by (simp_all add: sample_servent_def repr_create)
  obtain u js where u: "clear_server ?s = (Inr (), u)" "evs u = map Closed ([3, 4] @ [6, 7] @ js @ [1, 2])"
    "length js = 2" "last js = 0"
    using clear_server_closes [OF l(1) _ e, of "[1, 2]"] sample_list_repr l by auto
  from u(3) obtain a b where "js = [a, b]" by (auto simp: numeral_2_eq_2 length_Suc_conv)
  then show ?thesis using u by auto
qed

end
