(* ===== verification/Server_Session.thy ===== *)
theory Server_Session
  imports Server_Handlers Server_Accept Server_End
begin

text \<open>
  The life of a servent from its start to its end: turns in which nothing happens, the connection
  of the application, its exit. And what a neighbour that has gone does to the servent: its end
  of stream is not noticed, and a packet to it stops the process.
\<close>

section \<open>A servent that is alone\<close>

definition alone :: "server_t \<Rightarrow> bool" where
  "alone s \<longleftrightarrow> length (neighbours s) = MAX_NEIGHBOURS \<and> list_all (\<lambda>n. sc_sock n = - 1) (neighbours s) \<and>
     nb_neighbours s = 0 \<and> repr (awaiting_sockets s) [] \<and> repr (pending_requests s) [] \<and>
     repr (received_search_requests s) [] \<and> repr (pending_downloads s) []"

lemma alone_frame:
  "alone (s\<lparr>script := c\<rparr>) = alone s" "alone (s\<lparr>evs := e\<rparr>) = alone s" "alone (s\<lparr>rx := r\<rparr>) = alone s"
  "alone (s\<lparr>client_socket := k\<rparr>) = alone s" "alone (s\<lparr>handshake_flag := h\<rparr>) = alone s"
  "alone (s\<lparr>loop_flag := f\<rparr>) = alone s"
  by (simp_all add: alone_def)

lemma sweep_none: "repr (getf s) [] \<Longrightarrow> sweep getf putf body s = (Inr (), s)"
  by (auto simp: sweep_def repr_def owns_def bnd_run gr0_conv_Suc)

lemma display_none: "list_all (\<lambda>n. sc_sock n = - 1) (neighbours s) \<Longrightarrow> display_neighbours s = (Inr (), s)"
proof -
  have "list_all (\<lambda>n. sc_sock n = - 1) ns \<Longrightarrow> display_loop ns s = (Inr (), s)" for ns by (induction ns) simp_all
  then show "list_all (\<lambda>n. sc_sock n = - 1) (neighbours s) \<Longrightarrow> ?thesis" by (simp add: display_neighbours_def bnd_run)
qed

lemma neighbours_none:
  assumes "length (neighbours s) = MAX_NEIGHBOURS" and "list_all (\<lambda>n. sc_sock n = - 1) (neighbours s)"
  shows "handle_neighbours s = (Inr 0, s)"
proof -
  have "\<forall>i \<in> set is. i < MAX_NEIGHBOURS \<Longrightarrow> handle_neighbours_loop is s = (Inr 0, s)" for "is"
    using assms by (induction "is") (simp_all add: bnd_run list_all_length)
  then show ?thesis by (simp add: handle_neighbours_def)
qed

lemma broadcast_none:
  assumes "length (neighbours s) = MAX_NEIGHBOURS" and "list_all (\<lambda>n. sc_sock n = - 1) (neighbours s)"
  shows "broadcast_packet bs s = (Inr (), s)"
proof -
  have "\<forall>i \<in> set is. i < MAX_NEIGHBOURS \<Longrightarrow> for_list is (\<lambda>i.
       bnd (gets (\<lambda>s. sc_sock (neighbours s ! i))) (\<lambda>sk.
       if sk \<noteq> - 1 then bnd (write_to_fd sk bs) (\<lambda>_. ret ()) else ret ())) s = (Inr (), s)" for "is"
    using assms by (induction "is") (simp_all add: bnd_run seq_run list_all_length)
  then show ?thesis by (simp add: broadcast_packet_def)
qed

section \<open>Turns\<close>

text \<open>A turn of a servent that is alone is the acceptance of a connection and the round of the client.\<close>

lemma turn_alone:
  assumes "attempt_accept (listening_socket s) s = (Inr res, s1)" and "handle_accept_result res s1 = (Inr (), s2)"
    and "alone s2" and "handle_client s2 = (Inr c, s3)" and "alone s3"
  obtains tm' ds where "loop_turn a b tm s =
    (Inr tm', s3\<lparr>loop_flag := if c = 1 then 0 else loop_flag s3, evs := evs s3 @ map Slept ds\<rparr>)"
proof -
  have a2: "handle_awaiting_sockets s2 = (Inr (), s2)" "display_neighbours s2 = (Inr (), s2)"
    "handle_neighbours s2 = (Inr 0, s2)" "handle_pending_downloads s2 = (Inr (), s2)"
    using assms(3) by (simp_all add: alone_def handle_awaiting_sockets_def handle_pending_downloads_def
        sweep_none display_none neighbours_none)
  let ?s4 = "s3\<lparr>loop_flag := if c = 1 then 0 else loop_flag s3\<rparr>"
  have same: "s3\<lparr>loop_flag := loop_flag s3\<rparr> = s3" by simp
  have a4: "nb_neighbours ?s4 = 0" "update_log_timers d ?s4 = (Inr (), ?s4)" for d
    using assms(5) by (simp_all add: alone_def update_log_timers_def sweep_none)
  have "\<exists>tm' ds. loop_turn a b tm s = (Inr tm', ?s4\<lparr>evs := evs s3 @ map Slept ds\<rparr>)"
  proof (cases "elapsed_time_since a b < LOOP_MIN_DURATION")
    case True
    then have "loop_turn a b tm s = (Inr \<lparr>print_timer = if print_timer tm \<le> time_diff tm then 10000 else print_timer tm - time_diff tm,
        time_diff = LOOP_MIN_DURATION\<rparr>, ?s4\<lparr>evs := evs s3 @ map Slept [LOOP_MIN_DURATION - elapsed_time_since a b]\<rparr>)"
      using assms(1,2,4) a2 a4 by (cases "c = 1") (simp_all add: loop_turn_def bnd_run seq_run emit_run Let_def)
    then show ?thesis by blast
  next
    case False
    then have "loop_turn a b tm s = (Inr \<lparr>print_timer = if print_timer tm \<le> time_diff tm then 10000 else print_timer tm - time_diff tm,
        time_diff = elapsed_time_since a b\<rparr>, ?s4\<lparr>evs := evs s3 @ map Slept []\<rparr>)"
      using assms(1,2,4) a2 a4 by (cases "c = 1") (simp_all add: loop_turn_def bnd_run seq_run emit_run Let_def)
    then show ?thesis by blast
  qed
  then show ?thesis using that by blast
qed

text \<open>The answers of a call run out; from then on it gives its default.\<close>

lemma sys_next: "sys c s = (Inr (case script s c of [] \<Rightarrow> sys_default c | r # _ \<Rightarrow> r),
    s\<lparr>script := (script s)(c := tl (script s c))\<rparr>)"
  by (cases "script s c") (simp_all add: sys_def fun_upd_idem)

text \<open>\<open>silent fd n s\<close>: the next \<open>n\<close> polls of a descriptor time out.\<close>

definition silent :: "int \<Rightarrow> nat \<Rightarrow> 'z os_scheme \<Rightarrow> bool" where
  "silent fd n s \<longleftrightarrow> list_all (\<lambda>r. r = 0) (take n (script s (Poll fd)))"

definition skip_polls :: "int \<Rightarrow> int \<Rightarrow> nat \<Rightarrow> (sysc \<Rightarrow> int list) \<Rightarrow> sysc \<Rightarrow> int list" where
  "skip_polls ls cl n c = c(Poll ls := drop n (c (Poll ls)), Revents ls := drop n (c (Revents ls)),
     Poll cl := drop n (c (Poll cl)))"

lemma skip_polls_Suc: "ls \<noteq> cl \<Longrightarrow> skip_polls ls cl n (skip_polls ls cl 1 c) = skip_polls ls cl (Suc n) c"
  by (simp add: skip_polls_def fun_eq_iff drop_Suc drop_tl)

lemma accept_nothing:
  assumes "silent ls (Suc n) s"
  shows "attempt_accept ls s = (Inr ACCEPT_ERR_TIMEOUT, s\<lparr>script := (script s)(Poll ls := tl (script s (Poll ls)),
    Revents ls := tl (script s (Revents ls)))\<rparr>)"
proof -
  have "(case script s (Poll ls) of [] \<Rightarrow> sys_default (Poll ls) | r # _ \<Rightarrow> r) = 0"
    using assms by (cases "script s (Poll ls)") (simp_all add: silent_def)
  then show ?thesis using sys_next [of "Poll ls" s] by (simp add: attempt_accept_def bnd_run sys_next)
qed

lemma client_nothing:
  assumes "silent (client_socket s) (Suc n) s"
  shows "handle_client s = (Inr 0, s\<lparr>script := (script s)(Poll (client_socket s) := tl (script s (Poll (client_socket s))))\<rparr>)"
proof -
  have "(case script s (Poll (client_socket s)) of [] \<Rightarrow> sys_default (Poll (client_socket s)) | r # _ \<Rightarrow> r) = 0"
    using assms by (cases "script s (Poll (client_socket s))") (simp_all add: silent_def)
  then show ?thesis
    using sys_next [of "Poll (client_socket s)" s] by (simp add: handle_client_def poll_fd_def bnd_run)
qed

lemma idle_turn:
  assumes "alone s" and "silent (listening_socket s) (Suc n) s" and "silent (client_socket s) (Suc n) s"
    and "listening_socket s \<noteq> client_socket s"
  obtains tm' ds where "loop_turn a b tm s = (Inr tm',
    s\<lparr>script := skip_polls (listening_socket s) (client_socket s) 1 (script s), evs := evs s @ map Slept ds\<rparr>)"
proof -
  let ?ls = "listening_socket s" and ?cl = "client_socket s"
  let ?s1 = "s\<lparr>script := (script s)(Poll ?ls := tl (script s (Poll ?ls)), Revents ?ls := tl (script s (Revents ?ls)))\<rparr>"
  have acc: "attempt_accept ?ls s = (Inr ACCEPT_ERR_TIMEOUT, ?s1)" using accept_nothing [OF assms(2)] .
  have none: "handle_accept_result ACCEPT_ERR_TIMEOUT ?s1 = (Inr (), ?s1)" by (simp add: handle_accept_result_def)
  have "silent (client_socket ?s1) (Suc n) ?s1" using assms(3,4) by (simp add: silent_def)
  from client_nothing [OF this] have cl: "handle_client ?s1 =
      (Inr 0, s\<lparr>script := skip_polls ?ls ?cl 1 (script s)\<rparr>)"
    using assms(4) by (simp add: skip_polls_def drop_Suc)
  show ?thesis
    by (rule turn_alone [OF acc none _ cl, where a = a and b = b and tm = tm])
      (use assms(1) that in \<open>simp_all add: alone_frame\<close>)
qed

lemma idle_turns:
  assumes "alone s" and "silent (listening_socket s) (length clock) s" and "silent (client_socket s) (length clock) s"
    and "listening_socket s \<noteq> client_socket s" and "loop_flag s = 1"
  shows "\<exists>tm' ds. loop (clock @ later) tm s = loop later tm'
    (s\<lparr>script := skip_polls (listening_socket s) (client_socket s) (length clock) (script s), evs := evs s @ map Slept ds\<rparr>)"
  using assms
proof (induction clock arbitrary: tm s)
  case Nil
  have "loop ([] @ later) tm s = loop later tm (s\<lparr>script := skip_polls (listening_socket s) (client_socket s) (length []) (script s),
      evs := evs s @ map Slept []\<rparr>)" by (simp add: skip_polls_def)
  then show ?case by blast
next
  case (Cons c clock)
  let ?ls = "listening_socket s" and ?cl = "client_socket s"
  have sil: "silent ?ls (Suc (length clock)) s" "silent ?cl (Suc (length clock)) s" using Cons.prems(2,3) by simp_all
  obtain tm1 ds where t: "loop_turn (fst c) (snd c) tm s = (Inr tm1,
      s\<lparr>script := skip_polls ?ls ?cl 1 (script s), evs := evs s @ map Slept ds\<rparr>)"
    by (rule idle_turn [OF Cons.prems(1) sil Cons.prems(4)])
  let ?t = "s\<lparr>script := skip_polls ?ls ?cl 1 (script s), evs := evs s @ map Slept ds\<rparr>"
  have later: "take n (drop (Suc 0) xs) = drop 1 (take (Suc n) xs)" for n and xs :: "int list" by (simp add: drop_take)
  have zeros: "list_all P (drop n xs)" if "list_all P xs" for P n and xs :: "int list"
    using that by (auto simp: list_all_iff dest: in_set_dropD)
  have st: "silent (listening_socket ?t) (length clock) ?t" "silent (client_socket ?t) (length clock) ?t"
    using sil Cons.prems(4) by (simp_all add: silent_def skip_polls_def later zeros)
  obtain tm2 ds2 where r: "loop (clock @ later) tm1 ?t = loop later tm2
      (?t\<lparr>script := skip_polls ?ls ?cl (length clock) (script ?t), evs := evs ?t @ map Slept ds2\<rparr>)"
    using Cons.IH [of ?t tm1] st Cons.prems(1,4,5) by (auto simp: alone_frame)
  have "loop ((c # clock) @ later) tm s = loop later tm2
      (s\<lparr>script := skip_polls ?ls ?cl (length (c # clock)) (script s), evs := evs s @ map Slept (ds @ ds2)\<rparr>)"
    using t r Cons.prems(4,5) by (simp add: bnd_run skip_polls_Suc [unfolded One_nat_def])
  then show ?case by blast
qed

text \<open>The turn in which the application connects.\<close>

lemma accept_one:
  assumes "script s (Poll ls) = 1 # ps" and "script s (Revents ls) = 1 # rs" and "script s (AcceptCall ls) = k # ks" and "k \<noteq> - 1"
  shows "attempt_accept ls s = (Inr k, s\<lparr>script := (script s)(Poll ls := ps, Revents ls := rs, AcceptCall ls := ks)\<rparr>)"
proof -
  have p: "(of_int 1 AND POLLIN) \<noteq> 0" by (simp add: POLLIN_def)
  show ?thesis
    using assms p by (simp add: attempt_accept_def bnd_run seq_run sys_script debug_assert_def del: of_int_1)
qed

lemma accepting_turn:
  assumes "alone s" and "script s (Poll ls) = 1 # ps" and "script s (Revents ls) = 1 # rs" and "script s (AcceptCall ls) = k # ks"
    and "listening_socket s = ls" and "0 \<le> k" and "k \<noteq> ls" and "handshake_flag s \<noteq> 1" and "wx s k = []"
    and "peername s k = Inet ip p \<or> peername s k = Inet6 ip p" and "ip \<in> local_names"
    and "avail k s = CMSG_INT_HANDSHAKE # rest" and "silent k (Suc n) s"
  obtains tm' ds where "loop_turn a b tm s = (Inr tm', (skip_rx k 1 s)\<lparr>client_socket := k, handshake_flag := 1,
    script := (script s)(Poll ls := ps, Revents ls := rs, AcceptCall ls := ks, Poll k := tl (script s (Poll k))),
    evs := evs s @ Wrote k [SMSG_INT_HANDSHAKE] # map Slept ds\<rparr>)"
proof -
  let ?s1 = "s\<lparr>script := (script s)(Poll ls := ps, Revents ls := rs, AcceptCall ls := ks)\<rparr>"
  let ?s2 = "(skip_rx k 1 ?s1)\<lparr>client_socket := k, handshake_flag := 1, evs := evs ?s1 @ [Wrote k [SMSG_INT_HANDSHAKE]]\<rparr>"
  have k: "k \<noteq> - 1" using assms(6) by simp
  have acc: "attempt_accept (listening_socket s) s = (Inr k, ?s1)" using accept_one [OF assms(2-4) k] assms(5) by simp
  have shake: "handle_accept_result k ?s1 = (Inr (), ?s2)"
    by (rule local_accepted [where ip = ip and p = p and rest = rest]) (use assms(6,8-12) in simp_all)
  have al: "alone (skip_rx k 1 u) = alone u" for u :: server_t by (simp add: skip_rx_def alone_frame)
  have "silent (client_socket ?s2) (Suc n) ?s2" using assms(7,13) by (simp add: silent_def)
  from client_nothing [OF this] have cl: "handle_client ?s2 = (Inr 0, ?s2\<lparr>script := (script ?s2)
      (Poll k := tl (script s (Poll k)))\<rparr>)" using assms(7) by simp
  show ?thesis
    by (rule turn_alone [OF acc shake _ cl, where a = a and b = b and tm = tm])
      (use assms(1) that in \<open>simp_all add: alone_frame al skip_rx_def\<close>)
qed

text \<open>The turn in which it exits.\<close>

lemma exit_turn:
  assumes "alone s" and "silent (listening_socket s) (Suc n) s" and "listening_socket s \<noteq> client_socket s"
    and "ready (client_socket s) s" and "avail (client_socket s) s = CMSG_INT_EXIT # rest"
  obtains tm' c r ds where "loop_turn a b tm s = (Inr tm', s\<lparr>script := c, rx := r, loop_flag := 0, evs := evs s @ map Slept ds\<rparr>)"
proof -
  let ?ls = "listening_socket s" and ?cl = "client_socket s"
  let ?s1 = "s\<lparr>script := (script s)(Poll ?ls := tl (script s (Poll ?ls)), Revents ?ls := tl (script s (Revents ?ls)))\<rparr>"
  have acc: "attempt_accept ?ls s = (Inr ACCEPT_ERR_TIMEOUT, ?s1)" using accept_nothing [OF assms(2)] .
  have none: "handle_accept_result ACCEPT_ERR_TIMEOUT ?s1 = (Inr (), ?s1)" by (simp add: handle_accept_result_def)
  have 1: "ready (client_socket ?s1) ?s1" "avail (client_socket ?s1) ?s1 = CMSG_INT_EXIT # rest"
    using assms(3-5) by (simp_all add: ready_def)
  let ?s2 = "opened ?cl ?s1"
  have al: "alone ?s2" using assms(1) by (simp add: opened_def polled_def skip_rx_def alone_frame)
  then have "leave_network ?s2 = (Inr (), ?s2)" by (simp add: leave_network_def broadcast_none alone_def)
  then have cl: "handle_client ?s1 = (Inr 1, ?s2)"
    using handle_client_opened [OF 1] by (simp add: seq_run)
  show ?thesis
    by (rule turn_alone [OF acc none _ cl al, where a = a and b = b and tm = tm])
      (use assms(1) that in \<open>simp_all add: alone_frame opened_def polled_def skip_rx_def\<close>)
qed

section \<open>The whole life\<close>

lemma silent_zeros: "script s (Poll fd) = replicate n 0 @ xs \<Longrightarrow> silent fd n s"
  "script s (Poll fd) = [] \<Longrightarrow> silent fd n s"
  by (simp_all add: silent_def list_all_iff)

lemma skip_polls_other:
  "c \<noteq> Poll ls \<Longrightarrow> c \<noteq> Revents ls \<Longrightarrow> c \<noteq> Poll cl \<Longrightarrow> skip_polls ls cl n f c = f c"
  by (simp add: skip_polls_def)

lemma session_loop:
  assumes "alone s" and "listening_socket s = ls" and "client_socket s = cl" and "ls \<noteq> cl" and "loop_flag s = 1"
    and "handshake_flag s \<noteq> 1" and "0 \<le> k" and "k \<noteq> ls" and "k \<noteq> cl" and "wx s k = []"
    and "peername s k = Inet ip p \<or> peername s k = Inet6 ip p" and "ip \<in> local_names"
    and "avail k s = CMSG_INT_HANDSHAKE # encode PIntExit @ rest"
    and "script s (Poll ls) = replicate (length c1) 0 @ [1]" and "script s (Revents ls) = replicate (length c1) 0 @ [1]"
    and "script s (AcceptCall ls) = [k]" and "script s (Poll cl) = []"
    and "script s (Poll k) = replicate (Suc (length c2)) 0 @ [1]"
  shows "\<exists>c r ds1 ds2. loop (c1 @ t1 # c2 @ t2 # later) tm s = (Inr 0, s\<lparr>client_socket := k, handshake_flag := 1,
    loop_flag := 0, script := c, rx := r,
    evs := evs s @ map Slept ds1 @ Wrote k [SMSG_INT_HANDSHAKE] # map Slept ds2\<rparr>)"
proof -
  have sil: "silent (listening_socket s) (length c1) s" "silent (client_socket s) (length c1) s"
    using assms(2,3,14,17) by (simp_all add: silent_zeros)
  obtain tma da where 1: "loop (c1 @ t1 # c2 @ t2 # later) tm s = loop (t1 # c2 @ t2 # later) tma
      (s\<lparr>script := skip_polls ls cl (length c1) (script s), evs := evs s @ map Slept da\<rparr>)" (is "_ = loop _ _ ?s1")
    using idle_turns [OF assms(1) sil] assms(2-5) by blast
  have sc: "script ?s1 (Poll ls) = [1]" "script ?s1 (Revents ls) = [1]" "script ?s1 (AcceptCall ls) = [k]"
    "script ?s1 (Poll k) = replicate (Suc (length c2)) 0 @ [1]"
    using assms(4,8,9,14-18) by (simp_all add: skip_polls_def)
  have k: "silent k (Suc (length c2)) ?s1" by (rule silent_zeros(1) [OF sc(4)])
  obtain tmb db where 2: "loop_turn (fst t1) (snd t1) tma ?s1 = (Inr tmb, (skip_rx k 1 ?s1)\<lparr>client_socket := k, handshake_flag := 1,
      script := (script ?s1)(Poll ls := [], Revents ls := [], AcceptCall ls := [], Poll k := tl (script ?s1 (Poll k))),
      evs := evs ?s1 @ Wrote k [SMSG_INT_HANDSHAKE] # map Slept db\<rparr>)" (is "_ = (_, ?s2)")
    by (rule accepting_turn [OF _ sc(1-3), of ip p "encode PIntExit @ rest" "length c2" "fst t1" "snd t1" tma])
      (use assms(1,2,6-8,10-13) k in \<open>simp_all add: alone_frame del: encode.simps\<close>)
  have f2: "listening_socket ?s2 = ls" "client_socket ?s2 = k" "loop_flag ?s2 = 1" "alone ?s2"
    "script ?s2 (Poll ls) = []" "script ?s2 (Poll k) = replicate (length c2) 0 @ [1]" "avail k ?s2 = encode PIntExit @ rest"
    using assms(1,2,5,8,13) sc(4) by (simp_all add: skip_rx_def alone_frame del: encode.simps)
  have sil2: "silent (listening_socket ?s2) (length c2) ?s2" "silent (client_socket ?s2) (length c2) ?s2"
    unfolding f2(1,2) using f2(5,6) silent_zeros by blast+
  obtain tmc dc where 3: "loop (c2 @ t2 # later) tmb ?s2 = loop (t2 # later) tmc
      (?s2\<lparr>script := skip_polls ls k (length c2) (script ?s2), evs := evs ?s2 @ map Slept dc\<rparr>)" (is "_ = loop _ _ ?s3")
    using idle_turns [OF f2(4) sil2] f2(1-3) assms(8) by (metis f2(1,2))
  have f3: "listening_socket ?s3 = ls" "client_socket ?s3 = k" "loop_flag ?s3 = 1" "alone ?s3"
    "script ?s3 (Poll ls) = []" "script ?s3 (Poll k) = [1]" "avail k ?s3 = CMSG_INT_EXIT # rest"
    using f2 assms(8) by (simp_all add: alone_frame skip_polls_def)
  obtain tmd c r dd where 4: "loop_turn (fst t2) (snd t2) tmc ?s3 =
      (Inr tmd, ?s3\<lparr>script := c, rx := r, loop_flag := 0, evs := evs ?s3 @ map Slept dd\<rparr>)"
    by (rule exit_turn [of ?s3 0 rest "fst t2" "snd t2" tmc])
      (use f3 assms(8) in \<open>simp_all add: silent_def ready_def\<close>)
  have "loop (c1 @ t1 # c2 @ t2 # later) tm s =
      (Inr 0, ?s3\<lparr>script := c, rx := r, loop_flag := 0, evs := evs ?s3 @ map Slept dd\<rparr>)"
    unfolding 1 using assms(5) 2 3 4 f2(3) f3(3) by (cases later) (simp_all add: bnd_run)
  moreover have "?s3\<lparr>script := c, rx := r, loop_flag := 0, evs := evs ?s3 @ map Slept dd\<rparr> =
      s\<lparr>client_socket := k, handshake_flag := 1, loop_flag := 0, script := c, rx := r,
        evs := evs s @ map Slept da @ Wrote k [SMSG_INT_HANDSHAKE] # map Slept (db @ dc @ dd)\<rparr>"
    by (simp add: skip_rx_def)
  ultimately show ?thesis by metis
qed

lemma alone_ends:
  assumes "alone s"
  obtains t where "seq leave_network clear_server s = (Inr (), t)"
    and "evs t = evs s @ map Closed [listening_socket s, client_socket s]"
proof -
  have a: "length (neighbours s) = MAX_NEIGHBOURS" "list_all (\<lambda>n. sc_sock n = - 1) (neighbours s)"
    "repr (awaiting_sockets s) []" "repr (pending_requests s) []" "repr (received_search_requests s) []"
    "repr (pending_downloads s) []"
    using assms by (simp_all add: alone_def)
  have none: "neighbour_socks s = []"
    using a(2) by (auto simp: neighbour_socks_def list_all_iff filter_empty_conv)
  obtain t js where "clear_server s = (Inr (), t)" "evs t = evs s @ map Closed ([listening_socket s, client_socket s] @ js)"
    "length js = 0"
    using clear_server_run [OF a(1,3-6)] none by auto
  then show ?thesis using that broadcast_none [OF a(1,2)] by (simp add: leave_network_def seq_run)
qed

text \<open>
  The whole life of a servent that is the first of its network: however long it waits for the
  application, which connects from the local machine and shakes hands, and however long the
  application stays, when the application exits the loop ends, the servent closes its listening
  socket and the connection, and returns \<open>EXIT_SUCCESS\<close>; it has sent nothing but the answer to the
  handshake.
\<close>

lemma servent_run:
  assumes "create_listening_socket (case lp of None \<Rightarrow> SERVER_LISTEN_PORT | Some p \<Rightarrow> p) (init_server s0) = (Inr ls, s)"
    and "0 < ls" and "0 < k" and "k \<noteq> ls" and "loop_flag s0 = 1" and "wx s0 k = []"
    and "peername s0 k = Inet ip p \<or> peername s0 k = Inet6 ip p" and "ip \<in> local_names"
    and "avail k s0 = CMSG_INT_HANDSHAKE # encode PIntExit @ rest"
    and "script s (Poll ls) = replicate waiting 0 @ [1]" and "script s (Revents ls) = replicate waiting 0 @ [1]"
    and "script s (AcceptCall ls) = [k]" and "script s (Poll 0) = []" and "script s (Poll k) = replicate (Suc working) 0 @ [1]"
    and "waiting + working + 2 \<le> length clock"
  shows "\<exists>t ds1 ds2. run_server clock True lp contact_ip contact_port s0 = (Inr 0, t) \<and>
    evs t = evs s @ map Slept ds1 @ Wrote k [SMSG_INT_HANDSHAKE] # map Slept ds2 @ [Closed ls, Closed k]"
proof -
  let ?s = "init_lists (s\<lparr>listening_socket := ls\<rparr>)"
  obtain c e where s: "s = (init_server s0)\<lparr>script := c, evs := e\<rparr>" by (rule create_listening_socket_same [OF assms(1)])
  have start: "start_server True lp contact_ip contact_port s0 = (Inr (), ?s)"
    using assms(1,2) by (simp add: start_server_def seq_run bnd_run)
  define c1 c2 later where "c1 = take waiting clock" and "c2 = take working (drop (Suc waiting) clock)"
    and "later = drop (waiting + working + 2) clock"
  have clock: "clock = c1 @ clock ! waiting # c2 @ clock ! (Suc (waiting + working)) # later"
    and len: "length c1 = waiting" "length c2 = working"
  proof -
    have "clock = c1 @ clock ! waiting # drop (Suc waiting) clock"
      unfolding c1_def using assms(15) by (intro id_take_nth_drop) simp
    moreover have "drop (Suc waiting) clock = c2 @ drop (Suc waiting) clock ! working # drop (Suc working) (drop (Suc waiting) clock)"
      unfolding c2_def using assms(15) by (intro id_take_nth_drop) simp
    ultimately show "clock = c1 @ clock ! waiting # c2 @ clock ! (Suc (waiting + working)) # later"
      using assms(15) by (simp add: later_def add.commute)
  qed (use assms(15) in \<open>simp_all add: c1_def c2_def\<close>)
  have al: "alone ?s"
    by (simp add: s alone_def init_lists_def init_server_def repr_create list_all_iff)
  have f: "listening_socket ?s = ls" "client_socket ?s = 0" "loop_flag ?s = 1" "handshake_flag ?s \<noteq> 1" "wx ?s k = []"
    "peername ?s k = Inet ip p \<or> peername ?s k = Inet6 ip p" "avail k ?s = CMSG_INT_HANDSHAKE # encode PIntExit @ rest"
    "script ?s = script s" "evs ?s = evs s"
    using assms(5-7,9) by (simp_all add: s init_lists_def init_server_def del: encode.simps)
  obtain cc r ds1 ds2 where run: "loop clock start_timers ?s = (Inr 0, ?s\<lparr>client_socket := k, handshake_flag := 1,
      loop_flag := 0, script := cc, rx := r,
      evs := evs ?s @ map Slept ds1 @ Wrote k [SMSG_INT_HANDSHAKE] # map Slept ds2\<rparr>)" (is "_ = (_, ?u)")
    using session_loop [OF al f(1,2) _ f(3,4) _ assms(4) _ f(5,6) assms(8) f(7), of c1 c2 "clock ! waiting" "clock ! (Suc (waiting + working))"
        later start_timers] assms(2,3,10-14) len
    unfolding f(8) clock [symmetric] by auto
  have "alone ?u" using al by (simp add: alone_frame)
  then obtain t where t: "seq leave_network clear_server ?u = (Inr (), t)"
    "evs t = evs ?u @ map Closed [listening_socket ?u, client_socket ?u]" by (rule alone_ends)
  have "run_server clock True lp contact_ip contact_port s0 = (Inr 0, t)"
    using start run t(1) by (simp add: run_server_def seq_run bnd_run split: prod.splits sum.splits)
  then show ?thesis using t(2) f(1,9) by (intro exI [of _ t] exI [of _ ds1] exI [of _ ds2]) simp
qed

text \<open>A servent its application reaches in the second turn and leaves in the fourth.\<close>

definition brief_servent :: server_t where
  "brief_servent = sample_servent\<lparr>peername := (\<lambda>_. Inet (cs ''127.0.0.1'') 5000),
     rx := (\<lambda>_. [])(9 := [Chunk (CMSG_INT_HANDSHAKE # encode PIntExit)]),
     script := (\<lambda>_. [])(SocketCall := [3], SetsockoptCall := [0], BindCall := [0], ListenCall := [0],
       Poll 3 := [0, 1], Revents 3 := [0, 1], AcceptCall 3 := [9], Poll 9 := [0, 0, 1])\<rparr>"

section \<open>A neighbour that has gone\<close>

text \<open>At the end of a stream the opcode is the byte the variable held before.\<close>

lemma read_u8_end: "rx s fd = [] \<Longrightarrow> read_u8 fd s = (Inr (hd (junk s @ [0])), s\<lparr>junk := tl (junk s)\<rparr>)"
  by (cases "junk s") (simp_all add: read_u8_def read_buf_def read_from_fd_def read_loop.simps sys_read_def bnd_run take_junk_def)

text \<open>
  A neighbour that has closed its end without a word stays a neighbour: what is ready is the end of
  the stream, the step of the turn takes the old content of a variable for the opcode and, unless it
  happens to be one it knows, does nothing; in the next turn it is ready again.
\<close>

lemma closed_neighbour_kept:
  assumes "sc_sock (neighbours s ! i) = sk" and "ready sk s" and "rx s sk = []"
    and "hd (junk s @ [0]) \<notin> {CMSG_SEARCH_REQUEST, CMSG_LEAVE, SMSG_SEARCH_REQUEST}"
  shows "handle_neighbour i s = (Inr 0, (polled sk s)\<lparr>junk := tl (junk s)\<rparr>)"
  using assms(1,4) poll_ready [OF assms(2)] read_u8_end [of "polled sk s" sk] assms(3)
  by (simp add: handle_neighbour_def bnd_run)

lemma closed_neighbour_kept_witness:
  "neighbours (snd (handle_neighbour 0 (sample_servent\<lparr>script := (\<lambda>_. [])(Poll 6 := [1])\<rparr>))) = neighbours sample_servent"
proof -
  let ?s = "sample_servent\<lparr>script := (\<lambda>_. [])(Poll 6 := [1])\<rparr>"
  have "sc_sock (neighbours ?s ! 0) = 6" "ready 6 ?s" "rx ?s 6 = []" "junk ?s = []"
    by (simp_all add: sample_servent_def ready_def)
  then show ?thesis using closed_neighbour_kept [of ?s 0 6] by (simp add: opcode_values polled_def)
qed

text \<open>
  C27. Nor is it noticed when the servent writes to it: SIGPIPE is neither ignored nor caught, so the
  first broadcast over the network - a search of its client, or the farewell of its own end - stops
  the process at the slot of that neighbour, and the later ones get nothing.
\<close>

theorem gone_neighbour_kills:
  assumes "length (neighbours s) = MAX_NEIGHBOURS" and "i < MAX_NEIGHBOURS" and "sc_sock (neighbours s ! i) = sk"
    and "sk \<noteq> - 1" and "wx s sk = WrPipe # q" and "bs \<noteq> []"
    and "\<And>j. j < i \<Longrightarrow> wx s (sc_sock (neighbours s ! j)) = []"
  shows "fst (broadcast_packet bs s) = Inl Sigpipe \<and>
    evs (snd (broadcast_packet bs s)) = evs s @ map (\<lambda>fd. Wrote fd bs)
      (filter (\<lambda>k. k \<noteq> - 1) (map sc_sock (take i (neighbours s))))"
proof -
  let ?body = "\<lambda>i. bnd (gets (\<lambda>s. sc_sock (neighbours s ! i))) (\<lambda>sk.
       if sk \<noteq> - 1 then bnd (write_to_fd sk bs) (\<lambda>_. ret ()) else ret ())"
  have pre: "j \<le> i \<Longrightarrow> for_list [0..<j] ?body s =
      (Inr (), after_broadcast (filter (\<lambda>k. k \<noteq> - 1) (map sc_sock (take j (neighbours s)))) bs s)" for j
  proof (induction j)
    case 0
    then show ?case by (simp add: after_broadcast_def)
  next
    case (Suc j)
    then show ?case
      using assms(1,2,6,7) by (simp add: for_list_append seq_run bnd_run after_broadcast_def write_to_fd_free
          take_Suc_conv_app_nth)
  qed
  have split: "[0..<MAX_NEIGHBOURS] = [0..<i] @ i # [Suc i..<MAX_NEIGHBOURS]"
    using assms(2) by (metis le_add1 upt_add_eq_append le_add_diff_inverse less_imp_le_nat plus_nat.add_0 upt_conv_Cons)
  show ?thesis
    using pre [of i] assms(3-6)
    by (simp add: broadcast_packet_def split for_list_append seq_run bnd_run after_broadcast_def
        write_to_fd.simps [of sk bs] sys_write_def)
qed

theorem gone_neighbour_kills_witness:
  "fst (broadcast_packet [CMSG_LEAVE] (sample_servent\<lparr>wx := (\<lambda>_. [])(6 := [WrPipe])\<rparr>)) = Inl Sigpipe"
proof -
  let ?s = "sample_servent\<lparr>wx := (\<lambda>_. [])(6 := [WrPipe])\<rparr>"
  have "length (neighbours ?s) = MAX_NEIGHBOURS" "0 < MAX_NEIGHBOURS" "sc_sock (neighbours ?s ! 0) = 6" "wx ?s 6 = [WrPipe]"
    by (simp_all add: sample_servent_def MAX_NEIGHBOURS_def)
  then show ?thesis using gone_neighbour_kills [of ?s 0 6 "[]" "[CMSG_LEAVE]"] by simp
qed

text \<open>
  Before the application has connected, the socket of the client is 0: the round of the client takes
  a byte off the standard input, which the process shares with the application.
\<close>

lemma stdin_taken_for_client:
  assumes "ready 0 (init_server s)" and "avail 0 s = b # rest"
    and "b \<notin> {CMSG_INT_EXIT, CMSG_INT_SEARCH, CMSG_INT_DOWNLOAD}"
  shows "handle_client (init_server s) = (Inr 0, opened 0 (init_server s))" and "avail 0 (opened 0 (init_server s)) = rest"
proof -
  have a: "avail 0 (init_server s) = b # rest" and c: "client_socket (init_server s) = 0"
    using assms(2) by (simp_all add: init_server_def)
  show "handle_client (init_server s) = (Inr 0, opened 0 (init_server s))"
    using handle_client_opened [of "init_server s" b rest] assms(1,3) a c by simp
  show "avail 0 (opened 0 (init_server s)) = rest" by (rule avail_opened [OF a])
qed

end
