(* ===== verification/Client.thy ===== *)
theory Client
  imports Packets Networking Clist
begin

text \<open>
  The user application (\<open>client.c\<close>, \<open>client/\<close>): it reads commands, sends requests to the local
  servent and prints what the servent answers. The lines typed are part of the state. A
  \<open>file_lookup_t\<close> belongs to its cell, so a pointer to one is the address of the cell.
\<close>

section \<open>The state\<close>

record machine_t =
  mc_ip :: cstr
  mc_port :: cstr

record file_lookup_t =
  fl_filename :: cstr
  fl_machines :: "machine_t list_t"

text \<open>\<open>tok\<close> is the position \<open>strtok\<close> keeps between its calls, as what is left of the string.\<close>

record client_t = os +
  server_socket :: int
  machines_by_files :: "file_lookup_t list_t"
  tok :: cstr
  stdin_lines :: "byte list list"

type_synonym 'a client_prog = "(client_t, 'a) prog"

abbreviation (input) put_machines :: "file_lookup_t list_t \<Rightarrow> client_t \<Rightarrow> client_t" where
  "put_machines l s \<equiv> s\<lparr>machines_by_files := l\<rparr>"

interpretation lookups: list_field machines_by_files put_machines
  by unfold_locales simp_all

definition create_machine :: "machine_t \<Rightarrow> machine_t" where
  "create_machine m = \<lparr>mc_ip = mc_ip m, mc_port = mc_port m\<rparr>"

definition create_lookup :: "file_lookup_t \<Rightarrow> file_lookup_t" where
  "create_lookup l = \<lparr>fl_filename = fl_filename l, fl_machines = fl_machines l\<rparr>"

section \<open>Tokens\<close>

text \<open>
  \<open>strtok\<close>: a new string, or (\<open>None\<close>) the rest of the last one; the result \<open>None\<close> is NULL.
  \<open>token\<close> gives the token and what is left behind the byte that ended it.
\<close>

definition token :: "byte list \<Rightarrow> cstr \<Rightarrow> cstr option \<times> cstr" where
  "token delim x =
     (let y = dropWhile (\<lambda>b. b \<in> set delim) x
      in if y = [] then (None, [])
         else (Some (takeWhile (\<lambda>b. b \<notin> set delim) y), tl (dropWhile (\<lambda>b. b \<notin> set delim) y)))"

definition strtok :: "cstr option \<Rightarrow> byte list \<Rightarrow> cstr option client_prog" where
  "strtok str delim =
     bnd (gets (\<lambda>s. token delim (case str of Some y \<Rightarrow> y | None \<Rightarrow> tok s))) (\<lambda>(t, rest).
     seq (modify (\<lambda>s. s\<lparr>tok := rest\<rparr>)) (ret t))"

definition SPACE :: byte where "SPACE = 32"

section \<open>Output\<close>

definition newline :: "byte list" where "newline = [10]"
definition tab :: "byte list" where "tab = [9]"
definition e_acute :: "byte list" where "e_acute = [195, 169]"
definition e_grave :: "byte list" where "e_grave = [195, 168]"

definition SEARCH_COMMAND :: cstr where "SEARCH_COMMAND = cs ''search''"
definition DOWNLOAD_COMMAND :: cstr where "DOWNLOAD_COMMAND = cs ''download''"
definition LOOKUP_COMMAND :: cstr where "LOOKUP_COMMAND = cs ''lookup''"
definition HELP_COMMAND :: cstr where "HELP_COMMAND = cs ''help''"
definition EXIT_COMMAND :: cstr where "EXIT_COMMAND = cs ''exit''"

definition commands :: "(cstr \<times> cstr) list" where
  "commands =
     [(HELP_COMMAND, cs ''Affiche l'aide.''),
      (SEARCH_COMMAND @ cs '' nom_de_fichier'',
       cs ''Demande la recherche du fichier <nom_de_fichier>.''),
      (LOOKUP_COMMAND @ cs '' nom_de_fichier'',
       cs ''Demander la liste des machines qui poss'' @ e_grave @
       cs ''dent le fichier <nom_de_fichier>.''),
      (DOWNLOAD_COMMAND @ cs '' ip port nom_de_fichier'',
       cs ''Effectue le t'' @ e_acute @ cs ''l'' @ e_acute @ cs ''chargement du fichier <nom_de_fichier> '' @
       cs ''depuis la machine d'IP <ip> sur le port <port>.'' @ newline),
      (EXIT_COMMAND, cs ''Quitte l'application.'')]"

definition display_help :: "unit client_prog" where
  "display_help =
     for_list commands (\<lambda>c. print (fst c @ newline @ tab @ snd c @ newline @ newline))"

section \<open>Lookups\<close>

text \<open>The address of the cell of the record, if there is one.\<close>

definition has_file_record :: "cstr \<Rightarrow> addr option client_prog" where
  "has_file_record f =
     foreach machines_by_files (\<lambda>p entry. if fl_filename entry = f then ret (Some p) else ret None)"

definition has_file_machine_record :: "machine_t list_t \<Rightarrow> cstr \<Rightarrow> cstr \<Rightarrow> int client_prog" where
  "has_file_machine_record ms ip port =
     bnd (foreach (\<lambda>_. ms) (\<lambda>_ entry.
       if mc_ip entry = ip \<and> mc_port entry = port then ret (Some (1 :: int)) else ret None)) (\<lambda>r.
     ret (case r of Some x \<Rightarrow> x | None \<Rightarrow> 0))"

text \<open>Read, and run a list operation on, the machines of the record at an address.\<close>

definition machines_at :: "addr \<Rightarrow> machine_t list_t client_prog" where
  "machines_at p = bnd (zoom machines_by_files put_machines (load p)) (\<lambda>c. ret (fl_machines (dat c)))"

definition set_machines :: "addr \<Rightarrow> machine_t list_t \<Rightarrow> file_lookup_t list_t \<Rightarrow> file_lookup_t list_t" where
  "set_machines p ms l = (case cells l p of None \<Rightarrow> l
     | Some c \<Rightarrow> l\<lparr>cells := (cells l)(p \<mapsto> c\<lparr>dat := (dat c)\<lparr>fl_machines := ms\<rparr>\<rparr>)\<rparr>)"

definition on_machines :: "addr \<Rightarrow> (machine_t list_t, unit) prog \<Rightarrow> unit client_prog" where
  "on_machines p m =
     bnd (machines_at p) (\<lambda>ms.
     bnd (local_run ms m) (\<lambda>ms'.
     modify (\<lambda>s. s\<lparr>machines_by_files := set_machines p ms' (machines_by_files s)\<rparr>)))"

definition handle_lookup :: "unit client_prog" where
  "handle_lookup =
     bnd (strtok None []) (\<lambda>file. case file of
       None \<Rightarrow> print (cs ''Commande invalide'' @ newline)
     | Some f \<Rightarrow>
         bnd (has_file_record f) (\<lambda>entry. case entry of
           Some p \<Rightarrow>
             seq (print (cs ''Machines poss'' @ e_acute @ cs ''dant le fichier '' @ f @ cs '':'' @ newline))
            (bnd (machines_at p) (\<lambda>ms.
             bnd (foreach (\<lambda>_. ms) (\<lambda>_ m.
               bnd (print (tab @ mc_ip m @ cs '':'' @ mc_port m @ newline)) (\<lambda>_. ret (None :: unit option)))) (\<lambda>_.
             print newline)))
         | None \<Rightarrow> print (cs ''Aucune machine ne poss'' @ e_grave @ cs ''de le fichier '' @ f @ newline)))"

section \<open>Searches\<close>

definition handle_search :: "unit client_prog" where
  "handle_search =
     bnd (strtok None []) (\<lambda>name. case name of
       None \<Rightarrow> bnd (log_to_file LOG_LEVEL_ERROR 1 (Some (cs ''Erreur dans la commande de recherche. '' @
           cs ''Tapez '' @ [34] @ cs ''help'' @ [34] @ cs '' pour v'' @ e_acute @ cs ''rifier la syntaxe.'' @ newline)) []) (\<lambda>_.
         ret ())
     | Some name \<Rightarrow>
         bnd (gets server_socket) (\<lambda>fd.
         let data = PBuf (PKT_ID_SIZE + 1 + length name) [] in
         bnd (write_to_packet data [CMSG_INT_SEARCH] PKT_ID_SIZE) (\<lambda>p.
         bnd (write_lstr p name) (\<lambda>p.
         bnd (write_to_fd fd (pbytes p)) (\<lambda>_. ret ())))))"

text \<open>One machine of an answer; \<open>has_file\<close> says whether the record existed before the answer.\<close>

definition read_machine :: "bool \<Rightarrow> addr \<Rightarrow> unit client_prog" where
  "read_machine has_file p =
     bnd (gets server_socket) (\<lambda>fd.
     bnd (read_lstr fd) (\<lambda>ip.
     bnd (read_lstr fd) (\<lambda>port.
     let m = \<lparr>mc_ip = ip, mc_port = port\<rparr> in
     if has_file then
       bnd (machines_at p) (\<lambda>ms.
       bnd (has_file_machine_record ms ip port) (\<lambda>r.
       if r = 0 then on_machines p (list_push_back_no_create m) else ret ()))
     else on_machines p (list_push_back_no_create m))))"

primrec read_machines_into :: "nat \<Rightarrow> bool \<Rightarrow> addr \<Rightarrow> unit client_prog" where
  "read_machines_into 0 has_file p = ret ()"
| "read_machines_into (Suc n) has_file p =
     seq (read_machine has_file p) (read_machines_into n has_file p)"

definition handle_search_answer :: "unit client_prog" where
  "handle_search_answer =
     bnd (gets server_socket) (\<lambda>fd.
     bnd (read_lstr fd) (\<lambda>f.
     bnd (has_file_record f) (\<lambda>rec.
     bnd (case rec of
            Some p \<Rightarrow> ret (True, p)
          | None \<Rightarrow>
              bnd (gets (\<lambda>s. brk (machines_by_files s))) (\<lambda>p.
              seq (zoom machines_by_files put_machines (list_push_back_no_create
                     \<lparr>fl_filename = f, fl_machines = list_create None create_machine\<rparr>))
                  (ret (False, p)))) (\<lambda>(has_file, p).
     bnd (read_u8 fd) (\<lambda>nb_ips.
     read_machines_into (unat nb_ips) has_file p)))))"

section \<open>Downloads\<close>

definition invalid_command :: "unit client_prog" where
  "invalid_command = print (cs ''Invalid command'' @ newline)"

definition handle_download :: "unit client_prog" where
  "handle_download =
     bnd (strtok None [SPACE]) (\<lambda>ip. case ip of None \<Rightarrow> invalid_command | Some ip \<Rightarrow>
     bnd (strtok None [SPACE]) (\<lambda>port. case port of None \<Rightarrow> invalid_command | Some port \<Rightarrow>
     bnd (strtok None []) (\<lambda>file. case file of None \<Rightarrow> invalid_command | Some file \<Rightarrow>
     bnd (gets server_socket) (\<lambda>fd.
     let data = PBuf (PKT_ID_SIZE + 1 + length ip + 1 + length port + 1 + length file) [] in
     bnd (write_to_packet data [CMSG_INT_DOWNLOAD] PKT_ID_SIZE) (\<lambda>p.
     bnd (write_lstr p ip) (\<lambda>p.
     bnd (write_lstr p port) (\<lambda>p.
     bnd (write_lstr p file) (\<lambda>p.
     bnd (write_to_fd fd (pbytes p)) (\<lambda>_. ret ())))))))))"

definition handle_download_answer :: "unit client_prog" where
  "handle_download_answer =
     bnd (gets server_socket) (\<lambda>fd.
     bnd (read_u8 fd) (\<lambda>code.
     if code \<noteq> ANSWER_CODE_REMOTE_FOUND then
       bnd (read_lstr fd) (\<lambda>ip.
       bnd (read_lstr fd) (\<lambda>port.
       bnd (read_lstr fd) (\<lambda>f.
       if code = ANSWER_CODE_LOCAL then
         print (cs ''Le fichier '' @ f @ cs '' se trouve d'' @ e_acute @ cs ''j'' @ [195, 160] @
                cs '' sur la machine locale.'' @ newline)
       else if code = ANSWER_CODE_REMOTE_NOT_FOUND then
         print (cs ''La machine '' @ ip @ cs '':'' @ port @ cs '' ne poss'' @ e_grave @
                cs ''de pas le fichier '' @ f @ cs ''.'' @ newline)
       else if code = ANSWER_CODE_REMOTE_OFFLINE then
         print (cs ''La machine '' @ ip @ cs '':'' @ port @ cs '' est hors ligne.'' @ newline)
       else ret ())))
     else
       bnd (read_lstr fd) (\<lambda>f.
       print (cs ''Le fichier '' @ f @ cs '' a '' @ e_acute @ cs ''t'' @ e_acute @ cs '' t'' @ e_acute @
              cs ''l'' @ e_acute @ cs ''charg'' @ e_acute @ cs ''.'' @ newline))))"

section \<open>The loop\<close>

definition client_handshake :: "int client_prog" where
  "client_handshake =
     bnd (gets server_socket) (\<lambda>fd.
     bnd (write_to_fd fd [CMSG_INT_HANDSHAKE]) (\<lambda>_.
     bnd (read_from_fd fd PKT_ID_SIZE) (\<lambda>(_, got).
     let server_data = (case got of [] \<Rightarrow> 0 | b # _ \<Rightarrow> b) in
     ret (if server_data \<noteq> SMSG_INT_HANDSHAKE then - 1 else 0))))"

definition handle_servent :: "unit client_prog" where
  "handle_servent =
     bnd (gets server_socket) (\<lambda>fd.
     bnd (poll_fd fd) (\<lambda>res.
     if res = 1 then
       bnd (read_u8 fd) (\<lambda>opcode.
       if opcode = SMSG_INT_SEARCH then handle_search_answer
       else if opcode = SMSG_INT_DOWNLOAD then handle_download_answer
       else ret ())
     else ret ()))"

definition handle_command :: "cstr \<Rightarrow> unit client_prog" where
  "handle_command command =
     (if command = HELP_COMMAND then display_help
      else bnd (strtok (Some command) [SPACE]) (\<lambda>command_name. case command_name of
         None \<Rightarrow> halt (UB NullDeref)
       | Some name \<Rightarrow>
           if name = DOWNLOAD_COMMAND then handle_download
           else if name = SEARCH_COMMAND then handle_search
           else if name = LOOKUP_COMMAND then handle_lookup
           else ret ()))"

text \<open>
  \<open>getline\<close> into a buffer of its own: the line with its newline. At the end of the input the
  buffer is returned as \<open>malloc\<close> gave it.
\<close>

definition read_command :: "byte list client_prog" where
  "read_command =
     bnd (gets stdin_lines) (\<lambda>ls. case ls of
       [] \<Rightarrow> halt (UB Uninit)
     | l # ls \<Rightarrow> seq (modify (\<lambda>s. s\<lparr>stdin_lines := ls\<rparr>)) (ret l))"

text \<open>
  The command is the line without its last byte; a line whose string is empty makes the
  length of the copy negative. One turn returns whether the loop goes on.
\<close>

definition client_turn :: "bool client_prog" where
  "client_turn =
     seq (print (cs ''@gnutella$ ''))
    (bnd read_command (\<lambda>line.
     let temp = c_str line in
     if temp = [] then halt (UB OutOfBounds)
     else let command = butlast temp in
       if command = [] then ret True
       else seq (handle_command command)
           (seq handle_servent (ret (command \<noteq> EXIT_COMMAND)))))"

text \<open>Every turn takes a line, so the lines that are left bound the turns.\<close>

primrec client_turns :: "nat \<Rightarrow> unit client_prog" where
  "client_turns 0 = halt Diverges"
| "client_turns (Suc n) = bnd client_turn (\<lambda>continue. if continue then client_turns n else ret ())"

definition client_loop :: "int client_prog" where
  "client_loop =
     seq display_help
    (bnd (gets (\<lambda>s. Suc (length (stdin_lines s)))) (\<lambda>fuel.
     seq (client_turns fuel) (ret 0)))"

definition write_exit_packet :: "unit client_prog" where
  "write_exit_packet =
     bnd (gets server_socket) (\<lambda>fd. bnd (write_to_fd fd [CMSG_INT_EXIT]) (\<lambda>_. ret ()))"

definition clear_client :: "unit client_prog" where
  "clear_client =
     seq write_exit_packet
    (bnd (foreach machines_by_files (\<lambda>p entry.
       bnd (foreach (\<lambda>_. fl_machines entry) (\<lambda>_ _. ret (None :: unit option))) (\<lambda>_.
       seq (on_machines p list_destroy) (ret (None :: unit option))))) (\<lambda>_.
     seq (zoom machines_by_files put_machines list_destroy)
    (bnd (gets server_socket) (\<lambda>fd.
     seq (sys_close fd) (modify (\<lambda>s. s\<lparr>server_socket := - 1\<rparr>))))))"

definition run_client :: "cstr option \<Rightarrow> int client_prog" where
  "run_client connection_port =
     bnd (attempt_connect_to 3 (cs ''127.0.0.1'')
            (case connection_port of None \<Rightarrow> cs ''10001'' | Some p \<Rightarrow> p) 1) (\<lambda>(res, sk).
     if res = - 1 then ret 1
     else seq (modify (\<lambda>s. s\<lparr>server_socket := (case sk of None \<Rightarrow> server_socket s | Some k \<Rightarrow> k)\<rparr>)) (
       bnd client_handshake (\<lambda>res.
       if res = - 1 then ret (- 1)
       else seq (modify (\<lambda>s. s\<lparr>machines_by_files := list_create None create_lookup\<rparr>))
           (seq (bnd client_loop (\<lambda>_. ret ())) (seq clear_client (ret 0))))))"

section \<open>What the application knows\<close>

text \<open>The abstract knowledge: for each file searched, the machines that have it, in order.\<close>

type_synonym knowledge = "(cstr \<times> machine list) list"

definition mk_machine :: "machine \<Rightarrow> machine_t" where
  "mk_machine m = \<lparr>mc_ip = fst m, mc_port = snd m\<rparr>"

definition represents :: "file_lookup_t \<Rightarrow> cstr \<times> machine list \<Rightarrow> bool" where
  "represents e k \<longleftrightarrow> fl_filename e = fst k \<and> repr (fl_machines e) (map mk_machine (snd k))"

definition knows :: "file_lookup_t list_t \<Rightarrow> knowledge \<Rightarrow> bool" where
  "knows l ks \<longleftrightarrow> (\<exists>as. owns l as \<and> head l = first as 0 \<and> list_all2 represents (map snd as) ks)"

text \<open>
  Learning an answer: machines of a known file are added once each, those of a new file as
  they come.
\<close>

definition add_machine :: "machine list \<Rightarrow> machine \<Rightarrow> machine list" where
  "add_machine ms m = (if m \<in> set ms then ms else ms @ [m])"

primrec learn :: "cstr \<Rightarrow> machine list \<Rightarrow> knowledge \<Rightarrow> knowledge" where
  "learn f ms [] = [(f, ms)]"
| "learn f ms (k # ks) =
     (if fst k = f then (f, foldl add_machine (snd k) ms) # ks else k # learn f ms ks)"

lemma mk_machine_eq: "mk_machine m = mk_machine m' \<longleftrightarrow> m = m'"
  by (auto simp: mk_machine_def prod_eq_iff)

text \<open>A cell in the middle of a list, its record replaced.\<close>

lemma owns_cell:
  "owns l (as @ (p, e) # bs) \<Longrightarrow> cells l p = Some \<lparr>nxt = first bs 0, dat = e\<rparr> \<and> p \<noteq> 0"
  by (auto simp: owns_def)

lemma owns_replace:
  assumes "owns l (as @ (p, e) # bs)"
  shows "owns (l\<lparr>cells := (cells l)(p \<mapsto> \<lparr>nxt = first bs 0, dat = e'\<rparr>)\<rparr>) (as @ (p, e') # bs)"
proof -
  let ?m = "(cells l)(p \<mapsto> \<lparr>nxt = first bs 0, dat = e'\<rparr>)"
  have "p \<in> dom (cells l)" using owns_cell [OF assms] by auto
  then have d: "dom ?m = dom (cells l)" by auto
  have "linked ?m (as @ (p, e') # bs) 0" "distinct (map fst (as @ (p, e') # bs))"
    using assms by (auto simp: owns_def)
  moreover have "dom (cells l) = set (map fst (as @ (p, e') # bs))"
    using assms unfolding owns_def by simp
  moreover have "dom (cells l) \<subseteq> {1..<brk l}" "0 < brk l"
    using assms unfolding owns_def by blast+
  moreover have c: "cells (l\<lparr>cells := ?m\<rparr>) = ?m" "brk (l\<lparr>cells := ?m\<rparr>) = brk l" by simp_all
  ultimately show ?thesis unfolding owns_def c d by (intro conjI)
qed

lemma first_same_addr: "first (as @ (p, e) # bs) q = first (as @ (p, e') # bs) q"
  by (simp add: first_append)

text \<open>The record at \<open>p\<close>, between the cells \<open>as\<close> and \<open>bs\<close>, holding the machines \<open>ms\<close>.\<close>

definition record_at :: "(addr \<times> file_lookup_t) list \<Rightarrow> addr \<Rightarrow> (addr \<times> file_lookup_t) list
    \<Rightarrow> cstr \<Rightarrow> machine list \<Rightarrow> file_lookup_t list_t \<Rightarrow> bool" where
  "record_at as p bs f ms l \<longleftrightarrow> (\<exists>e. owns l (as @ (p, e) # bs) \<and>
     head l = first (as @ (p, e) # bs) 0 \<and> represents e (f, ms))"

lemma record_at_push:
  assumes "record_at as p bs f ms (machines_by_files s)"
  obtains l where "on_machines p (list_push_back_no_create (mk_machine m)) s = (Inr (), s\<lparr>machines_by_files := l\<rparr>)"
    and "record_at as p bs f (ms @ [m]) l"
proof -
  let ?l = "machines_by_files s"
  from assms obtain e where e: "owns ?l (as @ (p, e) # bs)" "head ?l = first (as @ (p, e) # bs) 0"
    "fl_filename e = f" "repr (fl_machines e) (map mk_machine ms)"
    by (auto simp: record_at_def represents_def)
  let ?e = "e\<lparr>fl_machines := pushed (fl_machines e) (mk_machine m)\<rparr>"
  let ?l' = "?l\<lparr>cells := (cells ?l)(p \<mapsto> \<lparr>nxt = first bs 0, dat = ?e\<rparr>)\<rparr>"
  note c = owns_cell [OF e(1)]
  note push = push_no_create_repr [OF e(4), of "mk_machine m"]
  have "on_machines p (list_push_back_no_create (mk_machine m)) s = (Inr (), s\<lparr>machines_by_files := ?l'\<rparr>)"
    using c push(1)
    by (simp add: on_machines_def machines_at_def bnd_run zoom_run load_def local_run_def set_machines_def)
  moreover have "record_at as p bs f (ms @ [m]) ?l'"
    unfolding record_at_def represents_def
    using owns_replace [OF e(1), of ?e] e(2,3) push(2) first_same_addr [of as p e bs 0 ?e]
    by (intro exI [of _ ?e]) simp
  ultimately show ?thesis by (rule that)
qed

lemma has_machine_run:
  assumes "repr l (map mk_machine ms)"
  shows "has_file_machine_record l ip port s = (Inr (if (ip, port) \<in> set ms then 1 else 0), s)"
proof -
  let ?body = "\<lambda>(_ :: addr) entry. if mc_ip entry = ip \<and> mc_port entry = port then ret (Some (1 :: int)) else ret None"
  from assms obtain as where as: "owns l as" "head l = first as 0" "map mk_machine ms = map snd as"
    by (auto simp: repr_def)
  have "foreach_spec ?body as s = (Inr (if (ip, port) \<in> set ms then Some 1 else None), s)"
    using as(3)
  proof (induction as arbitrary: ms)
    case (Cons a as)
    then obtain m ms' where ms: "ms = m # ms'" "mk_machine m = snd a" "map mk_machine ms' = map snd as"
      by (cases ms) auto
    have "mc_ip (snd a) = fst m" "mc_port (snd a) = snd m"
      using ms(2) [symmetric] by (simp_all add: mk_machine_def)
    then show ?case
      using Cons.IH [OF ms(3)] ms(1) by (auto simp: bnd_run prod_eq_iff)
  qed simp
  moreover have "foreach (\<lambda>_. l) ?body s = foreach_spec ?body as s"
    using as by (intro foreach_owned) auto
  ultimately show ?thesis by (simp add: has_file_machine_record_def bnd_run)
qed

lemma machines_at_run:
  assumes "record_at as p bs f ms (machines_by_files s)"
  obtains l where "machines_at p s = (Inr l, s)" and "repr l (map mk_machine ms)"
proof -
  from assms obtain e where e: "owns (machines_by_files s) (as @ (p, e) # bs)"
    "repr (fl_machines e) (map mk_machine ms)"
    by (auto simp: record_at_def represents_def)
  then have "machines_at p s = (Inr (fl_machines e), s)"
    using owns_cell [OF e(1)] by (simp add: machines_at_def bnd_run zoom_run load_def)
  then show ?thesis using e(2) by (rule that)
qed

text \<open>What reading one machine, and then all of them, does to the record.\<close>

definition learn_machine :: "bool \<Rightarrow> machine list \<Rightarrow> machine \<Rightarrow> machine list" where
  "learn_machine has_file ms m = (if has_file then add_machine ms m else ms @ [m])"

lemma skip_put: "skip_rx fd n (s\<lparr>machines_by_files := l\<rparr>) = (skip_rx fd n s)\<lparr>machines_by_files := l\<rparr>"
  by (simp add: skip_rx_def)

lemma client_skip [simp]:
  "server_socket (skip_rx fd n s) = server_socket s"
  "machines_by_files (skip_rx fd n s) = machines_by_files s"
  "stdin_lines (skip_rx fd n s) = stdin_lines s"
  by (simp_all add: skip_rx_def)

lemma read_machine_run:
  assumes "record_at as p bs f old (machines_by_files s)"
    and "avail (server_socket s) s = enc_machine m @ rest" and "wf_machine m"
  obtains l where "read_machine has_file p s =
      (Inr (), (skip_rx (server_socket s) (length (enc_machine m)) s)\<lparr>machines_by_files := l\<rparr>)"
    and "record_at as p bs f (learn_machine has_file old m) l"
proof -
  let ?fd = "server_socket s"
  obtain i q where m: "m = (i, q)" by (cases m)
  let ?s1 = "skip_rx ?fd (Suc (length i)) s"
  let ?s2 = "skip_rx ?fd (length (enc_machine m)) s"
  have s2: "skip_rx ?fd (Suc (length q)) ?s1 = ?s2"
    using assms(2) m by (subst skip_rx_skip_rx) (simp_all add: enc_machine_def)
  have 1: "read_lstr ?fd s = (Inr i, ?s1)"
    using assms(2,3) m
    by (intro read_lstr_avail [where rest = "enc_lstr q @ rest"]) (auto simp: enc_machine_def wf_machine_def)
  have "read_lstr ?fd ?s1 = (Inr q, skip_rx ?fd (Suc (length q)) ?s1)"
    using assms(2,3) m
    by (intro read_lstr_avail [where rest = rest]) (auto simp: enc_machine_def wf_machine_def)
  then have 2: "read_lstr ?fd ?s1 = (Inr q, ?s2)" unfolding s2 .
  have mk: "\<lparr>mc_ip = i, mc_port = q\<rparr> = mk_machine m" by (simp add: m mk_machine_def)
  have rec: "record_at as p bs f old (machines_by_files ?s2)" using assms(1) by simp
  obtain l where push: "on_machines p (list_push_back_no_create (mk_machine m)) ?s2 =
      (Inr (), ?s2\<lparr>machines_by_files := l\<rparr>)" "record_at as p bs f (old @ [m]) l"
    using record_at_push [OF rec, of m] by metis
  obtain ml where at: "machines_at p ?s2 = (Inr ml, ?s2)" "repr ml (map mk_machine old)"
    using machines_at_run [OF rec] by metis
  have has: "has_file_machine_record ml i q ?s2 = (Inr (if m \<in> set old then 1 else 0), ?s2)"
    using has_machine_run [OF at(2)] m by simp
  have run: "read_machine has_file p s = (if has_file \<and> m \<in> set old then (Inr (), ?s2)
      else (Inr (), ?s2\<lparr>machines_by_files := l\<rparr>))"
    using 1 2 push(1) at(1) has by (simp add: read_machine_def bnd_run Let_def mk)
  show ?thesis
  proof (cases "has_file \<and> m \<in> set old")
    case True
    then show ?thesis
      using run rec by (intro that [of "machines_by_files ?s2"]) (simp_all add: learn_machine_def add_machine_def)
  next
    case False
    then show ?thesis
      using run push(2) by (intro that [of l]) (auto simp: learn_machine_def add_machine_def)
  qed
qed

lemma read_machines_into_run:
  assumes "record_at as p bs f old (machines_by_files s)"
    and "avail (server_socket s) s = enc_machines ms @ rest" and "list_all wf_machine ms"
  shows "\<exists>l. read_machines_into (length ms) has_file p s =
      (Inr (), (skip_rx (server_socket s) (length (enc_machines ms)) s)\<lparr>machines_by_files := l\<rparr>) \<and>
    record_at as p bs f (foldl (learn_machine has_file) old ms) l"
  using assms
proof (induction ms arbitrary: s old)
  case Nil
  then show ?case by (intro exI [of _ "machines_by_files s"]) simp
next
  case (Cons m ms)
  let ?fd = "server_socket s"
  have av: "avail ?fd s = enc_machine m @ enc_machines ms @ rest" using Cons.prems(2) by simp
  have w: "wf_machine m" using Cons.prems(3) by simp
  obtain l where l: "read_machine has_file p s =
      (Inr (), (skip_rx ?fd (length (enc_machine m)) s)\<lparr>machines_by_files := l\<rparr>)"
    "record_at as p bs f (learn_machine has_file old m) l"
    using read_machine_run [OF Cons.prems(1) av, of has_file] w by metis
  let ?s1 = "(skip_rx ?fd (length (enc_machine m)) s)\<lparr>machines_by_files := l\<rparr>"
  have "\<exists>l'. read_machines_into (length ms) has_file p ?s1 =
      (Inr (), (skip_rx (server_socket ?s1) (length (enc_machines ms)) ?s1)\<lparr>machines_by_files := l'\<rparr>) \<and>
    record_at as p bs f (foldl (learn_machine has_file) (learn_machine has_file old m) ms) l'"
    using l(2) av Cons.prems(3) by (intro Cons.IH) (simp_all add: skip_put [symmetric] del: length_enc_machine)
  moreover have "skip_rx ?fd (length (enc_machines ms)) (skip_rx ?fd (length (enc_machine m)) s) =
      skip_rx ?fd (length (enc_machines (m # ms))) s"
    using av by (subst skip_rx_skip_rx) simp_all
  ultimately show ?case
    using l(1) by (auto simp: seq_run skip_put simp del: length_enc_machine skip_rx_skip_rx)
qed

text \<open>The search for a record: the address of the first one with the name.\<close>

lemma foreach_record:
  "foreach_spec (\<lambda>p entry. if fl_filename entry = f then ret (Some p) else ret None) as s =
     (Inr (map_option fst (List.find (\<lambda>a. fl_filename (snd a) = f) as)), s)"
  by (induction as) (simp_all add: bnd_run)

lemma has_file_record_run:
  assumes "owns (machines_by_files s) as" and "head (machines_by_files s) = first as 0"
  shows "has_file_record f s = (Inr (map_option fst (List.find (\<lambda>a. fl_filename (snd a) = f) as)), s)"
proof -
  have "foreach machines_by_files (\<lambda>p entry. if fl_filename entry = f then ret (Some p) else ret None) s =
      foreach_spec (\<lambda>p entry. if fl_filename entry = f then ret (Some p) else ret None) as s"
    using assms by (intro foreach_owned) auto
  then show ?thesis by (simp add: has_file_record_def foreach_record)
qed

lemma learn_new: "f \<notin> fst ` set ks \<Longrightarrow> learn f ms ks = ks @ [(f, ms)]"
  by (induction ks) auto

lemma learn_known: "f \<notin> fst ` set ks \<Longrightarrow> learn f ms (ks @ (f, old) # ks') = ks @ (f, foldl add_machine old ms) # ks'"
  by (induction ks) auto

lemma knows_split:
  assumes "list_all2 represents (map snd as) ks"
  obtains (new) "List.find (\<lambda>a. fl_filename (snd a) = f) as = None" and "f \<notin> fst ` set ks"
  | (known) as1 p e as2 ks1 old ks2 where "as = as1 @ (p, e) # as2" and "ks = ks1 @ (f, old) # ks2"
      and "List.find (\<lambda>a. fl_filename (snd a) = f) as = Some (p, e)" and "f \<notin> fst ` set ks1"
      and "list_all2 represents (map snd as1) ks1" and "list_all2 represents (map snd as2) ks2"
      and "represents e (f, old)"
proof -
  have "(List.find (\<lambda>a. fl_filename (snd a) = f) as = None \<and> f \<notin> fst ` set ks) \<or>
    (\<exists>as1 p e as2 ks1 old ks2. as = as1 @ (p, e) # as2 \<and> ks = ks1 @ (f, old) # ks2 \<and>
      List.find (\<lambda>a. fl_filename (snd a) = f) as = Some (p, e) \<and> f \<notin> fst ` set ks1 \<and>
      list_all2 represents (map snd as1) ks1 \<and> list_all2 represents (map snd as2) ks2 \<and>
      represents e (f, old))"
    using assms
  proof (induction as arbitrary: ks)
    case Nil
    then show ?case by simp
  next
    case (Cons a as)
    then obtain k ks' where ks: "ks = k # ks'" "represents (snd a) k" "list_all2 represents (map snd as) ks'"
      by (auto simp: list_all2_Cons1)
    show ?case
    proof (cases "fl_filename (snd a) = f")
      case True
      then have "k = (f, snd k)" using ks(2) by (simp add: represents_def prod_eq_iff)
      then show ?thesis
        using True ks by (intro disjI2 exI [of _ "[]"] exI [of _ "fst a"] exI [of _ "snd a"] exI [of _ as]
          exI [of _ "[] :: knowledge"] exI [of _ "snd k"] exI [of _ ks']) simp
    next
      case False
      then have k: "fst k \<noteq> f" using ks(2) by (simp add: represents_def)
      from Cons.IH [OF ks(3)] show ?thesis
      proof (elim disjE exE conjE)
        assume "List.find (\<lambda>a. fl_filename (snd a) = f) as = None" "f \<notin> fst ` set ks'"
        then show ?thesis using False k ks(1) by auto
      next
        fix as1 p e as2 ks1 old ks2
        assume "as = as1 @ (p, e) # as2" "ks' = ks1 @ (f, old) # ks2"
          "List.find (\<lambda>a. fl_filename (snd a) = f) as = Some (p, e)" "f \<notin> fst ` set ks1"
          "list_all2 represents (map snd as1) ks1" "list_all2 represents (map snd as2) ks2"
          "represents e (f, old)"
        then show ?thesis
          using False k ks by (intro disjI2 exI [of _ "a # as1"] exI [of _ p] exI [of _ e] exI [of _ as2]
            exI [of _ "k # ks1"] exI [of _ old] exI [of _ ks2]) auto
      qed
    qed
  qed
  then show ?thesis using new known by blast
qed

lemma knows_record:
  "record_at as p bs f ms l \<Longrightarrow> list_all2 represents (map snd as) ks \<Longrightarrow>
   list_all2 represents (map snd bs) ks' \<Longrightarrow> knows l (ks @ (f, ms) # ks')"
  unfolding record_at_def knows_def
  by (elim exE conjE, rule exI, intro conjI, assumption+) (auto intro!: list_all2_appendI)

text \<open>After the name of the file, the handler has a record for it.\<close>

lemma search_answer_record:
  assumes "knows (machines_by_files s) ks"
  obtains (known) as p bs old ks1 ks2 where "has_file_record f s = (Inr (Some p), s)"
      and "record_at as p bs f old (machines_by_files s)" and "ks = ks1 @ (f, old) # ks2"
      and "f \<notin> fst ` set ks1" and "list_all2 represents (map snd as) ks1"
      and "list_all2 represents (map snd bs) ks2"
  | (new) as where "has_file_record f s = (Inr None, s)" and "f \<notin> fst ` set ks"
      and "list_all2 represents (map snd as) ks"
      and "record_at as (brk (machines_by_files s)) [] f []
        (pushed (machines_by_files s) \<lparr>fl_filename = f, fl_machines = list_create None create_machine\<rparr>)"
      and "list_push_back_no_create \<lparr>fl_filename = f, fl_machines = list_create None create_machine\<rparr>
        (machines_by_files s) = (Inr (), pushed (machines_by_files s)
           \<lparr>fl_filename = f, fl_machines = list_create None create_machine\<rparr>)"
proof -
  from assms obtain as where as: "owns (machines_by_files s) as" "head (machines_by_files s) = first as 0"
    "list_all2 represents (map snd as) ks" by (auto simp: knows_def)
  note run = has_file_record_run [OF as(1,2), of f]
  from as(3) show ?thesis
  proof (cases rule: knows_split [where f = f])
    case new
    let ?e = "\<lparr>fl_filename = f, fl_machines = list_create None create_machine\<rparr>"
    note push = push_owned [OF as(1,2), of ?e]
    have "represents ?e (f, [])" by (simp add: represents_def repr_create)
    then have "record_at as (brk (machines_by_files s)) [] f [] (pushed (machines_by_files s) ?e)"
      unfolding record_at_def using push(2,3) by blast
    then show ?thesis using that(2) new run as(3) push(1) by simp
  next
    case (known as1 p e as2 ks1 old ks2)
    then have "record_at as1 p as2 f old (machines_by_files s)"
      using as(1,2) unfolding record_at_def by blast
    then show ?thesis using that(1) known run by simp
  qed
qed

section \<open>An application to evaluate the model on\<close>

definition sample_client :: client_t where
  "sample_client = os.extend sample_os \<lparr>server_socket = 4,
     machines_by_files = list_create None create_lookup, tok = [], stdin_lines = []\<rparr>"

lemma sample_client_facts [simp]:
  "server_socket sample_client = 4" "wx sample_client 4 = []" "evs sample_client = []"
  "knows (machines_by_files sample_client) []"
proof -
  show "server_socket sample_client = 4" "wx sample_client 4 = []" "evs sample_client = []"
    by (simp_all add: sample_client_def sample_os_def os.defs)
  have "repr (list_create None create_lookup) []" by (rule repr_create)
  then show "knows (machines_by_files sample_client) []"
    by (auto simp: knows_def repr_def sample_client_def os.defs)
qed

section \<open>Properties of the application\<close>

lemma learn_machine_foldl:
  "foldl (learn_machine True) old ms = foldl add_machine old ms"
  "foldl (learn_machine False) old ms = old @ ms"
proof -
  show "foldl (learn_machine True) old ms = foldl add_machine old ms"
    by (induction ms arbitrary: old) (simp_all add: learn_machine_def)
  show "foldl (learn_machine False) old ms = old @ ms"
    by (induction ms arbitrary: old) (simp_all add: learn_machine_def)
qed

text \<open>What follows the name of the file in an answer, for a record at hand.\<close>

lemma search_answer_tail:
  assumes "avail (server_socket s) s = enc_counted ms @ rest" and "wf_machines ms"
    and "record_at as p bs f old (machines_by_files s)"
  obtains l where "bnd (read_u8 (server_socket s)) (\<lambda>n. read_machines_into (unat n) has_file p) s =
      (Inr (), (skip_rx (server_socket s) (length (enc_counted ms)) s)\<lparr>machines_by_files := l\<rparr>)"
    and "record_at as p bs f (foldl (learn_machine has_file) old ms) l"
proof -
  let ?fd = "server_socket s"
  let ?s1 = "skip_rx ?fd 1 s"
  have w: "length ms < 256" "list_all wf_machine ms" using assms(2) by (auto simp: wf_machines_def)
  have u: "read_u8 ?fd s = (Inr (u8 (length ms)), ?s1)"
    using assms(1) by (intro read_u8_avail [where rest = "enc_machines ms @ rest"]) (simp add: enc_counted_def)
  have rec: "record_at as p bs f old (machines_by_files ?s1)" using assms(3) by simp
  have av: "avail (server_socket ?s1) ?s1 = enc_machines ms @ rest"
    using assms(1) by (simp add: enc_counted_def)
  obtain l where l: "read_machines_into (length ms) has_file p ?s1 =
      (Inr (), (skip_rx (server_socket ?s1) (length (enc_machines ms)) ?s1)\<lparr>machines_by_files := l\<rparr>)"
    "record_at as p bs f (foldl (learn_machine has_file) old ms) l"
    using read_machines_into_run [OF rec av w(2), of has_file] by metis
  have "skip_rx ?fd (length (enc_machines ms)) ?s1 = skip_rx ?fd (length (enc_counted ms)) s"
    using assms(1) by (subst skip_rx_skip_rx) (simp_all add: enc_counted_def)
  then show ?thesis
    using u l w by (intro that [of l]) (simp_all add: bnd_run del: skip_rx_skip_rx)
qed

text \<open>
  An answer of the servent is learnt: each machine is added to those known for the file
  unless it is known already. The answer that makes a file known is taken as it is, repeated
  machines included.
\<close>

lemma handle_search_answer_run:
  assumes "knows (machines_by_files s) ks" and "wf_lstr f" and "wf_machines ms"
    and "avail (server_socket s) s = tl (encode (PIntSearchAnswer f ms)) @ rest"
  shows "\<exists>l. handle_search_answer s = (Inr (), (skip_rx (server_socket s)
      (length (tl (encode (PIntSearchAnswer f ms)))) s)\<lparr>machines_by_files := l\<rparr>) \<and>
    knows l (learn f ms ks)"
proof -
  let ?fd = "server_socket s"
  let ?s1 = "skip_rx ?fd (Suc (length f)) s"
  have av: "avail ?fd s = enc_lstr f @ enc_counted ms @ rest" using assms(4) by simp
  have f: "read_lstr ?fd s = (Inr f, ?s1)" by (rule read_lstr_avail [OF av assms(2)])
  have av1: "avail ?fd ?s1 = enc_counted ms @ rest" using av by simp
  have sk: "skip_rx ?fd (length (enc_counted ms)) ?s1 = skip_rx ?fd (length (tl (encode (PIntSearchAnswer f ms)))) s"
    using av by (subst skip_rx_skip_rx) simp_all
  have "knows (machines_by_files ?s1) ks" using assms(1) by simp
  then show ?thesis
  proof (cases rule: search_answer_record [where f = f])
    case (known as p bs old ks1 ks2)
    obtain l where l: "bnd (read_u8 ?fd) (\<lambda>n. read_machines_into (unat n) True p) ?s1 =
        (Inr (), (skip_rx ?fd (length (enc_counted ms)) ?s1)\<lparr>machines_by_files := l\<rparr>)"
      "record_at as p bs f (foldl (learn_machine True) old ms) l"
      using search_answer_tail [of ?s1 ms rest as p bs f old True] av1 assms(3) known(2) by auto
    have "knows l (learn f ms ks)"
      using knows_record [OF l(2) known(5,6)] known(3,4) by (simp add: learn_known learn_machine_foldl)
    then show ?thesis
      using f known(1) l(1) sk by (intro exI [of _ l]) (simp add: handle_search_answer_def bnd_run
          del: skip_rx_skip_rx split: prod.splits sum.splits)
  next
    case (new as)
    let ?e = "\<lparr>fl_filename = f, fl_machines = list_create None create_machine\<rparr>"
    let ?p = "brk (machines_by_files s)"
    let ?s2 = "?s1\<lparr>machines_by_files := pushed (machines_by_files ?s1) ?e\<rparr>"
    have av2: "avail (server_socket ?s2) ?s2 = enc_counted ms @ rest" using av1 by simp
    obtain l where l: "bnd (read_u8 ?fd) (\<lambda>n. read_machines_into (unat n) False ?p) ?s2 =
        (Inr (), (skip_rx ?fd (length (enc_counted ms)) ?s2)\<lparr>machines_by_files := l\<rparr>)"
      "record_at as ?p [] f (foldl (learn_machine False) [] ms) l"
      using search_answer_tail [of ?s2 ms rest as ?p "[]" f "[]" False] av2 assms(3) new(4) by auto
    have "knows l (learn f ms ks)"
      using knows_record [OF l(2) new(3), of "[]"] new(2) by (simp add: learn_new learn_machine_foldl)
    then show ?thesis
      using f new(1,5) l(1) sk by (intro exI [of _ l]) (simp add: handle_search_answer_def bnd_run seq_run
          zoom_run skip_put del: skip_rx_skip_rx split: prod.splits sum.splits)
  qed
qed

lemma opened_client [simp]:
  "server_socket (opened fd s) = server_socket s" "machines_by_files (opened fd s) = machines_by_files s"
  by (simp_all add: opened_def polled_def)

lemma servent_answer_run:
  assumes "knows (machines_by_files s) ks" and "wf_lstr f" and "wf_machines ms"
    and "ready (server_socket s) s" and "avail (server_socket s) s = encode (PIntSearchAnswer f ms) @ rest"
  shows "\<exists>t. handle_servent s = (Inr (), t) \<and> avail (server_socket s) t = rest \<and>
    knows (machines_by_files t) (learn f ms ks)"
proof -
  let ?fd = "server_socket s"
  have a: "avail ?fd s = SMSG_INT_SEARCH # tl (encode (PIntSearchAnswer f ms)) @ rest" using assms(5) by simp
  obtain l where "handle_search_answer (opened ?fd s) = (Inr (), (skip_rx ?fd
      (length (tl (encode (PIntSearchAnswer f ms)))) (opened ?fd s))\<lparr>machines_by_files := l\<rparr>)"
    "knows l (learn f ms ks)"
    using handle_search_answer_run [of "opened ?fd s" ks f ms rest] assms(1-3) avail_opened [OF a] by auto
  then show ?thesis
    using poll_ready [OF assms(4)] opcode_read [OF a] avail_opened [OF a]
    by (simp add: handle_servent_def bnd_run del: encode.simps)
qed

lemma learn_lookup:
  "map_of (learn f ms ks) g = (if g = f then Some (case map_of ks f of None \<Rightarrow> ms | Some old \<Rightarrow> foldl add_machine old ms)
     else map_of ks g)"
  by (induction ks) auto

lemma set_add_machines: "set (foldl add_machine old ms) = set old \<union> set ms"
  by (induction ms arbitrary: old) (auto simp: add_machine_def)

lemma distinct_add_machines: "distinct old \<Longrightarrow> distinct (foldl add_machine old ms)"
  by (induction ms arbitrary: old) (auto simp: add_machine_def)

text \<open>
  C16. An answer of the servent is learnt: the table afterwards represents the knowledge before with the
  answer added, and what is known of other files is as before. For a file that was known, no machine
  is lost, every machine the answer names is known, and none is repeated that was not. For a
  file that was not, the machines are kept as they were sent, repeats included.
\<close>

theorem search_answer_learnt:
  assumes "knows (machines_by_files s) ks" and "wf_lstr f" and "wf_machines ms"
    and "ready (server_socket s) s" and "avail (server_socket s) s = encode (PIntSearchAnswer f ms) @ rest"
  shows "\<exists>t ks' new. handle_servent s = (Inr (), t) \<and> avail (server_socket s) t = rest \<and>
    knows (machines_by_files t) ks' \<and> map_of ks' f = Some new \<and> (\<forall>g. g \<noteq> f \<longrightarrow> map_of ks' g = map_of ks g) \<and>
    (case map_of ks f of None \<Rightarrow> new = ms
     | Some old \<Rightarrow> set new = set old \<union> set ms \<and> (distinct old \<longrightarrow> distinct new))"
proof -
  obtain t where "handle_servent s = (Inr (), t)" "avail (server_socket s) t = rest"
    "knows (machines_by_files t) (learn f ms ks)"
    using servent_answer_run [OF assms] by blast
  then show ?thesis
    by (intro exI [of _ t] exI [of _ "learn f ms ks"] exI [of _ "the (map_of (learn f ms ks) f)"])
      (simp add: learn_lookup set_add_machines distinct_add_machines split: option.splits)
qed

text \<open>The first answer for a file is kept with a machine it repeats; a later one adds each machine once.\<close>

definition told_client :: "machine list \<Rightarrow> client_t \<Rightarrow> client_t" where
  "told_client ms c = sample_client\<lparr>machines_by_files := machines_by_files c, script := (\<lambda>_. [])(Poll 4 := [1]),
     rx := (\<lambda>_. [])(4 := [Chunk (encode (PIntSearchAnswer [97] ms))])\<rparr>"

theorem search_answer_learnt_witness:
  "(\<exists>t ks. handle_servent (told_client [([49], [50]), ([49], [50])] sample_client) = (Inr (), t) \<and>
     knows (machines_by_files t) ks \<and> map_of ks [97] = Some [([49], [50]), ([49], [50])]) \<and>
   (\<exists>t u ks new. handle_servent (told_client [([49], [50])] sample_client) = (Inr (), t) \<and>
     handle_servent (told_client [([51], [52]), ([49], [50]), ([51], [52])] t) = (Inr (), u) \<and>
     knows (machines_by_files u) ks \<and> map_of ks [97] = Some new \<and>
     distinct new \<and> set new = {([49], [50]), ([51], [52])})"
proof -
  have f: "wf_lstr [97]" "wf_machines [([49], [50]), ([49], [50])]" "wf_machines [([49], [50])]"
    "wf_machines [([51], [52]), ([49], [50]), ([51], [52])]" "knows (machines_by_files (told_client ms sample_client)) []"
    "ready (server_socket (told_client ms c)) (told_client ms c)"
    "avail (server_socket (told_client ms c)) (told_client ms c) = encode (PIntSearchAnswer [97] ms) @ []"
    "machines_by_files (told_client ms c) = machines_by_files c" for ms c
    by (simp_all add: wf_lstr_def wf_machines_def wf_machine_def told_client_def ready_def enc_lstr_def)
  have first: "\<exists>t ks. handle_servent (told_client ms sample_client) = (Inr (), t) \<and> knows (machines_by_files t) ks \<and>
      map_of ks [97] = Some ms" if "wf_machines ms" for ms
  proof -
    from search_answer_learnt [OF f(5,1) that f(6,7)] obtain t ks new where
      "handle_servent (told_client ms sample_client) = (Inr (), t)" "knows (machines_by_files t) ks"
      "map_of ks [97] = Some new" "case map_of [] [97 :: byte] of None \<Rightarrow> new = ms
        | Some old \<Rightarrow> set new = set old \<union> set ms \<and> (distinct old \<longrightarrow> distinct new)"
      by (elim exE conjE) (rule that)
    then show ?thesis by (intro exI [of _ t] exI [of _ ks]) simp
  qed
  obtain t ks where t: "handle_servent (told_client [([49], [50])] sample_client) = (Inr (), t)"
    "knows (machines_by_files t) ks" "map_of ks [97] = Some [([49], [50])]"
    using first [OF f(3)] by blast
  have "knows (machines_by_files (told_client ms t)) ks" for ms using t(2) f(8) by simp
  from search_answer_learnt [OF this f(1,4,6,7)] obtain u ks' new where
    u: "handle_servent (told_client [([51], [52]), ([49], [50]), ([51], [52])] t) = (Inr (), u)"
    "knows (machines_by_files u) ks'" "map_of ks' [97] = Some new"
    "case map_of ks [97] of None \<Rightarrow> new = [([51], [52]), ([49], [50]), ([51], [52])]
      | Some old \<Rightarrow> set new = set old \<union> set [([51], [52]), ([49], [50]), ([51], [52])] \<and> (distinct old \<longrightarrow> distinct new)"
    by (elim exE conjE) (rule that)
  have new: "distinct new" "set new = {([49], [50]), ([51], [52])}" using u(4) t(3) by auto
  show ?thesis
    by (rule conjI [OF first [OF f(2)]])
      (intro exI conjI, rule t(1), rule u(1), rule u(2), rule u(3), rule new(1), rule new(2))
qed

text \<open>The tokens of a command.\<close>

lemma token_word:
  assumes "w \<noteq> []" and "SPACE \<notin> set w"
  shows "token [SPACE] (w @ SPACE # r) = (Some w, r)"
proof -
  obtain c v where w: "w = c # v" "c \<noteq> SPACE" "SPACE \<notin> set v" using assms by (cases w) auto
  have "takeWhile (\<lambda>b. b \<noteq> SPACE) (v @ SPACE # r) = v" "dropWhile (\<lambda>b. b \<noteq> SPACE) (v @ SPACE # r) = SPACE # r"
    using w(3) by (induction v) auto
  then show ?thesis using w by (simp add: token_def Let_def)
qed

lemma token_all:
  assumes "r \<noteq> []"
  shows "token [] r = (Some r, [])"
proof -
  have a: "dropWhile (\<lambda>b. b \<in> set []) r = r" by (cases r) auto
  have b: "takeWhile (\<lambda>b. b \<notin> set []) r = r" by (simp add: takeWhile_eq_all_conv)
  have c: "dropWhile (\<lambda>b. b \<notin> set []) r = []" by (simp add: dropWhile_eq_Nil_conv)
  show ?thesis unfolding token_def Let_def a b c using assms by simp
qed

lemma strtok_first:
  "w \<noteq> [] \<Longrightarrow> SPACE \<notin> set w \<Longrightarrow>
   strtok (Some (w @ SPACE # r)) [SPACE] s = (Inr (Some w), s\<lparr>tok := r\<rparr>)"
  by (simp add: strtok_def bnd_run seq_run token_word)

lemma strtok_next:
  "w \<noteq> [] \<Longrightarrow> SPACE \<notin> set w \<Longrightarrow>
   strtok None [SPACE] (s\<lparr>tok := w @ SPACE # r\<rparr>) = (Inr (Some w), s\<lparr>tok := r\<rparr>)"
  by (simp add: strtok_def bnd_run seq_run token_word)

lemma strtok_rest:
  "r \<noteq> [] \<Longrightarrow> strtok None [] (s\<lparr>tok := r\<rparr>) = (Inr (Some r), s\<lparr>tok := []\<rparr>)"
  by (simp add: strtok_def bnd_run seq_run token_all)

lemmas command_names = SEARCH_COMMAND_def DOWNLOAD_COMMAND_def LOOKUP_COMMAND_def HELP_COMMAND_def
  EXIT_COMMAND_def

text \<open>The effect of a command that sends one packet.\<close>

definition after_command :: "int \<Rightarrow> byte list \<Rightarrow> client_t \<Rightarrow> client_t" where
  "after_command fd bs s = s\<lparr>tok := [], evs := evs s @ [Wrote fd bs]\<rparr>"

lemma handle_command_dispatch:
  assumes "w \<noteq> []" and "SPACE \<notin> set w" and "SPACE \<notin> set HELP_COMMAND"
  shows "handle_command (w @ SPACE # r) s =
    (if w = DOWNLOAD_COMMAND then handle_download (s\<lparr>tok := r\<rparr>)
     else if w = SEARCH_COMMAND then handle_search (s\<lparr>tok := r\<rparr>)
     else if w = LOOKUP_COMMAND then handle_lookup (s\<lparr>tok := r\<rparr>) else (Inr (), s\<lparr>tok := r\<rparr>))"
proof -
  have "SPACE \<in> set (w @ SPACE # r)" by simp
  then have "w @ SPACE # r \<noteq> HELP_COMMAND" using assms(3) by metis
  then show ?thesis
    using strtok_first [OF assms(1,2)] by (simp add: handle_command_def bnd_run)
qed

lemma no_space: "SPACE \<notin> set HELP_COMMAND" "SPACE \<notin> set SEARCH_COMMAND" "SPACE \<notin> set DOWNLOAD_COMMAND"
  "SPACE \<notin> set LOOKUP_COMMAND"
  by (simp_all add: command_names cs_def SPACE_def)

lemma command_distinct: "SEARCH_COMMAND \<noteq> DOWNLOAD_COMMAND" "SEARCH_COMMAND \<noteq> []" "DOWNLOAD_COMMAND \<noteq> []"
  by (simp_all add: command_names cs_def)

text \<open>
  The command \<open>search f\<close> sends the search for \<open>f\<close> to the servent, spaces in the name included.
\<close>

lemma search_command_sent:
  assumes "name \<noteq> []" and "length name < 256" and "wx s (server_socket s) = []"
  shows "handle_command (SEARCH_COMMAND @ SPACE # name) s =
    (Inr (), after_command (server_socket s) (encode (PIntSearch name)) s)"
  using assms strtok_rest [of name s]
  by (simp add: handle_command_dispatch no_space command_distinct handle_search_def bnd_run Let_def
      write_to_packet_run write_lstr_run write_to_fd_free after_command_def)

text \<open>
  The command \<open>download ip port f\<close> sends the request to download \<open>f\<close> to the servent.
\<close>

lemma download_command_sent:
  assumes "wf_lstr ip" and "ip \<noteq> []" and "SPACE \<notin> set ip"
    and "wf_lstr port" and "port \<noteq> []" and "SPACE \<notin> set port"
    and "wf_lstr name" and "name \<noteq> []" and "wx s (server_socket s) = []"
  shows "handle_command (DOWNLOAD_COMMAND @ SPACE # ip @ SPACE # port @ SPACE # name) s =
    (Inr (), after_command (server_socket s) (encode (PIntDownload ip port name)) s)"
proof -
  let ?s1 = "s\<lparr>tok := ip @ SPACE # port @ SPACE # name\<rparr>"
  let ?s2 = "s\<lparr>tok := port @ SPACE # name\<rparr>"
  let ?s3 = "s\<lparr>tok := name\<rparr>"
  have 1: "strtok None [SPACE] ?s1 = (Inr (Some ip), ?s2)"
    using assms(2,3) by (rule strtok_next)
  have 2: "strtok None [SPACE] ?s2 = (Inr (Some port), ?s3)"
    using assms(5,6) by (rule strtok_next)
  have 3: "strtok None [] ?s3 = (Inr (Some name), s\<lparr>tok := []\<rparr>)"
    using assms(8) by (rule strtok_rest)
  show ?thesis
    using 1 2 3 assms
    by (simp add: handle_command_dispatch no_space command_distinct handle_download_def bnd_run Let_def
        write_to_packet_run write_lstr_run write_to_fd_free wf_lstr_def after_command_def)
qed

text \<open>
  A line of spaces crashes the application: \<open>strtok\<close> finds no token and \<open>strcmp\<close> reads NULL.
\<close>

lemma blank_command_crashes:
  assumes "command \<noteq> []" and "set command \<subseteq> {SPACE}"
  shows "fst (handle_command command s) = Inl (UB NullDeref)"
proof -
  have "command \<noteq> HELP_COMMAND"
  proof
    assume "command = HELP_COMMAND"
    then have "hd HELP_COMMAND \<in> {SPACE}" using assms hd_in_set by blast
    then show False by (simp add: command_names cs_def SPACE_def)
  qed
  moreover have "dropWhile (\<lambda>b. b \<in> set [SPACE]) command = []"
    using assms(2) by (simp add: dropWhile_eq_Nil_conv subset_iff)
  ultimately show ?thesis
    by (simp add: handle_command_def bnd_run seq_run strtok_def token_def Let_def)
qed

theorem blank_command_crashes_witness: "fst (handle_command [SPACE, SPACE] sample_client) = Inl (UB NullDeref)"
  by (rule blank_command_crashes) simp_all

text \<open>
  A file name of 256 bytes or more is cut without a warning to its length modulo 256.
\<close>

lemma long_name_cut:
  assumes "256 \<le> length name" and "wx s (server_socket s) = []"
  shows "handle_search (s\<lparr>tok := name\<rparr>) =
    (Inr (), after_command (server_socket s)
       (encode (PIntSearch (take (length name mod 256) name))) s)"
proof -
  have n: "name \<noteq> []" "length name mod 256 \<le> length name" using assms(1) by auto
  have "u8 (length name) = u8 (length name mod 256)"
    by (metis u8_unat unat_u8)
  then show ?thesis
    using assms n strtok_rest [of name s]
    by (simp add: handle_search_def bnd_run Let_def write_to_packet_run write_lstr_def unat_u8
        write_to_fd_free enc_lstr_def after_command_def min_absorb2)
qed

theorem long_name_cut_witness:
  "evs (snd (handle_search (sample_client\<lparr>tok := replicate 258 97\<rparr>))) =
     [Wrote 4 (encode (PIntSearch [97, 97]))]"
proof -
  have "take 2 (replicate 258 (97 :: byte)) = [97, 97]"
    by (simp add: take_replicate numeral_2_eq_2)
  then show ?thesis
    using long_name_cut [of "replicate 258 97" sample_client] by (simp add: after_command_def del: encode.simps)
qed

section \<open>The handshake\<close>

lemma client_handshake_sends:
  assumes "wx c (server_socket c) = []"
  obtains v t where "client_handshake c = (Inr v, t)"
    and "evs t = evs c @ [Wrote (server_socket c) [CMSG_INT_HANDSHAKE]]"
    and "avail (server_socket c) c = SMSG_INT_HANDSHAKE # y \<Longrightarrow> v = 0"
proof -
  let ?fd = "server_socket c"
  let ?c = "c\<lparr>evs := evs c @ [Wrote ?fd [CMSG_INT_HANDSHAKE]]\<rparr>"
  obtain r t where t: "read_from_fd ?fd 1 ?c = (Inr r, t)" "evs t = evs ?c"
    by (rule read_from_fd_quiet)
  have "snd r = [SMSG_INT_HANDSHAKE]" if "avail ?fd c = SMSG_INT_HANDSHAKE # y"
    using that t(1) read_from_fd_avail [where fd = ?fd and s = ?c and n = 1] by auto
  then show ?thesis
    using t assms by (intro that [of "if (case snd r of [] \<Rightarrow> 0 | b # _ \<Rightarrow> b) \<noteq> SMSG_INT_HANDSHAKE then - 1 else 0" t])
      (auto simp: client_handshake_def bnd_run write_to_fd_free split: prod.splits)
qed

end
