(* ===== verification/Client_Session.thy ===== *)
theory Client_Session
  imports Client
begin

text \<open>
  A whole run of the user application: it connects to its servent, shakes hands, takes commands, and
  when the user exits says so to the servent and closes the connection.
\<close>

section \<open>Turns in which the servent says nothing\<close>

text \<open>Lines that only make the application print: an empty one, and the command for the help.\<close>

definition idle_line :: "byte list \<Rightarrow> bool" where
  "idle_line l \<longleftrightarrow> l = newline \<or> l = HELP_COMMAND @ newline"

lemma print_all: "for_list xs (\<lambda>c. print (f c)) s = (Inr (), s\<lparr>evs := evs s @ map (\<lambda>c. Printed (f c)) xs\<rparr>)"
  by (induction xs arbitrary: s) (simp_all add: seq_run print_run)

lemma display_help_run: obtains ps where "\<And>s. display_help s = (Inr (), s\<lparr>evs := evs s @ map Printed ps\<rparr>)"
proof -
  have "display_help s = (Inr (), s\<lparr>evs := evs s @ map Printed (map (\<lambda>c. fst c @ newline @ tab @ snd c @ newline @ newline) commands)\<rparr>)" for s
    by (simp only: display_help_def print_all map_map comp_def)
  then show ?thesis using that by blast
qed

lemma servent_silent: "script s (Poll (server_socket s)) = [] \<Longrightarrow> handle_servent s = (Inr (), s)"
  by (simp add: handle_servent_def poll_fd_def bnd_run sys_def)

lemma idle_client_turn:
  assumes "idle_line l" and "stdin_lines s = l # ls" and "script s (Poll (server_socket s)) = []"
  obtains ps where "client_turn s = (Inr True, s\<lparr>stdin_lines := ls, evs := evs s @ map Printed ps\<rparr>)"
proof (cases "l = newline")
  case True
  then have "client_turn s = (Inr True, s\<lparr>stdin_lines := ls, evs := evs s @ map Printed [cs ''@gnutella$ '']\<rparr>)"
    using assms(2) by (simp add: client_turn_def seq_run bnd_run print_run read_command_def newline_def c_str_def)
  then show ?thesis by (rule that)
next
  case False
  then have l: "l = HELP_COMMAND @ newline" using assms(1) by (simp add: idle_line_def)
  have c: "c_str l = HELP_COMMAND @ newline" "butlast (HELP_COMMAND @ newline) = HELP_COMMAND"
    "HELP_COMMAND \<noteq> []" "HELP_COMMAND \<noteq> EXIT_COMMAND"
    by (simp_all add: l HELP_COMMAND_def EXIT_COMMAND_def newline_def cs_def c_str_def)
  obtain ps where h: "\<And>s. display_help s = (Inr (), s\<lparr>evs := evs s @ map Printed ps\<rparr>)" by (rule display_help_run) blast
  let ?t = "s\<lparr>stdin_lines := ls, evs := evs s @ map Printed (cs ''@gnutella$ '' # ps)\<rparr>"
  have "handle_servent ?t = (Inr (), ?t)" using assms(3) by (intro servent_silent) simp
  then have "client_turn s = (Inr True, ?t)"
    using assms(2) c by (simp add: client_turn_def seq_run bnd_run print_run read_command_def handle_command_def h)
  then show ?thesis by (rule that)
qed

lemma exit_client_turn:
  assumes "stdin_lines s = (EXIT_COMMAND @ newline) # ls" and "script s (Poll (server_socket s)) = []"
  shows "client_turn s = (Inr False, s\<lparr>stdin_lines := ls, tok := [], evs := evs s @ map Printed [cs ''@gnutella$ '']\<rparr>)"
proof -
  have c: "c_str (EXIT_COMMAND @ newline) = EXIT_COMMAND @ newline" "EXIT_COMMAND @ newline \<noteq> []"
    "butlast (EXIT_COMMAND @ newline) = EXIT_COMMAND" "EXIT_COMMAND \<noteq> []"
    "EXIT_COMMAND \<noteq> HELP_COMMAND" "token [SPACE] EXIT_COMMAND = (Some EXIT_COMMAND, [])"
    "EXIT_COMMAND \<noteq> DOWNLOAD_COMMAND" "EXIT_COMMAND \<noteq> SEARCH_COMMAND" "EXIT_COMMAND \<noteq> LOOKUP_COMMAND"
    by (simp_all add: HELP_COMMAND_def EXIT_COMMAND_def DOWNLOAD_COMMAND_def SEARCH_COMMAND_def LOOKUP_COMMAND_def
        newline_def cs_def c_str_def token_def SPACE_def)
  show ?thesis
    using assms c by (simp add: client_turn_def seq_run bnd_run print_run read_command_def handle_command_def
        strtok_def Let_def servent_silent)
qed

lemma session_turns:
  assumes "list_all idle_line ls" and "stdin_lines s = ls @ (EXIT_COMMAND @ newline) # later"
    and "script s (Poll (server_socket s)) = []" and "length ls < n"
  shows "\<exists>ps. client_turns n s = (Inr (), s\<lparr>stdin_lines := later, tok := [], evs := evs s @ map Printed ps\<rparr>)"
  using assms
proof (induction ls arbitrary: n s)
  case Nil
  then obtain m where n: "n = Suc m" by (cases n) auto
  have "client_turns n s = (Inr (), s\<lparr>stdin_lines := later, tok := [], evs := evs s @ map Printed [cs ''@gnutella$ '']\<rparr>)"
    using exit_client_turn [of s later] Nil.prems n by (simp add: bnd_run)
  then show ?case by blast
next
  case (Cons l ls)
  then obtain m where n: "n = Suc m" by (cases n) auto
  have l: "idle_line l" "stdin_lines s = l # ls @ (EXIT_COMMAND @ newline) # later" using Cons.prems(1,2) by simp_all
  obtain ps where t: "client_turn s = (Inr True, s\<lparr>stdin_lines := ls @ (EXIT_COMMAND @ newline) # later,
      evs := evs s @ map Printed ps\<rparr>)" by (rule idle_client_turn [OF l Cons.prems(3)])
  let ?t = "s\<lparr>stdin_lines := ls @ (EXIT_COMMAND @ newline) # later, evs := evs s @ map Printed ps\<rparr>"
  obtain qs where "client_turns m ?t = (Inr (), ?t\<lparr>stdin_lines := later, tok := [], evs := evs ?t @ map Printed qs\<rparr>)"
    using Cons.IH [of ?t m] Cons.prems n by auto
  then have "client_turns n s = (Inr (), s\<lparr>stdin_lines := later, tok := [], evs := evs s @ map Printed (ps @ qs)\<rparr>)"
    using t n by (simp add: bnd_run)
  then show ?case by blast
qed

section \<open>The start and the end\<close>

lemma handshake_answered:
  assumes "wx c (server_socket c) = []" and "avail (server_socket c) c = SMSG_INT_HANDSHAKE # y"
  shows "client_handshake c = (Inr 0, (skip_rx (server_socket c) 1 c)
    \<lparr>evs := evs c @ [Wrote (server_socket c) [CMSG_INT_HANDSHAKE]]\<rparr>)"
proof -
  let ?fd = "server_socket c"
  let ?c = "c\<lparr>evs := evs c @ [Wrote ?fd [CMSG_INT_HANDSHAKE]]\<rparr>"
  have "read_from_fd ?fd 1 ?c = (Inr (sint (of_nat 1 :: 32 word), take 1 (avail ?fd ?c)), skip_rx ?fd 1 ?c)"
    using assms(2) by (intro read_from_fd_avail) simp
  then show ?thesis
    using assms by (simp add: client_handshake_def bnd_run write_to_fd_free Let_def skip_rx_def)
qed

lemma clear_client_empty:
  assumes "repr (machines_by_files s) []" and "wx s (server_socket s) = []"
  shows "\<exists>l. clear_client s = (Inr (), s\<lparr>server_socket := - 1, machines_by_files := l,
    evs := evs s @ [Wrote (server_socket s) [CMSG_INT_EXIT], Closed (server_socket s)]\<rparr>)"
proof -
  let ?s = "s\<lparr>evs := evs s @ [Wrote (server_socket s) [CMSG_INT_EXIT]]\<rparr>"
  have e: "repr (machines_by_files ?s) []" using assms(1) by simp
  have none: "foreach machines_by_files body ?s = (Inr None, ?s)" for body :: "addr \<Rightarrow> file_lookup_t \<Rightarrow> unit option client_prog"
    using e by (auto simp: foreach_def repr_def owns_def bnd_run gr0_conv_Suc)
  show ?thesis
    using none list_destroy_repr [OF e] assms(2)
    by (intro exI [of _ "machines_by_files s\<lparr>cells := Map.empty, head := 0\<rparr>"]) (simp add: clear_client_def write_exit_packet_def seq_run bnd_run write_to_fd_free zoom_run sys_close_def emit_run)
qed

text \<open>
  The whole life of the application: once connected - at whatever attempt - it shakes hands, takes
  empty lines and requests for help as long as the user likes, and at \<open>exit\<close> tells the servent,
  closes the connection and returns \<open>EXIT_SUCCESS\<close>; nothing else was sent.
\<close>

lemma application_session:
  assumes "attempt_connect_to 3 (cs ''127.0.0.1'') (case port of None \<Rightarrow> cs ''10001'' | Some p \<Rightarrow> p) 1 c = (Inr (0, Some k), c1)"
    and "wx c1 k = []" and "avail k c1 = SMSG_INT_HANDSHAKE # rest" and "script c1 (Poll k) = []"
    and "list_all idle_line ls" and "stdin_lines c1 = ls @ (EXIT_COMMAND @ newline) # later"
  shows "\<exists>t es. run_client port c = (Inr 0, t) \<and> evs t = evs c1 @ es @ [Closed k] \<and>
    sent k es = CMSG_INT_HANDSHAKE # encode PIntExit \<and> server_socket t = - 1 \<and> stdin_lines t = later"
proof -
  let ?c2 = "c1\<lparr>server_socket := k\<rparr>"
  let ?c3 = "(skip_rx k 1 ?c2)\<lparr>evs := evs c1 @ [Wrote k [CMSG_INT_HANDSHAKE]], machines_by_files := list_create None create_lookup\<rparr>"
  have h: "client_handshake ?c2 = (Inr 0, (skip_rx k 1 ?c2)\<lparr>evs := evs c1 @ [Wrote k [CMSG_INT_HANDSHAKE]]\<rparr>)"
    using handshake_answered [of ?c2 rest] assms(2,3) by simp
  obtain hs where d: "\<And>s. display_help s = (Inr (), s\<lparr>evs := evs s @ map Printed hs\<rparr>)" by (rule display_help_run) blast
  let ?c4 = "?c3\<lparr>evs := evs ?c3 @ map Printed hs\<rparr>"
  have f: "stdin_lines ?c4 = ls @ (EXIT_COMMAND @ newline) # later" "script ?c4 (Poll (server_socket ?c4)) = []"
    "length ls < Suc (length (stdin_lines ?c4))"
    using assms(4,6) by (simp_all add: skip_rx_def)
  obtain ps where "client_turns (Suc (length (stdin_lines ?c4))) ?c4 =
      (Inr (), ?c4\<lparr>stdin_lines := later, tok := [], evs := evs ?c4 @ map Printed ps\<rparr>)"
    using session_turns [OF assms(5) f] by blast
  then have loop: "client_loop ?c3 = (Inr 0, ?c4\<lparr>stdin_lines := later, tok := [], evs := evs ?c4 @ map Printed ps\<rparr>)"
    by (simp add: client_loop_def seq_run bnd_run d del: client_turns.simps)
  let ?c5 = "?c4\<lparr>stdin_lines := later, tok := [], evs := evs ?c4 @ map Printed ps\<rparr>"
  have "repr (machines_by_files ?c5) []" "wx ?c5 (server_socket ?c5) = []"
    using assms(2) by (simp_all add: repr_create skip_rx_def)
  from clear_client_empty [OF this] obtain l where cl: "clear_client ?c5 = (Inr (), ?c5\<lparr>server_socket := - 1,
      machines_by_files := l, evs := evs ?c5 @ [Wrote k [CMSG_INT_EXIT], Closed k]\<rparr>)" (is "_ = (_, ?t)")
    by (auto simp: skip_rx_def)
  have "run_client port c = (Inr 0, ?t)"
    using assms(1) h loop cl by (simp add: run_client_def bnd_run seq_run del: cs_def)
  moreover have prints: "sent k (map Printed xs) = []" for xs by (induction xs) simp_all
  ultimately show ?thesis
    by (intro exI [of _ ?t] exI [of _ "Wrote k [CMSG_INT_HANDSHAKE] # map Printed hs @ map Printed ps @ [Wrote k [CMSG_INT_EXIT]]"])
      (simp add: prints)
qed

end
