(* ===== verification/Client_Lookup.thy ===== *)
theory Client_Lookup
  imports Client
begin

text \<open>
  The command \<open>lookup\<close> of the user application (\<open>client_lookup.c\<close>), against the abstract knowledge
  the table of the application represents.
\<close>

text \<open>What \<open>lookup f\<close> prints for a given knowledge.\<close>

definition lookup_output :: "knowledge \<Rightarrow> cstr \<Rightarrow> byte list list" where
  "lookup_output ks f = (case map_of ks f of
     None \<Rightarrow> [cs ''Aucune machine ne poss'' @ e_grave @ cs ''de le fichier '' @ f @ newline]
   | Some ms \<Rightarrow> (cs ''Machines poss'' @ e_acute @ cs ''dant le fichier '' @ f @ cs '':'' @ newline) #
       map (\<lambda>m. tab @ fst m @ cs '':'' @ snd m @ newline) ms @ [newline])"

text \<open>The walk over the machines of one record.\<close>

lemma print_machines:
  assumes "repr l (map mk_machine ms)"
  shows "foreach (\<lambda>_. l) (\<lambda>_ m. bnd (print (tab @ mc_ip m @ cs '':'' @ mc_port m @ newline)) (\<lambda>_. ret (None :: unit option))) s =
    (Inr None, s\<lparr>evs := evs s @ map (\<lambda>m. Printed (tab @ fst m @ cs '':'' @ snd m @ newline)) ms\<rparr>)"
proof -
  let ?body = "\<lambda>(_ :: addr) m. bnd (print (tab @ mc_ip m @ cs '':'' @ mc_port m @ newline)) (\<lambda>_. ret (None :: unit option))"
  from assms obtain as where as: "owns l as" "head l = first as 0" "map mk_machine ms = map snd as"
    by (auto simp: repr_def)
  have "foreach_spec ?body as t =
      (Inr None, t\<lparr>evs := evs t @ map (\<lambda>m. Printed (tab @ fst m @ cs '':'' @ snd m @ newline)) ms\<rparr>)" for t
    using as(3)
  proof (induction as arbitrary: ms t)
    case (Cons a as)
    then obtain m ms' where "ms = m # ms'" "mk_machine m = snd a" "map mk_machine ms' = map snd as"
      by (cases ms) auto
    moreover from this(2) [symmetric] have "mc_ip (snd a) = fst m" "mc_port (snd a) = snd m"
      by (simp_all add: mk_machine_def)
    ultimately show ?case using Cons.IH by (simp add: bnd_run print_run)
  qed simp
  moreover have "foreach (\<lambda>_. l) ?body s = foreach_spec ?body as s"
    by (rule foreach_owned [where getf = "\<lambda>_. l" and body = ?body]) (use as in simp_all)
  ultimately show ?thesis by simp
qed

lemma known_entry:
  assumes "knows (machines_by_files s) ks"
  shows "case map_of ks f of
     None \<Rightarrow> has_file_record f s = (Inr None, s)
   | Some ms \<Rightarrow> \<exists>p l. has_file_record f s = (Inr (Some p), s) \<and> repr l (map mk_machine ms) \<and>
       (\<forall>t. machines_by_files t = machines_by_files s \<longrightarrow> machines_at p t = (Inr l, t))"
proof -
  from assms obtain as where as: "owns (machines_by_files s) as" "head (machines_by_files s) = first as 0"
    "list_all2 represents (map snd as) ks" by (auto simp: knows_def)
  note run = has_file_record_run [OF as(1,2), of f]
  from as(3) show ?thesis
  proof (cases rule: knows_split [where f = f])
    case new
    then have "map_of ks f = None" by (simp add: map_of_eq_None_iff)
    then show ?thesis using run new(1) by simp
  next
    case (known as1 p e as2 ks1 old ks2)
    then have "map_of ks1 f = None" by (simp add: map_of_eq_None_iff)
    then have "map_of ks f = Some old" using known(2) by (simp add: map_add_def)
    moreover have "cells (machines_by_files s) p = Some \<lparr>nxt = first as2 0, dat = e\<rparr>" "p \<noteq> 0"
      using owns_cell [OF as(1) [unfolded known(1)]] by simp_all
    ultimately show ?thesis
      using run known(3,7)
      by (auto simp: represents_def machines_at_def bnd_run zoom_run load_def)
  qed
qed

text \<open>
  C38. The command \<open>lookup f\<close> prints the machines that are known to have the file, in the order they
  were learnt, or that there is none, and changes nothing else.
\<close>

theorem lookup_shows:
  assumes "knows (machines_by_files s) ks" and "name \<noteq> []"
  shows "handle_command (LOOKUP_COMMAND @ SPACE # name) s =
    (Inr (), s\<lparr>tok := [], evs := evs s @ map Printed (lookup_output ks name)\<rparr>)"
proof -
  let ?s = "s\<lparr>tok := []\<rparr>"
  have l: "LOOKUP_COMMAND \<noteq> []" "LOOKUP_COMMAND \<noteq> DOWNLOAD_COMMAND" "LOOKUP_COMMAND \<noteq> SEARCH_COMMAND"
    by (simp_all add: command_names cs_def)
  have "handle_command (LOOKUP_COMMAND @ SPACE # name) s = handle_lookup (s\<lparr>tok := name\<rparr>)"
    using l by (simp add: handle_command_dispatch no_space)
  moreover have "knows (machines_by_files ?s) ks" using assms(1) by simp
  note known = known_entry [OF this, of name]
  ultimately show ?thesis
    using strtok_rest [OF assms(2), of s] known
    by (auto simp: handle_lookup_def bnd_run seq_run print_run print_machines lookup_output_def comp_def split: option.splits)
qed

theorem lookup_shows_witness:
  "evs (snd (handle_command (LOOKUP_COMMAND @ SPACE # cs ''song'') sample_client)) =
     [Printed (cs ''Aucune machine ne poss'' @ e_grave @ cs ''de le fichier '' @ cs ''song'' @ newline)]"
proof -
  have "knows (machines_by_files sample_client) []" "cs ''song'' \<noteq> []"  "evs sample_client = []"
    by (simp_all add: cs_def)
  then show ?thesis
    using lookup_shows [of sample_client "[]" "cs ''song''"] by (simp add: lookup_output_def)
qed

end
