(* ===== verification/Client_Loop.thy ===== *)
theory Client_Loop
  imports Client Progress
begin

text \<open>
  The loop of the user application ends: every turn takes a line, nothing the servent sends makes
  a turn run forever, and whatever arrives the table of the machines stays well formed.
\<close>

section \<open>The table of machines\<close>

text \<open>The lines left are fixed, and the table represents some knowledge.\<close>

definition client_ok :: "byte list list \<Rightarrow> client_t \<Rightarrow> bool" where
  "client_ok ls s \<longleftrightarrow> stdin_lines s = ls \<and> (\<exists>ks. knows (machines_by_files s) ks)"

interpretation cl: os_frame "client_ok ls" for ls
  by unfold_locales (simp_all add: client_ok_def)

lemma ends_strtok: "ends (client_ok ls) (strtok x d)"
  unfolding strtok_def by (intro end_rules ends_modify) (simp add: client_ok_def)

lemma record_at_ok:
  "record_at as p bs f ms (machines_by_files s) \<Longrightarrow> list_all2 represents (map snd as) ks1 \<Longrightarrow>
   list_all2 represents (map snd bs) ks2 \<Longrightarrow> stdin_lines s = ls \<Longrightarrow> client_ok ls s"
  using knows_record unfolding client_ok_def by blast

text \<open>Reading from a descriptor leaves the table and the lines alone.\<close>

interpretation cf: os_frame "\<lambda>s :: client_t. machines_by_files s = l \<and> stdin_lines s = ls \<and> server_socket s = fd" for l ls fd
  by unfold_locales simp_all

lemma read_lstr_some:
  obtains x t where "read_lstr fd s = (Inr x, t)" and "machines_by_files t = machines_by_files (s :: client_t)"
    and "stdin_lines t = stdin_lines s" and "server_socket t = server_socket s"
proof -
  obtain x t where x: "read_lstr fd s = (Inr x, t)" using read_lstr_total by blast
  have "machines_by_files t = machines_by_files s \<and> stdin_lines t = stdin_lines s \<and> server_socket t = server_socket s"
    by (rule keepsD [OF cf.keeps_read_lstr _ x]) simp
  then show ?thesis using that x by blast
qed

lemma read_u8_some:
  obtains x t where "read_u8 fd s = (Inr x, t)" and "machines_by_files t = machines_by_files (s :: client_t)"
    and "stdin_lines t = stdin_lines s" and "server_socket t = server_socket s"
proof -
  obtain x t where x: "read_u8 fd s = (Inr x, t)" using read_u8_total by blast
  have "machines_by_files t = machines_by_files s \<and> stdin_lines t = stdin_lines s \<and> server_socket t = server_socket s"
    by (rule keepsD [OF cf.keeps_read_u8 _ x]) simp
  then show ?thesis using that x by blast
qed

text \<open>Whatever bytes arrive, a machine read is learnt.\<close>

lemma read_machine_any:
  assumes "record_at as p bs f old (machines_by_files s)"
  shows "\<exists>m t. read_machine has_file p s = (Inr (), t) \<and> stdin_lines t = stdin_lines s \<and>
    record_at as p bs f (learn_machine has_file old m) (machines_by_files t)"
proof -
  let ?fd = "server_socket s"
  obtain i s1 where 1: "read_lstr ?fd s = (Inr i, s1)" "machines_by_files s1 = machines_by_files s"
    "stdin_lines s1 = stdin_lines s" by (rule read_lstr_some)
  obtain q s2 where 2: "read_lstr ?fd s1 = (Inr q, s2)" "machines_by_files s2 = machines_by_files s"
    "stdin_lines s2 = stdin_lines s" by (rule read_lstr_some [of ?fd s1]) (simp add: 1)
  have rec: "record_at as p bs f old (machines_by_files s2)" using assms 2(2) by simp
  have mk: "\<lparr>mc_ip = i, mc_port = q\<rparr> = mk_machine (i, q)" by (simp add: mk_machine_def)
  obtain l where push: "on_machines p (list_push_back_no_create (mk_machine (i, q))) s2 =
      (Inr (), s2\<lparr>machines_by_files := l\<rparr>)" "record_at as p bs f (old @ [(i, q)]) l"
    using record_at_push [OF rec] by metis
  obtain ml where at: "machines_at p s2 = (Inr ml, s2)" "repr ml (map mk_machine old)"
    using machines_at_run [OF rec] by metis
  note has = has_machine_run [OF at(2), of i q s2]
  have run: "read_machine has_file p s = (if has_file \<and> (i, q) \<in> set old then (Inr (), s2)
      else (Inr (), s2\<lparr>machines_by_files := l\<rparr>))"
    using 1(1) 2(1) push(1) at(1) has by (simp add: read_machine_def bnd_run Let_def mk)
  show ?thesis
  proof (cases "has_file \<and> (i, q) \<in> set old")
    case True
    then show ?thesis using run rec 2(3)
      by (intro exI [of _ "(i, q)"] exI [of _ s2]) (simp add: learn_machine_def add_machine_def)
  next
    case False
    then show ?thesis using run push(2) 2(3)
      by (intro exI [of _ "(i, q)"] exI [of _ "s2\<lparr>machines_by_files := l\<rparr>"])
        (auto simp: learn_machine_def add_machine_def)
  qed
qed

lemma read_machines_any:
  assumes "record_at as p bs f old (machines_by_files s)"
  shows "\<exists>ms t. read_machines_into n has_file p s = (Inr (), t) \<and> stdin_lines t = stdin_lines s \<and>
    record_at as p bs f ms (machines_by_files t)"
  using assms
proof (induction n arbitrary: s old)
  case 0
  then show ?case by auto
next
  case (Suc n)
  obtain m t where 1: "read_machine has_file p s = (Inr (), t)" "stdin_lines t = stdin_lines s"
    "record_at as p bs f (learn_machine has_file old m) (machines_by_files t)"
    using read_machine_any [OF Suc.prems] by blast
  from Suc.IH [OF 1(3)] show ?case using 1(1,2) by (auto simp: seq_run)
qed

text \<open>So an answer to a search is handled without a fault, whatever it holds.\<close>

lemma handle_search_answer_any:
  assumes "client_ok ls s"
  shows "\<exists>t. handle_search_answer s = (Inr (), t) \<and> client_ok ls t"
proof -
  let ?fd = "server_socket s"
  obtain f s1 where 1: "read_lstr ?fd s = (Inr f, s1)" "machines_by_files s1 = machines_by_files s"
    "stdin_lines s1 = stdin_lines s" "server_socket s1 = ?fd" by (rule read_lstr_some)
  have rest: "\<exists>t. bnd (read_u8 ?fd) (\<lambda>n. read_machines_into (unat n) has_file p) u = (Inr (), t) \<and> client_ok ls t"
    if "record_at as p bs f old (machines_by_files u)" "stdin_lines u = ls"
      "list_all2 represents (map snd as) ks1" "list_all2 represents (map snd bs) ks2"
    for as p bs old has_file u ks1 ks2
  proof -
    obtain n u1 where u: "read_u8 ?fd u = (Inr n, u1)" "machines_by_files u1 = machines_by_files u"
      "stdin_lines u1 = stdin_lines u" by (rule read_u8_some)
    have r: "record_at as p bs f old (machines_by_files u1)" using that(1) u(2) by simp
    obtain ms t where "read_machines_into (unat n) has_file p u1 = (Inr (), t)" "stdin_lines t = stdin_lines u1"
      "record_at as p bs f ms (machines_by_files t)"
      using read_machines_any [OF r] by blast
    then show ?thesis using u that record_at_ok by (fastforce simp: bnd_run)
  qed
  obtain ks where "knows (machines_by_files s1) ks" "stdin_lines s1 = ls"
    using assms 1 by (auto simp: client_ok_def)
  then show ?thesis
  proof (cases rule: search_answer_record [where f = f])
    case (known as p bs old ks1 ks2)
    from rest [OF known(2) _ known(5,6), of True] \<open>stdin_lines s1 = ls\<close> show ?thesis
      using 1 known(1) by (simp add: handle_search_answer_def bnd_run split: prod.splits sum.splits)
  next
    case (new as)
    let ?u = "s1\<lparr>machines_by_files := pushed (machines_by_files s1)
      \<lparr>fl_filename = f, fl_machines = list_create None create_machine\<rparr>\<rparr>"
    have "\<exists>t. bnd (read_u8 ?fd) (\<lambda>n. read_machines_into (unat n) False (brk (machines_by_files s1))) ?u = (Inr (), t)
        \<and> client_ok ls t"
      using new(3,4) \<open>stdin_lines s1 = ls\<close>
      by (intro rest [where as = as and bs = "[]" and ?ks2.0 = "[]"]) simp_all
    then show ?thesis
      using 1 new(1,5) by (simp add: handle_search_answer_def bnd_run seq_run zoom_run split: prod.splits sum.splits)
  qed
qed

section \<open>The commands and the loop\<close>

lemma ends_handle_search: "ends (client_ok ls) handle_search"
  unfolding handle_search_def Let_def by (intro end_rules ends_strtok cl.ends_os)

lemma ends_handle_download: "ends (client_ok ls) handle_download"
  unfolding handle_download_def invalid_command_def Let_def
  by (intro end_rules ends_strtok cl.ends_os)

lemma ends_handle_download_answer: "ends (client_ok ls) handle_download_answer"
  unfolding handle_download_answer_def by (intro end_rules cl.ends_os)

lemma ends_display_help: "ends (client_ok ls) display_help"
  unfolding display_help_def by (intro end_rules cl.ends_os)

lemma handle_lookup_any: "ends (client_ok ls) (bnd (has_file_record f) (\<lambda>entry. case entry of
     Some p \<Rightarrow> seq (print (x p)) (bnd (machines_at p) (\<lambda>ms.
       bnd (foreach (\<lambda>_. ms) (\<lambda>_ m. bnd (print (y m)) (\<lambda>_. ret (None :: unit option)))) (\<lambda>_. print z)))
   | None \<Rightarrow> print v))"
proof -
  have walk: "ends (client_ok ls) (bnd (foreach (\<lambda>_. ml) (\<lambda>_ m. bnd (print (y m)) (\<lambda>_. ret (None :: unit option))))
      (\<lambda>_. print z))" if r: "repr ml xs" for ml :: "machine_t list_t" and xs
  proof -
    obtain as where "owns ml as" "head ml = first as 0" using r by (auto simp: repr_def)
    then have "foreach (\<lambda>_. ml) (\<lambda>_ m. bnd (print (y m)) (\<lambda>_. ret (None :: unit option))) =
        (foreach_spec (\<lambda>_ m. bnd (print (y m)) (\<lambda>_. ret None)) as :: unit option client_prog)"
      by (intro ext foreach_owned) auto
    then show ?thesis by (auto intro!: end_rules ends_foreach_spec cl.ends_os)
  qed
  show ?thesis
    unfolding ends_def
  proof (intro allI impI)
    fix s assume ok: "client_ok ls s"
    then obtain ks where k: "knows (machines_by_files s) ks" by (auto simp: client_ok_def)
    let ?m = "bnd (has_file_record f) (\<lambda>entry. case entry of
       Some p \<Rightarrow> seq (print (x p)) (bnd (machines_at p) (\<lambda>ms.
         bnd (foreach (\<lambda>_. ms) (\<lambda>_ m. bnd (print (y m)) (\<lambda>_. ret (None :: unit option)))) (\<lambda>_. print z)))
     | None \<Rightarrow> print v)"
    show "client_ok ls (snd (?m s)) \<and> fst (?m s) \<noteq> Inl Diverges"
      using k
    proof (cases rule: search_answer_record [where f = f])
      case (known as p bs old ks1 ks2)
      let ?s = "s\<lparr>evs := evs s @ [Printed (x p)]\<rparr>"
      have r: "record_at as p bs f old (machines_by_files ?s)" using known(2) by simp
      obtain ml where ml: "machines_at p ?s = (Inr ml, ?s)" "repr ml (map mk_machine old)"
        by (rule machines_at_run [OF r])
      have "client_ok ls ?s" using ok by (simp add: cl.frame_evs)
      then show ?thesis
        using known(1) ml(1) walk [OF ml(2)] by (simp add: bnd_run [of "has_file_record f"]
            bnd_run [of "machines_at p"] seq_run print_run ends_def)
    next
      case (new as)
      then show ?thesis using ok by (simp add: bnd_run print_run cl.frame_evs)
    qed
  qed
qed

lemma ends_handle_lookup: "ends (client_ok ls) handle_lookup"
  unfolding handle_lookup_def by (intro end_rules ends_strtok cl.ends_os handle_lookup_any)

lemma ends_handle_command: "ends (client_ok ls) (handle_command command)"
  unfolding handle_command_def
  by (intro end_rules ends_strtok ends_display_help ends_handle_download ends_handle_search ends_handle_lookup)

lemma ends_handle_search_answer: "ends (client_ok ls) handle_search_answer"
  by (rule ends_run) (use handle_search_answer_any in blast)

lemma ends_handle_servent: "ends (client_ok ls) handle_servent"
  unfolding handle_servent_def poll_fd_def
  by (intro end_rules cl.ends_os ends_handle_download_answer ends_handle_search_answer)

text \<open>A turn that goes on has taken a line.\<close>

lemma client_turn_ends:
  assumes "client_ok ls s" and "client_turn s = (r, t)"
  shows "r \<noteq> Inl Diverges" and "r = Inr True \<Longrightarrow> client_ok (tl ls) t \<and> ls \<noteq> []"
proof -
  let ?s = "s\<lparr>evs := evs s @ [Printed (cs ''@gnutella$ '')]\<rparr>"
  let ?body = "\<lambda>line. let temp = c_str line in
     if temp = [] then halt (UB OutOfBounds)
     else let command = butlast temp in
       if command = [] then ret True
       else seq (handle_command command) (seq handle_servent (ret (command \<noteq> EXIT_COMMAND)))"
  have body: "ends (client_ok k) (?body line)" for k line
    unfolding Let_def by (intro end_rules ends_handle_command ends_handle_servent)
  have run: "client_turn s = bnd read_command ?body ?s"
    by (simp add: client_turn_def seq_run print_run)
  have "r \<noteq> Inl Diverges \<and> (r = Inr True \<longrightarrow> client_ok (tl ls) t \<and> ls \<noteq> [])"
  proof (cases ls)
    case Nil
    then show ?thesis using assms run by (auto simp: bnd_run read_command_def client_ok_def)
  next
    case (Cons l k)
    then have "client_turn s = ?body l (?s\<lparr>stdin_lines := k\<rparr>)" "client_ok k (?s\<lparr>stdin_lines := k\<rparr>)"
      using assms(1) run by (simp_all add: bnd_run seq_run read_command_def client_ok_def)
    then show ?thesis using endsD [OF body, of k "?s\<lparr>stdin_lines := k\<rparr>" l r t] assms(2) Cons by simp
  qed
  then show "r \<noteq> Inl Diverges" and "r = Inr True \<Longrightarrow> client_ok (tl ls) t \<and> ls \<noteq> []" by auto
qed

lemma client_turns_end:
  "client_ok ls s \<Longrightarrow> length ls < n \<Longrightarrow> fst (client_turns n s) \<noteq> Inl Diverges"
proof (induction n arbitrary: ls s)
  case (Suc n)
  obtain r t where t: "client_turn s = (r, t)" by fastforce
  note turn = client_turn_ends [OF Suc.prems(1) t]
  show ?case
  proof (cases "r = Inr True")
    case True
    then have "fst (client_turns n t) \<noteq> Inl Diverges"
      using turn(2) Suc.prems(2) by (intro Suc.IH [of "tl ls"]) (auto simp: neq_Nil_conv)
    then show ?thesis using True t by (simp add: bnd_run)
  next
    case False
    then show ?thesis using turn(1) t by (auto simp: bnd_run split: sum.splits)
  qed
qed simp

text \<open>
  The loop of the user application ends, whatever lines are typed, whatever the servent sends
  and however the calls answer: the number of turns it is given is always enough.
\<close>

lemma client_loop_ends:
  assumes "knows (machines_by_files s) ks"
  shows "fst (client_loop s) \<noteq> Inl Diverges"
proof -
  have ok: "client_ok (stdin_lines s) s" using assms by (auto simp: client_ok_def)
  obtain r u where h: "display_help s = (r, u)" by fastforce
  then have u: "client_ok (stdin_lines s) u" "r \<noteq> Inl Diverges"
    using endsD [OF ends_display_help ok] by auto
  have "fst (client_turns (Suc (length (stdin_lines u))) u) \<noteq> Inl Diverges"
    using u(1) by (intro client_turns_end [of "stdin_lines u"]) (auto simp: client_ok_def)
  then show ?thesis
    using h u(2) by (auto simp: client_loop_def seq_run bnd_run split: sum.splits prod.splits)
qed

lemma sample_client_loop_ends: "fst (client_loop sample_client) \<noteq> Inl Diverges"
  by (rule client_loop_ends) (rule sample_client_facts)

end
