(* ===== verification/Client_Safe.thy ===== *)
theory Client_Safe
  imports Client_Loop Client_Session
begin

text \<open>
  The application from its connection to its end: it is free of undefined behaviour, whatever the
  servent sends, as long as the user types no line without a command and ends with \<open>exit\<close>. What
  stops it otherwise is SIGPIPE, when the servent has gone.
\<close>

section \<open>Sound programs\<close>

definition sound :: "('s \<Rightarrow> bool) \<Rightarrow> ('s, 'a) prog \<Rightarrow> bool" where
  "sound P m \<longleftrightarrow> (\<forall>s. P s \<longrightarrow> P (snd (m s)) \<and> (\<forall>e. fst (m s) = Inl e \<longrightarrow> e = Sigpipe))"

named_theorems sound_rules "rules that show that a program is sound"

lemma soundD: "sound P m \<Longrightarrow> P s \<Longrightarrow> m s = (r, t) \<Longrightarrow> P t \<and> (\<forall>e. r = Inl e \<longrightarrow> e = Sigpipe)"
  by (metis sound_def fst_conv snd_conv)

lemma sound_total: "keeps P m \<Longrightarrow> (\<And>s. \<exists>a t. m s = (Inr a, t)) \<Longrightarrow> sound P m"
  unfolding sound_def keeps_def by (metis fst_conv sum.distinct(1))

lemma sound_run: "(\<And>s. P s \<Longrightarrow> \<exists>a t. m s = (Inr a, t) \<and> P t) \<Longrightarrow> sound P m"
  unfolding sound_def by (metis fst_conv snd_conv sum.distinct(1))

lemma sound_ret [sound_rules]: "sound P (ret a)"
  by (simp add: sound_def)

lemma sound_gets [sound_rules]: "sound P (gets f)"
  by (simp add: sound_def)

lemma sound_modify: "(\<And>s. P s \<Longrightarrow> P (f s)) \<Longrightarrow> sound P (modify f)"
  by (simp add: sound_def)

lemma sound_bnd [sound_rules]: "sound P m \<Longrightarrow> (\<And>a. sound P (f a)) \<Longrightarrow> sound P (bnd m f)"
  unfolding sound_def bnd_def by (auto split: prod.splits sum.splits; metis fst_conv snd_conv)

lemma sound_seq [sound_rules]: "sound P m \<Longrightarrow> sound P k \<Longrightarrow> sound P (seq m k)"
  by (simp add: seq_def sound_bnd)

lemma sound_if [sound_rules]: "(b \<Longrightarrow> sound P m) \<Longrightarrow> (\<not> b \<Longrightarrow> sound P k) \<Longrightarrow> sound P (if b then m else k)"
  by simp

lemma sound_case_option [sound_rules]:
  "sound P m \<Longrightarrow> (\<And>x. sound P (f x)) \<Longrightarrow> sound P (case z of None \<Rightarrow> m | Some x \<Rightarrow> f x)"
  by (simp split: option.splits)

lemma sound_case_prod [sound_rules]: "(\<And>a b. sound P (f a b)) \<Longrightarrow> sound P (case z of (a, b) \<Rightarrow> f a b)"
  by (simp split: prod.splits)

lemma sound_for_list [sound_rules]: "(\<And>x. sound P (body x)) \<Longrightarrow> sound P (for_list xs body)"
  by (induction xs) (auto intro: sound_rules)

lemma sound_foreach_spec: "(\<And>p x. sound P (body p x)) \<Longrightarrow> sound P (foreach_spec body as)"
  by (induction as) (auto intro!: sound_rules)

text \<open>A packet as large as what is written into it.\<close>

definition cut :: "cstr \<Rightarrow> byte list" where
  "cut x = u8 (length x) # take (length x mod 256) x"

lemma length_cut: "length (cut x) \<le> Suc (length x)"
  by (simp add: cut_def)

lemma write_lstr_fits:
  "length (pbytes p) + Suc (length x) \<le> pcap p \<Longrightarrow>
   write_lstr p x s = (Inr (PBuf (pcap p) (pbytes p @ cut x)), s)"
  using mod_less_eq_dividend [of "length x" 256]
  by (simp add: write_lstr_def bnd_run write_to_packet_def unat_u8 cut_def)

lemma write_to_fd_stops: "fst (write_to_fd fd bs s) = Inl e \<Longrightarrow> e = Sigpipe"
proof (induction fd bs s rule: write_to_fd.induct)
  case (1 fd bs s)
  have "fst (sys_write fd bs s) = Inl e \<Longrightarrow> e = Sigpipe"
    by (simp add: sys_write_def Let_def split: list.splits wr.splits)
  then show ?case
    using "1" by (subst (asm) (2) write_to_fd.simps) (auto split: prod.splits sum.splits option.splits if_splits)
qed

context os_frame
begin

lemma sound_os [sound_rules]:
  "sound P (read_u8 fd)" "sound P (read_lstr fd)" "sound P (print x)" "sound P (sys c)" "sound P (write_to_fd fd bs)"
proof -
  show "sound P (read_u8 fd)" by (rule sound_total [OF keeps_read_u8 read_u8_total])
  show "sound P (read_lstr fd)" by (rule sound_total [OF keeps_read_lstr read_lstr_total])
  show "sound P (print x)" by (rule sound_total [OF keeps_print]) (simp add: print_run)
  show "sound P (sys c)" by (rule sound_total [OF keeps_sys sys_total])
  show "sound P (write_to_fd fd bs)"
    using keeps_write_to_fd write_to_fd_stops by (auto simp: sound_def keeps_def)
qed

end

section \<open>The commands\<close>

lemma sound_strtok [sound_rules]: "sound (client_ok ls) (strtok x d)"
  unfolding strtok_def by (intro sound_rules sound_modify) (simp add: client_ok_def)

lemma sound_handle_search: "sound (client_ok ls) handle_search"
proof -
  have send: "(let data = PBuf (PKT_ID_SIZE + 1 + length name) [] in
      bnd (write_to_packet data [CMSG_INT_SEARCH] PKT_ID_SIZE) (\<lambda>p.
      bnd (write_lstr p name) (\<lambda>p. bnd (write_to_fd fd (pbytes p)) (\<lambda>_. ret ())))) =
    (bnd (write_to_fd fd (CMSG_INT_SEARCH # cut name)) (\<lambda>_. ret ()) :: unit client_prog)" for name fd
    by (simp add: fun_eq_iff Let_def bnd_run write_to_packet_run write_lstr_fits)
  let ?f = "cs ''Erreur dans la commande de recherche. '' @ cs ''Tapez '' @ [34] @ cs ''help'' @ [34] @
    cs '' pour v'' @ e_acute @ cs ''rifier la syntaxe.'' @ newline"
  have "(vformat ?f [] = None) = False" by code_simp
  then obtain v where v: "vformat ?f [] = Some v" by auto
  have "sound (client_ok ls) (log_to_file LOG_LEVEL_ERROR 1 (Some ?f) [])"
    by (rule sound_total [OF cl.keeps_log_to_file])
      (simp add: log_to_file_def log_internal_def vsnprintf_def v bnd_run seq_run emit_run log_levels get_log_function_by_level_def
        del: append.simps append_assoc cs_def)
  then show ?thesis unfolding handle_search_def send by (intro sound_rules cl.sound_os)
qed


lemma sound_handle_download: "sound (client_ok ls) handle_download"
proof -
  have send: "(let data = PBuf (PKT_ID_SIZE + 1 + length ip + 1 + length port + 1 + length name) [] in
      bnd (write_to_packet data [CMSG_INT_DOWNLOAD] PKT_ID_SIZE) (\<lambda>p.
      bnd (write_lstr p ip) (\<lambda>p. bnd (write_lstr p port) (\<lambda>p. bnd (write_lstr p name) (\<lambda>p.
      bnd (write_to_fd fd (pbytes p)) (\<lambda>_. ret ())))))) =
    (bnd (write_to_fd fd (CMSG_INT_DOWNLOAD # cut ip @ cut port @ cut name)) (\<lambda>_. ret ()) :: unit client_prog)"
    for ip port name fd
    using length_cut [of ip] length_cut [of port]
    by (simp add: fun_eq_iff Let_def bnd_run write_to_packet_run write_lstr_fits)
  show ?thesis unfolding handle_download_def invalid_command_def send by (intro sound_rules cl.sound_os)
qed

lemma sound_handle_lookup: "sound (client_ok ls) handle_lookup"
proof -
  have walk: "sound (client_ok ls) (bnd (foreach (\<lambda>_. ml) (\<lambda>_ m. bnd (print (y m)) (\<lambda>_. ret (None :: unit option))))
      (\<lambda>_. print z))" if r: "repr ml xs" for ml :: "machine_t list_t" and xs y z
  proof -
    obtain as where "owns ml as" "head ml = first as 0" using r by (auto simp: repr_def)
    then have "foreach (\<lambda>_. ml) (\<lambda>_ m. bnd (print (y m)) (\<lambda>_. ret (None :: unit option))) =
        (foreach_spec (\<lambda>_ m. bnd (print (y m)) (\<lambda>_. ret None)) as :: unit option client_prog)"
      by (intro ext foreach_owned) auto
    then show ?thesis by (auto intro!: sound_rules sound_foreach_spec cl.sound_os)
  qed
  have lk: "sound (client_ok ls) (bnd (has_file_record f) (\<lambda>entry. case entry of
       Some p \<Rightarrow> seq (print (x p)) (bnd (machines_at p) (\<lambda>ms.
         bnd (foreach (\<lambda>_. ms) (\<lambda>_ m. bnd (print (y m)) (\<lambda>_. ret (None :: unit option)))) (\<lambda>_. print z)))
     | None \<Rightarrow> print v))" (is "sound _ ?m") for f x y z v
    unfolding sound_def
  proof (intro allI impI)
    fix s assume ok: "client_ok ls s"
    then obtain ks where k: "knows (machines_by_files s) ks" by (auto simp: client_ok_def)
    show "client_ok ls (snd (?m s)) \<and> (\<forall>e. fst (?m s) = Inl e \<longrightarrow> e = Sigpipe)"
      using k
    proof (cases rule: search_answer_record [where f = f])
      case (known as p bs old ks1 ks2)
      let ?s = "s\<lparr>evs := evs s @ [Printed (x p)]\<rparr>"
      have r: "record_at as p bs f old (machines_by_files ?s)" using known(2) by simp
      obtain ml where ml: "machines_at p ?s = (Inr ml, ?s)" "repr ml (map mk_machine old)"
        by (rule machines_at_run [OF r])
      have "client_ok ls ?s" using ok by (simp add: cl.frame_evs)
      then show ?thesis
        using known(1) ml(1) walk [OF ml(2)] by (simp add: bnd_run [of "has_file_record f"]
            bnd_run [of "machines_at p"] seq_run print_run sound_def)
    next
      case (new as)
      then show ?thesis using ok by (simp add: bnd_run print_run cl.frame_evs)
    qed
  qed
  show ?thesis unfolding handle_lookup_def by (intro sound_rules cl.sound_os lk)
qed

section \<open>A line\<close>

text \<open>A line holds a command, or nothing but its newline.\<close>

definition plain_line :: "byte list \<Rightarrow> bool" where
  "plain_line l \<longleftrightarrow> c_str l \<noteq> [] \<and> (butlast (c_str l) = [] \<or> (\<exists>b \<in> set (butlast (c_str l)). b \<noteq> SPACE))"

lemma token_some: "b \<in> set x \<Longrightarrow> b \<noteq> SPACE \<Longrightarrow> \<exists>t rest. token [SPACE] x = (Some t, rest)"
  by (auto simp: token_def Let_def dropWhile_eq_Nil_conv)

lemma sound_handle_command:
  assumes "\<exists>b \<in> set command. b \<noteq> SPACE"
  shows "sound (client_ok ls) (handle_command command)"
proof -
  obtain t rest where t: "token [SPACE] command = (Some t, rest)" using assms token_some by blast
  then have tok: "bnd (strtok (Some command) [SPACE]) (\<lambda>n. case n of None \<Rightarrow> halt (UB NullDeref) | Some name \<Rightarrow> f name) =
      seq (modify (\<lambda>s. s\<lparr>tok := rest\<rparr>)) (f t)" for f :: "cstr \<Rightarrow> unit client_prog"
    by (simp add: fun_eq_iff strtok_def bnd_run seq_run)
  have "sound (client_ok ls) (modify (\<lambda>s. s\<lparr>tok := rest\<rparr>))"
    by (rule sound_modify) (simp add: client_ok_def)
  then show ?thesis
    unfolding handle_command_def tok display_help_def
    by (intro sound_rules cl.sound_os sound_handle_download sound_handle_search sound_handle_lookup)
qed

lemma sound_handle_servent: "sound (client_ok ls) handle_servent"
proof -
  have "sound (client_ok ls) handle_search_answer"
    by (rule sound_run) (use handle_search_answer_any in blast)
  then show ?thesis
    unfolding handle_servent_def poll_fd_def handle_download_answer_def by (intro sound_rules cl.sound_os)
qed

text \<open>A turn on a plain line: it goes on or not, and has taken the line.\<close>

lemma plain_turn:
  assumes "client_ok (l # ls) s" and "plain_line l" and "client_turn s = (r, t)"
  shows "client_ok ls t" and "r = Inl Sigpipe \<or> r = Inr (butlast (c_str l) \<noteq> EXIT_COMMAND)"
proof -
  let ?s = "s\<lparr>evs := evs s @ [Printed (cs ''@gnutella$ '')], stdin_lines := ls\<rparr>"
  let ?c = "butlast (c_str l)"
  have ok: "client_ok ls ?s" using assms(1) by (simp add: client_ok_def)
  have run: "client_turn s = (if ?c = [] then ret True
      else seq (handle_command ?c) (seq handle_servent (ret (?c \<noteq> EXIT_COMMAND)))) ?s"
    using assms(1,2) by (simp add: client_turn_def seq_run bnd_run print_run read_command_def client_ok_def
        plain_line_def Let_def)
  have "client_ok ls t \<and> (r = Inl Sigpipe \<or> r = Inr (?c \<noteq> EXIT_COMMAND))"
  proof (cases "?c = []")
    case True
    then show ?thesis using run assms(3) ok by (auto simp: EXIT_COMMAND_def cs_def)
  next
    case False
    then have hc: "sound (client_ok ls) (handle_command ?c)"
      using assms(2) by (intro sound_handle_command) (auto simp: plain_line_def)
    obtain r1 t1 where 1: "handle_command ?c ?s = (r1, t1)" by fastforce
    note h = soundD [OF hc ok 1]
    obtain r2 t2 where 2: "handle_servent t1 = (r2, t2)" by fastforce
    note v = soundD [OF sound_handle_servent conjunct1 [OF h] 2]
    show ?thesis using run assms(3) False 1 2 h v by (auto simp: seq_run split: sum.splits)
  qed
  then show "client_ok ls t" and "r = Inl Sigpipe \<or> r = Inr (?c \<noteq> EXIT_COMMAND)" by auto
qed

lemma plain_turns:
  assumes "client_ok (ls @ (EXIT_COMMAND @ newline) # later) s" and "list_all plain_line ls" and "length ls < n"
    and "client_turns n s = (r, t)"
  shows "r = Inl Sigpipe \<or> r = Inr () \<and> (\<exists>k. client_ok k t \<and>
    (list_all (\<lambda>l. butlast (c_str l) \<noteq> EXIT_COMMAND) ls \<longrightarrow> k = later))"
  using assms
proof (induction ls arbitrary: n s)
  case Nil
  then obtain m where n: "n = Suc m" by (cases n) auto
  have p: "plain_line (EXIT_COMMAND @ newline)" "butlast (c_str (EXIT_COMMAND @ newline)) = EXIT_COMMAND"
    by (simp_all add: plain_line_def EXIT_COMMAND_def newline_def cs_def c_str_def SPACE_def)
  obtain q u where u: "client_turn s = (q, u)" by fastforce
  show ?case using plain_turn [OF _ p(1) u, of later] Nil.prems(1,4) n u p(2) by (auto simp: bnd_run)
next
  case (Cons l ls)
  then obtain m where n: "n = Suc m" by (cases n) auto
  obtain q u where u: "client_turn s = (q, u)" by fastforce
  have l: "plain_line l" and ok: "client_ok (l # ls @ (EXIT_COMMAND @ newline) # later) s" using Cons.prems by simp_all
  note turn = plain_turn [OF ok l u]
  show ?case
    using turn Cons.IH [of u m] Cons.prems(2-4) n u by (auto simp: bnd_run split: if_splits)
qed

text \<open>The loop as a whole.\<close>

lemma plain_loop:
  assumes "client_ok (ls @ (EXIT_COMMAND @ newline) # later) s" and "list_all plain_line ls" and "client_loop s = (r, t)"
  shows "r = Inl Sigpipe \<or> r = Inr 0 \<and> (\<exists>k. client_ok k t \<and>
    (list_all (\<lambda>l. butlast (c_str l) \<noteq> EXIT_COMMAND) ls \<longrightarrow> k = later))"
proof -
  have h: "sound (client_ok k) display_help" for k
    unfolding display_help_def by (intro sound_rules cl.sound_os)
  obtain q u where q: "display_help s = (q, u)" by fastforce
  note u = soundD [OF h assms(1) q]
  obtain q2 v where v: "client_turns (Suc (length (stdin_lines u))) u = (q2, v)" by fastforce
  have "length ls < Suc (length (stdin_lines u))" using u by (simp add: client_ok_def)
  note turns = plain_turns [OF conjunct1 [OF u] assms(2) this v]
  have run: "client_loop s = (case q of Inl e \<Rightarrow> (Inl e, u)
      | Inr _ \<Rightarrow> (case q2 of Inl e \<Rightarrow> (Inl e, v) | Inr _ \<Rightarrow> (Inr 0, v)))"
    using q v by (simp add: client_loop_def seq_run bnd_run del: client_turns.simps split: sum.split)
  show ?thesis using assms(3) [unfolded run] u turns by (auto split: sum.splits)
qed

section \<open>The end\<close>

text \<open>The records lose their machines one after the other; their cells stay.\<close>

definition clear_body :: "addr \<Rightarrow> file_lookup_t \<Rightarrow> unit option client_prog" where
  "clear_body p entry = bnd (foreach (\<lambda>_. fl_machines entry) (\<lambda>_ _. ret (None :: unit option))) (\<lambda>_.
     seq (on_machines p list_destroy) (ret None))"

lemma clear_body_run:
  assumes "owns (machines_by_files s) (as @ (p, e) # bs)" and "represents e k"
  obtains e' where "clear_body p e s = (Inr None, s\<lparr>machines_by_files := (machines_by_files s)
      \<lparr>cells := (cells (machines_by_files s))(p \<mapsto> \<lparr>nxt = first bs 0, dat = e'\<rparr>)\<rparr>\<rparr>)"
proof -
  have r: "repr (fl_machines e) (map mk_machine (snd k))" using assms(2) by (simp add: represents_def)
  then obtain cells where "owns (fl_machines e) cells" "head (fl_machines e) = first cells 0" by (auto simp: repr_def)
  then have "foreach (\<lambda>_. fl_machines e) (\<lambda>_ _. ret (None :: unit option)) s = foreach_spec (\<lambda>_ _. ret None) cells s"
    by (intro foreach_owned) auto
  moreover have "foreach_spec (\<lambda>_ _. ret (None :: unit option)) xs u = (Inr None, u)" for xs :: "(addr \<times> machine_t) list" and u :: client_t
    by (induction xs) (simp_all add: bnd_run)
  ultimately show ?thesis
    using that owns_cell [OF assms(1)] list_destroy_repr [OF r]
    by (simp add: clear_body_def bnd_run seq_run on_machines_def machines_at_def zoom_run load_def local_run_def set_machines_def)
qed

lemma clear_records:
  assumes "owns (machines_by_files s) (as @ bs)" and "list_all2 represents (map snd bs) ks" and "length bs < n"
  shows "\<exists>l bs'. foreach_loop machines_by_files clear_body n (first bs 0) s = (Inr None, s\<lparr>machines_by_files := l\<rparr>) \<and>
    owns l (as @ bs') \<and> map fst bs' = map fst bs \<and> head l = head (machines_by_files s)"
  using assms
proof (induction bs arbitrary: as ks n s)
  case Nil
  then obtain m where "n = Suc m" by (cases n) auto
  then show ?case using Nil by (intro exI [of _ "machines_by_files s"] exI [of _ "[]"]) simp
next
  case (Cons b bs)
  obtain p e where b: "b = (p, e)" by (cases b)
  obtain m where n: "n = Suc m" "length bs < m" using Cons.prems(3) by (cases n) auto
  obtain k ks' where k: "represents e k" "list_all2 represents (map snd bs) ks'"
    using Cons.prems(2) b by (auto simp: list_all2_Cons1)
  let ?l = "machines_by_files s"
  have o: "owns ?l (as @ (p, e) # bs)" using Cons.prems(1) b by simp
  obtain e' where r: "clear_body p e s = (Inr None, s\<lparr>machines_by_files := ?l\<lparr>cells := (cells ?l)(p \<mapsto> \<lparr>nxt = first bs 0, dat = e'\<rparr>)\<rparr>\<rparr>)"
    (is "_ = (_, ?t)") using clear_body_run [OF o k(1)] by blast
  have "owns (machines_by_files ?t) ((as @ [(p, e')]) @ bs)" using owns_replace [OF o, of e'] by simp
  from Cons.IH [OF this k(2) n(2)] obtain l bs' where
    l: "foreach_loop machines_by_files clear_body m (first bs 0) ?t = (Inr None, ?t\<lparr>machines_by_files := l\<rparr>)"
      "owns l ((as @ [(p, e')]) @ bs')" "map fst bs' = map fst bs" "head l = head (machines_by_files ?t)" by blast
  have "foreach_loop machines_by_files clear_body n (first (b # bs) 0) s = (Inr None, s\<lparr>machines_by_files := l\<rparr>)"
    using l(1) r owns_cell [OF o] n(1) b by (simp add: bnd_run zoom_run load_def)
  then show ?case using l(2-4) b by (intro exI [of _ l] exI [of _ "(p, e') # bs'"]) simp
qed

lemma first_addrs: "map fst bs' = map fst bs \<Longrightarrow> first bs' q = first bs q"
  by (cases bs'; cases bs) auto

interpretation mf: os_frame "\<lambda>s :: client_t. machines_by_files s = l" for l
  by unfold_locales simp_all

interpretation il: os_frame "\<lambda>s :: client_t. stdin_lines s = ls" for ls
  by unfold_locales simp_all

lemma clear_client_outcome:
  assumes "knows (machines_by_files s) ks" and "clear_client s = (r, t)"
  shows "r = Inl Sigpipe \<or> r = Inr ()"
proof -
  obtain q u where w: "write_exit_packet s = (q, u)" by fastforce
  have "sound (\<lambda>v. machines_by_files v = machines_by_files s) write_exit_packet"
    unfolding write_exit_packet_def by (intro sound_rules mf.sound_os)
  from soundD [OF this _ w] have u: "machines_by_files u = machines_by_files s" "\<And>e. q = Inl e \<Longrightarrow> e = Sigpipe" by auto
  obtain as where as: "owns (machines_by_files u) ([] @ as)" "head (machines_by_files u) = first as 0" "list_all2 represents (map snd as) ks"
    using assms(1) u(1) by (auto simp: knows_def)
  have "length as < brk (machines_by_files u)" using owns_short [OF as(1)] by simp
  from clear_records [OF as(1,3) this] obtain l bs where
    l: "foreach machines_by_files clear_body u = (Inr None, u\<lparr>machines_by_files := l\<rparr>)" "owns l bs" "map fst bs = map fst as"
      "head l = first as 0"
    using as(2) by (auto simp: foreach_def bnd_run)
  have "repr l (map snd bs)" using l(2,4) first_addrs [OF l(3)] by (auto simp: repr_def)
  note d = list_destroy_repr [OF this]
  have eq: "clear_client = seq write_exit_packet (bnd (foreach machines_by_files clear_body) (\<lambda>_.
      seq (zoom machines_by_files put_machines list_destroy) (bnd (gets server_socket) (\<lambda>fd.
      seq (sys_close fd) (modify (\<lambda>s. s\<lparr>server_socket := - 1\<rparr>))))))"
    by (simp add: clear_client_def clear_body_def [abs_def])
  show ?thesis
    using assms(2) [unfolded eq] w u(2) l(1) d by (cases q) (auto simp: seq_run bnd_run zoom_run sys_close_def emit_run)
qed

section \<open>Properties\<close>

lemma loop_then_clear:
  assumes "client_ok (ls @ (EXIT_COMMAND @ newline) # later) s" and "list_all plain_line ls"
    and "seq (bnd client_loop (\<lambda>_. ret ())) (seq clear_client (ret 0)) s = (r, t)"
  shows "r = Inl Sigpipe \<or> r = Inr 0"
proof -
  obtain q v where v: "client_loop s = (q, v)" by fastforce
  note loop = plain_loop [OF assms(1,2) v]
  obtain q3 w where w: "clear_client v = (q3, w)" by fastforce
  have end_ok: "q3 = Inl Sigpipe \<or> q3 = Inr ()" if "client_ok k v" for k
    using that clear_client_outcome [OF _ w] by (auto simp: client_ok_def)
  have run: "seq (bnd client_loop (\<lambda>_. ret ())) (seq clear_client (ret 0)) s = (case q of Inl e \<Rightarrow> (Inl e, v)
      | Inr _ \<Rightarrow> (case q3 of Inl e \<Rightarrow> (Inl e, w) | Inr _ \<Rightarrow> (Inr 0, w)))"
    using v w by (simp add: seq_run bnd_run split: sum.split)
  show ?thesis
    using assms(3) [unfolded run] loop end_ok by (auto split: sum.splits)
qed

lemma handshake_outcome:
  assumes "client_handshake c = (r, t)"
  shows "stdin_lines t = stdin_lines c" and "r = Inl Sigpipe \<or> (\<exists>res. r = Inr res \<and> (res = 0 \<or> res = - 1))"
proof -
  have "keeps (\<lambda>s. stdin_lines s = stdin_lines c) client_handshake"
    unfolding client_handshake_def Let_def by (intro keep_rules il.keeps_write_to_fd il.keeps_read_from_fd)
  from keepsD [OF this refl assms] show "stdin_lines t = stdin_lines c" .
  obtain q u where w: "write_to_fd (server_socket c) [CMSG_INT_HANDSHAKE] c = (q, u)" by fastforce
  obtain x v where "read_from_fd (server_socket c) PKT_ID_SIZE u = (Inr x, v)" by (rule read_from_fd_quiet)
  then show "r = Inl Sigpipe \<or> (\<exists>res. r = Inr res \<and> (res = 0 \<or> res = - 1))"
    using assms w write_to_fd_stops [of "server_socket c" "[CMSG_INT_HANDSHAKE]" c]
    by (cases q; cases x) (auto simp: client_handshake_def bnd_run Let_def split: if_splits)
qed

text \<open>
  C8. Once connected, the application is free of undefined behaviour, of assertions that fail and of
  loops without end, whatever the servent sends in whatever pieces, and whatever commands the user
  types: as long as no line is blank or starts with a NUL, and one is \<open>exit\<close>, it returns success
  after it has cleaned up, or -1 when the handshake failed, or is stopped by SIGPIPE.
\<close>

theorem application_safe:
  assumes "attempt_connect_to 3 (cs ''127.0.0.1'') (case port of None \<Rightarrow> cs ''10001'' | Some p \<Rightarrow> p) 1 c = (Inr (0, Some k), c1)"
    and "stdin_lines c1 = ls @ (EXIT_COMMAND @ newline) # later" and "list_all plain_line ls"
  shows "fst (run_client port c) = Inr 0 \<or> fst (run_client port c) = Inr (- 1) \<or> fst (run_client port c) = Inl Sigpipe"
proof -
  let ?c2 = "c1\<lparr>server_socket := k\<rparr>"
  obtain r t where h: "client_handshake ?c2 = (r, t)" by fastforce
  note hs = handshake_outcome [OF h]
  let ?t = "t\<lparr>machines_by_files := list_create None create_lookup\<rparr>"
  have "client_ok (ls @ (EXIT_COMMAND @ newline) # later) ?t"
    using hs(1) assms(2) by (auto simp: client_ok_def knows_def owns_def list_create_def intro!: exI [of _ "[]"])
  from loop_then_clear [OF this assms(3)]
  have "fst (seq (bnd client_loop (\<lambda>_. ret ())) (seq clear_client (ret (0 :: int))) ?t) \<in> {Inl Sigpipe, Inr 0}"
    by (metis insertCI prod.collapse)
  then show ?thesis
    using hs(2) h assms(1) by (auto simp: run_client_def bnd_run [of "attempt_connect_to x y z w" for x y z w]
        bnd_run [of client_handshake] seq_run [of "modify f" for f])
qed

definition busy_client :: client_t where
  "busy_client = sample_client\<lparr>script := (\<lambda>_. [])(SocketCall := [4], ConnectCall := [0]),
     rx := (\<lambda>_. [])(4 := [Chunk [SMSG_INT_HANDSHAKE]]),
     stdin_lines := [SEARCH_COMMAND @ [SPACE, 97, 10], LOOKUP_COMMAND @ newline, newline, EXIT_COMMAND @ newline]\<rparr>"

theorem application_safe_witness:
  "fst (run_client None busy_client) = Inr 0 \<or> fst (run_client None busy_client) = Inr (- 1) \<or>
   fst (run_client None busy_client) = Inl Sigpipe"
proof -
  let ?c1 = "busy_client\<lparr>script := (script busy_client)(SocketCall := [], ConnectCall := [])\<rparr>"
  have "attempt_connect_to 3 (cs ''127.0.0.1'') (case None of None \<Rightarrow> cs ''10001'' | Some p \<Rightarrow> p) 1 busy_client = (Inr (0, Some 4), ?c1)"
    by (simp add: numeral_3_eq_3 bnd_run connect_to_def connect_fuel_def connect_loop.simps sys_def busy_client_def
        sample_client_def sample_os_def os.defs cs_def)
  moreover have "stdin_lines ?c1 = [SEARCH_COMMAND @ [SPACE, 97, 10], LOOKUP_COMMAND @ newline, newline] @ (EXIT_COMMAND @ newline) # []"
    by (simp add: busy_client_def)
  moreover have "list_all plain_line [SEARCH_COMMAND @ [SPACE, 97, 10], LOOKUP_COMMAND @ newline, newline]"
    by code_simp
  ultimately show ?thesis by (rule application_safe)
qed

text \<open>
  C29. The command \<open>exit\<close> ends the loop of the application: whatever commands come before it, as long
  as none of these lines is blank, starts with a NUL or is itself \<open>exit\<close>, and whatever the servent
  sends, every line up to \<open>exit\<close> is taken in its turn, the loop returns 0, and the lines behind stay
  unread. Only SIGPIPE stops it earlier.
\<close>

theorem exit_ends_loop:
  assumes "knows (machines_by_files s) ks" and "stdin_lines s = ls @ (EXIT_COMMAND @ newline) # later"
    and "list_all (\<lambda>l. plain_line l \<and> butlast (c_str l) \<noteq> EXIT_COMMAND) ls" and "client_loop s = (r, t)"
  shows "r = Inl Sigpipe \<or> r = Inr 0 \<and> stdin_lines t = later"
proof -
  have "client_ok (ls @ (EXIT_COMMAND @ newline) # later) s" using assms(1,2) by (auto simp: client_ok_def)
  moreover have "list_all plain_line ls" "list_all (\<lambda>l. butlast (c_str l) \<noteq> EXIT_COMMAND) ls"
    using assms(3) by (simp_all add: list_all_iff)
  ultimately show ?thesis using plain_loop [OF _ _ assms(4)] by (fastforce simp: client_ok_def)
qed

definition typing_client :: client_t where
  "typing_client = sample_client\<lparr>stdin_lines := [SEARCH_COMMAND @ SPACE # cs ''a'' @ newline, newline,
     EXIT_COMMAND @ newline, HELP_COMMAND @ newline]\<rparr>"

lemma typing_client_facts:
  "server_socket typing_client = 4" "wx typing_client 4 = []" "script typing_client k = []"
  "knows (machines_by_files typing_client) []"
  using sample_client_facts by (simp_all add: typing_client_def) (simp add: sample_client_def sample_os_def os.defs)

theorem exit_ends_loop_witness:
  "\<exists>t. client_loop typing_client = (Inr 0, t) \<and> stdin_lines t = [HELP_COMMAND @ newline] \<and>
     Wrote 4 (encode (PIntSearch (cs ''a''))) \<in> set (evs t)"
proof -
  let ?ls = "[SEARCH_COMMAND @ SPACE # cs ''a'' @ newline, newline]"
  have l: "stdin_lines typing_client = ?ls @ (EXIT_COMMAND @ newline) # [HELP_COMMAND @ newline]"
    by (simp add: typing_client_def)
  have p: "list_all (\<lambda>l. plain_line l \<and> butlast (c_str l) \<noteq> EXIT_COMMAND) ?ls" by code_simp
  have c: "c_str (SEARCH_COMMAND @ SPACE # cs ''a'' @ newline) = (SEARCH_COMMAND @ SPACE # cs ''a'') @ newline"
    "butlast ((SEARCH_COMMAND @ SPACE # cs ''a'') @ newline) = SEARCH_COMMAND @ SPACE # cs ''a''"
    "SEARCH_COMMAND @ SPACE # cs ''a'' \<noteq> EXIT_COMMAND" "cs ''a'' \<noteq> []" "length (cs ''a'') < 256" by code_simp+
  obtain ps where d: "display_help typing_client = (Inr (), typing_client\<lparr>evs := evs typing_client @ map Printed ps\<rparr>)"
    by (rule display_help_run) blast
  let ?c = "typing_client\<lparr>evs := evs typing_client @ map Printed ps\<rparr>"
  let ?d = "?c\<lparr>evs := evs ?c @ [Printed (cs ''@gnutella$ '')], stdin_lines := [newline, EXIT_COMMAND @ newline, HELP_COMMAND @ newline]\<rparr>"
  let ?u = "after_command 4 (encode (PIntSearch (cs ''a''))) ?d"
  have h: "handle_command (SEARCH_COMMAND @ SPACE # cs ''a'') ?d = (Inr (), ?u)"
    using search_command_sent [OF c(4,5), of ?d] typing_client_facts by simp
  have "handle_servent ?u = (Inr (), ?u)"
    by (rule servent_silent) (simp add: after_command_def typing_client_facts)
  then have turn: "client_turn ?c = (Inr True, ?u)"
    using h c l by (simp add: client_turn_def seq_run bnd_run print_run read_command_def Let_def)
  have "\<exists>qs. client_turns 4 ?u = (Inr (), ?u\<lparr>stdin_lines := [HELP_COMMAND @ newline], tok := [], evs := evs ?u @ map Printed qs\<rparr>)"
    by (rule session_turns [where ls = "[newline]"]) (simp_all add: idle_line_def after_command_def typing_client_facts)
  then obtain qs where turns: "client_turns 4 ?u =
      (Inr (), ?u\<lparr>stdin_lines := [HELP_COMMAND @ newline], tok := [], evs := evs ?u @ map Printed qs\<rparr>)" by blast
  have n: "Suc (length (stdin_lines ?c)) = Suc 4" by (simp add: l)
  have "client_turns (Suc 4) ?c = client_turns 4 ?u"
    unfolding client_turns.simps(2) using turn by (simp only: bnd_run sum.case prod.case if_True)
  then have "client_turns (Suc (length (stdin_lines ?c))) ?c =
      (Inr (), ?u\<lparr>stdin_lines := [HELP_COMMAND @ newline], tok := [], evs := evs ?u @ map Printed qs\<rparr>)"
    using turns by (simp only: n)
  then have run: "client_loop typing_client = (Inr 0, ?u\<lparr>stdin_lines := [HELP_COMMAND @ newline], tok := [], evs := evs ?u @ map Printed qs\<rparr>)"
    by (simp add: client_loop_def seq_run bnd_run d del: client_turns.simps)
  show ?thesis using exit_ends_loop [OF typing_client_facts(4) l p run] run by (auto simp: after_command_def)
qed

end
