(* ===== verification/Boot.thy ===== *)
theory Boot
  imports Util
begin

text \<open>
  The command line of \<open>main.c\<close>: the three walks over \<open>argv\<close>, one before the servent is
  forked, one in the application and one in the servent. Each walk is a recursion on the index
  \<open>i\<close> of the code. \<open>inet_pton\<close> is a parameter, as in \<open>check_ip\<close>.
\<close>

section \<open>The options\<close>

definition HELP_SHORT :: cstr where "HELP_SHORT = cs ''-h''"
definition HELP_LONG :: cstr where "HELP_LONG = cs ''--help''"
definition FIRST_MACHINE_SHORT :: cstr where "FIRST_MACHINE_SHORT = cs ''-f''"
definition FIRST_MACHINE_LONG :: cstr where "FIRST_MACHINE_LONG = cs ''--first''"
definition CONTACT_POINT_SHORT :: cstr where "CONTACT_POINT_SHORT = cs ''-c''"
definition CONTACT_POINT_LONG :: cstr where "CONTACT_POINT_LONG = cs ''--contact''"
definition LISTEN_SHORT :: cstr where "LISTEN_SHORT = cs ''-l''"
definition LISTEN_LONG :: cstr where "LISTEN_LONG = cs ''--listen''"
definition REDIRECT_CLIENT_STDOUT :: cstr where "REDIRECT_CLIENT_STDOUT = cs ''-cout''"
definition REDIRECT_CLIENT_STDERR :: cstr where "REDIRECT_CLIENT_STDERR = cs ''-cerr''"
definition REDIRECT_SERVER_STDOUT :: cstr where "REDIRECT_SERVER_STDOUT = cs ''-sout''"
definition REDIRECT_SERVER_STDERR :: cstr where "REDIRECT_SERVER_STDERR = cs ''-serr''"

lemmas options = HELP_SHORT_def HELP_LONG_def FIRST_MACHINE_SHORT_def FIRST_MACHINE_LONG_def
  CONTACT_POINT_SHORT_def CONTACT_POINT_LONG_def LISTEN_SHORT_def LISTEN_LONG_def
  REDIRECT_CLIENT_STDOUT_def REDIRECT_CLIENT_STDERR_def REDIRECT_SERVER_STDOUT_def
  REDIRECT_SERVER_STDERR_def

definition is_listen :: "cstr \<Rightarrow> bool" where
  "is_listen v \<longleftrightarrow> v = LISTEN_LONG \<or> v = LISTEN_SHORT"

definition is_contact :: "cstr \<Rightarrow> bool" where
  "is_contact v \<longleftrightarrow> v = CONTACT_POINT_LONG \<or> v = CONTACT_POINT_SHORT"

definition is_first :: "cstr \<Rightarrow> bool" where
  "is_first v \<longleftrightarrow> v = FIRST_MACHINE_LONG \<or> v = FIRST_MACHINE_SHORT"

definition is_help :: "cstr \<Rightarrow> bool" where
  "is_help v \<longleftrightarrow> v = HELP_LONG \<or> v = HELP_SHORT"

record client_argv_t =
  ca_contact_port :: "cstr option"
  ca_stdout_redirect :: "cstr option"
  ca_stderr_redirect :: "cstr option"
  ca_error :: "cstr option"

record server_argv_t =
  sa_first_machine :: int
  sa_contact_ip :: "cstr option"
  sa_contact_port :: "cstr option"
  sa_listen_port :: "cstr option"
  sa_stdout_redirect :: "cstr option"
  sa_stderr_redirect :: "cstr option"
  sa_error :: "cstr option"

text \<open>After \<open>memset\<close>.\<close>

definition client_argv_zero :: client_argv_t where
  "client_argv_zero = \<lparr>ca_contact_port = None, ca_stdout_redirect = None,
     ca_stderr_redirect = None, ca_error = None\<rparr>"

definition server_argv_zero :: server_argv_t where
  "server_argv_zero = \<lparr>sa_first_machine = 0, sa_contact_ip = None, sa_contact_port = None,
     sa_listen_port = None, sa_stdout_redirect = None, sa_stderr_redirect = None, sa_error = None\<rparr>"

section \<open>The walks\<close>

text \<open>Whether the boot phase shows the help and exits.\<close>

definition handle_argv_boot :: "cstr list \<Rightarrow> bool" where
  "handle_argv_boot argv = list_ex is_help argv"

text \<open>
  The body of each loop: an early return with an error, or the increment and the record.
\<close>

definition message :: "string \<Rightarrow> cstr option" where
  "message x = Some (cs x @ [10])"

definition client_step :: "cstr list \<Rightarrow> nat \<Rightarrow> client_argv_t \<Rightarrow> client_argv_t + nat \<times> client_argv_t" where
  "client_step argv i infos =
     (let value = argv ! i; argc = length argv in
      if is_listen value then
        if argc \<le> i + 1 then
          Inl (infos\<lparr>ca_error := message ''Not enough parameters for internal contact port.''\<rparr>)
        else if check_port (argv ! (i + 1)) = 0 then
          Inl (infos\<lparr>ca_error := message ''Invalid internal contact port.''\<rparr>)
        else Inr (2, infos\<lparr>ca_contact_port := Some (argv ! (i + 1))\<rparr>)
      else if value = REDIRECT_CLIENT_STDOUT then
        if argc \<le> i + 1 then
          Inl (infos\<lparr>ca_error := message ''Not enough arguments to redirect stdout (client).''\<rparr>)
        else Inr (2, infos\<lparr>ca_stdout_redirect := Some (argv ! (i + 1))\<rparr>)
      else if value = REDIRECT_CLIENT_STDERR then
        if argc \<le> i + 1 then
          Inl (infos\<lparr>ca_error := message ''Not enough arguments to redirect stderr (client).''\<rparr>)
        else Inr (2, infos\<lparr>ca_stderr_redirect := Some (argv ! (i + 1))\<rparr>)
      else Inr (1, infos))"

definition server_step :: "(cstr \<Rightarrow> bool) \<Rightarrow> (cstr \<Rightarrow> bool) \<Rightarrow> cstr list \<Rightarrow> nat \<Rightarrow> server_argv_t
    \<Rightarrow> server_argv_t + nat \<times> server_argv_t" where
  "server_step pton4 pton6 argv i infos =
     (let value = argv ! i; argc = length argv in
      if is_first value then Inr (1, infos\<lparr>sa_first_machine := 1\<rparr>)
      else if is_contact value then
        if argc \<le> i + 2 then
          Inl (infos\<lparr>sa_error := message ''Not enough parameters for contact point.''\<rparr>)
        else if check_ip pton4 pton6 (argv ! (i + 1)) = 0 then
          Inl (infos\<lparr>sa_error := message ''Invalid contact IP.''\<rparr>)
        else if check_port (argv ! (i + 2)) = 0 then
          Inl (infos\<lparr>sa_error := message ''Invalid contact port.''\<rparr>)
        else Inr (3, infos\<lparr>sa_contact_ip := Some (argv ! (i + 1)),
                           sa_contact_port := Some (argv ! (i + 2))\<rparr>)
      else if is_listen value then
        if argc \<le> i + 1 then
          Inl (infos\<lparr>sa_error := message ''Not enough parameters for listening port.''\<rparr>)
        else if check_port (argv ! (i + 1)) = 0 then
          Inl (infos\<lparr>sa_error := message ''Invalid listening port.''\<rparr>)
        else Inr (2, infos\<lparr>sa_listen_port := Some (argv ! (i + 1))\<rparr>)
      else if value = REDIRECT_SERVER_STDOUT then
        if argc \<le> i + 1 then
          Inl (infos\<lparr>sa_error := message ''Not enough arguments to redirect stdout (server).''\<rparr>)
        else Inr (2, infos\<lparr>sa_stdout_redirect := Some (argv ! (i + 1))\<rparr>)
      else if value = REDIRECT_SERVER_STDERR then
        if argc \<le> i + 1 then
          Inl (infos\<lparr>sa_error := message ''Not enough arguments to redirect stderr (server).''\<rparr>)
        else Inr (2, infos\<lparr>sa_stderr_redirect := Some (argv ! (i + 1))\<rparr>)
      else Inr (1, infos))"

lemma step_increment:
  "client_step argv i ci = Inr (k, ci') \<Longrightarrow> 0 < k"
  "server_step pton4 pton6 argv i si = Inr (k, si') \<Longrightarrow> 0 < k"
  by (auto simp: client_step_def server_step_def Let_def split: if_splits)

function handle_argv_client :: "cstr list \<Rightarrow> nat \<Rightarrow> client_argv_t \<Rightarrow> client_argv_t" where
  "handle_argv_client argv i infos =
     (if i < length argv then
        (case client_step argv i infos of
           Inl infos \<Rightarrow> infos
         | Inr (increment, infos) \<Rightarrow> handle_argv_client argv (i + increment) infos)
      else infos)"
  by pat_completeness auto
termination
  by (relation "measure (\<lambda>(argv, i, infos). length argv - i)")
    (auto dest!: step_increment(1))

declare handle_argv_client.simps [simp del]

function handle_argv_server :: "(cstr \<Rightarrow> bool) \<Rightarrow> (cstr \<Rightarrow> bool) \<Rightarrow> cstr list \<Rightarrow> nat \<Rightarrow> server_argv_t
    \<Rightarrow> server_argv_t" where
  "handle_argv_server pton4 pton6 argv i infos =
     (if i < length argv then
        (case server_step pton4 pton6 argv i infos of
           Inl infos \<Rightarrow> infos
         | Inr (increment, infos) \<Rightarrow> handle_argv_server pton4 pton6 argv (i + increment) infos)
      else infos)"
  by pat_completeness auto
termination
  by (relation "measure (\<lambda>(pton4, pton6, argv, i, infos). length argv - i)")
    (auto dest!: step_increment(2))

declare handle_argv_server.simps [simp del]

text \<open>The walks from the start, on a record of zeros.\<close>

definition client_argv :: "cstr list \<Rightarrow> client_argv_t" where
  "client_argv argv = handle_argv_client argv 0 client_argv_zero"

definition server_argv :: "(cstr \<Rightarrow> bool) \<Rightarrow> (cstr \<Rightarrow> bool) \<Rightarrow> cstr list \<Rightarrow> server_argv_t" where
  "server_argv pton4 pton6 argv = handle_argv_server pton4 pton6 argv 0 server_argv_zero"

section \<open>The end of the records\<close>

text \<open>
  A field of the records is NULL or a string \<open>set_string\<close> has made. The results are what the
  pointers are afterwards, in the order of the calls.
\<close>

definition field_ptr :: "cstr option \<Rightarrow> cptr" where
  "field_ptr x = (case x of None \<Rightarrow> NullPtr | Some t \<Rightarrow> Live t)"

primrec free_fields :: "cptr list \<Rightarrow> ('s, cptr list) prog" where
  "free_fields [] = ret []"
| "free_fields (p # ps) = bnd (free_not_null p) (\<lambda>q. bnd (free_fields ps) (\<lambda>qs. ret (q # qs)))"

definition clear_client_argv :: "client_argv_t \<Rightarrow> ('s, cptr list) prog" where
  "clear_client_argv argv = free_fields (map field_ptr
     [ca_contact_port argv, ca_stdout_redirect argv, ca_stderr_redirect argv, ca_error argv])"

definition clear_server_argv :: "server_argv_t \<Rightarrow> ('s, cptr list) prog" where
  "clear_server_argv argv = free_fields (map field_ptr
     [sa_contact_ip argv, sa_contact_port argv, sa_listen_port argv,
      sa_stdout_redirect argv, sa_stderr_redirect argv, sa_error argv])"

lemma free_fields_run:
  "FreedPtr \<notin> set ps \<Longrightarrow> free_fields ps s = (Inr (map (\<lambda>p. if p = NullPtr then NullPtr else FreedPtr) ps), s)"
  by (induction ps) (auto simp: bnd_run free_not_null_def const_free_def split: cptr.splits)

text \<open>Every string is freed once, whatever the command line was.\<close>

lemma clear_argv_run:
  "\<exists>ps. clear_client_argv ci s = (Inr ps, s)" "\<exists>ps. clear_server_argv si t = (Inr ps, t)"
proof -
  have "field_ptr x \<noteq> FreedPtr" for x by (simp add: field_ptr_def split: option.split)
  then have live: "FreedPtr \<notin> set (map field_ptr xs)" for xs by (auto simp: image_iff) metis
  show "\<exists>ps. clear_client_argv ci s = (Inr ps, s)" "\<exists>ps. clear_server_argv si t = (Inr ps, t)"
    unfolding clear_client_argv_def clear_server_argv_def free_fields_run [OF live] by blast+
qed

section \<open>Properties\<close>

text \<open>What the servent is started with: ports that \<open>check_port\<close> accepts, a whole contact point.\<close>

definition server_argv_ok :: "(cstr \<Rightarrow> bool) \<Rightarrow> (cstr \<Rightarrow> bool) \<Rightarrow> server_argv_t \<Rightarrow> bool" where
  "server_argv_ok pton4 pton6 infos \<longleftrightarrow>
     (\<forall>p. sa_listen_port infos = Some p \<longrightarrow> check_port p = 1) \<and>
     (case sa_contact_ip infos of
        None \<Rightarrow> sa_contact_port infos = None
      | Some ip \<Rightarrow> (pton4 ip \<or> pton6 ip) \<and>
          (\<exists>p. sa_contact_port infos = Some p \<and> check_port p = 1))"

lemma check_ip_ok: "check_ip pton4 pton6 ip \<noteq> 0 \<longleftrightarrow> pton4 ip \<or> pton6 ip"
  by (simp add: check_ip_def)

lemma check_port_ok: "check_port x \<noteq> 0 \<longleftrightarrow> check_port x = 1"
  using check_port_01 [of x] by auto

lemma server_step_cases:
  "server_step pton4 pton6 argv i infos = Inl r \<Longrightarrow> \<exists>e. r = infos\<lparr>sa_error := Some e\<rparr>"
  "server_step pton4 pton6 argv i infos = Inr (k, r) \<Longrightarrow>
     r = infos \<or> r = infos\<lparr>sa_first_machine := 1\<rparr> \<or>
     (\<exists>ip p. r = infos\<lparr>sa_contact_ip := Some ip, sa_contact_port := Some p\<rparr> \<and>
        check_ip pton4 pton6 ip \<noteq> 0 \<and> check_port p \<noteq> 0) \<or>
     (\<exists>p. r = infos\<lparr>sa_listen_port := Some p\<rparr> \<and> check_port p \<noteq> 0) \<or>
     (\<exists>f. r = infos\<lparr>sa_stdout_redirect := Some f\<rparr>) \<or> (\<exists>f. r = infos\<lparr>sa_stderr_redirect := Some f\<rparr>)"
  by (auto simp: server_step_def message_def Let_def split: if_splits)

lemma server_step_ok:
  assumes "server_argv_ok pton4 pton6 infos"
  shows "server_step pton4 pton6 argv i infos = Inl r \<Longrightarrow> server_argv_ok pton4 pton6 r"
    and "server_step pton4 pton6 argv i infos = Inr (k, r) \<Longrightarrow> server_argv_ok pton4 pton6 r"
proof -
  show "server_argv_ok pton4 pton6 r" if "server_step pton4 pton6 argv i infos = Inl r"
    using server_step_cases(1) [OF that] assms by (auto simp: server_argv_ok_def split: option.splits)
  show "server_argv_ok pton4 pton6 r" if "server_step pton4 pton6 argv i infos = Inr (k, r)"
    using server_step_cases(2) [OF that] assms
    by (elim disjE exE conjE)
      (simp_all add: server_argv_ok_def check_ip_ok check_port_ok split: option.splits)
qed

lemma server_walk_ok:
  "server_argv_ok pton4 pton6 infos \<Longrightarrow> server_argv_ok pton4 pton6 (handle_argv_server pton4 pton6 argv i infos)"
proof (induction pton4 pton6 argv i infos rule: handle_argv_server.induct)
  case (1 pton4 pton6 argv i infos)
  note ok = server_step_ok [OF "1.prems", of argv i]
  show ?case
  proof (cases "i < length argv")
    case True
    show ?thesis
    proof (cases "server_step pton4 pton6 argv i infos")
      case (Inl r)
      then show ?thesis using True ok(1) by (subst handle_argv_server.simps) simp
    next
      case (Inr q)
      obtain k r where q: "q = (k, r)" by (cases q)
      have "server_argv_ok pton4 pton6 (handle_argv_server pton4 pton6 argv (i + k) r)"
        using "1.IH" [OF True] Inr q ok(2) by simp
      then show ?thesis using True Inr q by (subst handle_argv_server.simps) simp
    qed
  next
    case False
    then show ?thesis using "1.prems" by (subst handle_argv_server.simps) simp
  qed
qed

text \<open>
  Whatever the command line, the servent is started with no port that \<open>check_port\<close> refuses
  and with a contact point that is given whole or not at all.
\<close>

lemma server_argv_fields_ok: "server_argv_ok pton4 pton6 (server_argv pton4 pton6 argv)"
  unfolding server_argv_def
  by (rule server_walk_ok) (simp add: server_argv_ok_def server_argv_zero_def)

text \<open>Arguments the walks of both processes read the same way.\<close>

definition no_redirect :: "cstr \<Rightarrow> bool" where
  "no_redirect v \<longleftrightarrow> v \<notin> {REDIRECT_CLIENT_STDOUT, REDIRECT_CLIENT_STDERR,
     REDIRECT_SERVER_STDOUT, REDIRECT_SERVER_STDERR}"

lemma argv_client_skip:
  assumes "i < length argv" and "\<not> is_listen (argv ! i)" and "no_redirect (argv ! i)"
  shows "handle_argv_client argv i c = handle_argv_client argv (i + 1) c"
  using assms by (subst handle_argv_client.simps) (simp add: client_step_def Let_def no_redirect_def)

lemma check_port_minus: "\<not> is_digit c \<Longrightarrow> check_port (45 # c # r) = 0"
  by (simp add: check_port_def strtol_def Let_def is_space_def)

lemma check_port_listen: "is_listen p \<Longrightarrow> check_port p = 0"
proof -
  have e: "LISTEN_SHORT = [45, 108]" "LISTEN_LONG = [45, 45, 108, 105, 115, 116, 101, 110]"
    by (simp_all add: options cs_def)
  have "check_port LISTEN_SHORT = 0" "check_port LISTEN_LONG = 0"
    unfolding e by (rule check_port_minus, simp add: is_digit_def)+
  then show "is_listen p \<Longrightarrow> check_port p = 0"
    unfolding is_listen_def by metis
qed

lemma is_listen_other: "is_first v \<Longrightarrow> \<not> is_listen v" "is_contact v \<Longrightarrow> \<not> is_listen v"
  "is_listen v \<Longrightarrow> \<not> is_first v \<and> \<not> is_contact v"
  by (auto simp: is_first_def is_contact_def is_listen_def options cs_def)

text \<open>The two records agree: the same port, and neither a redirection nor an error of the application.\<close>

definition argv_agree :: "client_argv_t \<Rightarrow> server_argv_t \<Rightarrow> bool" where
  "argv_agree c s \<longleftrightarrow> ca_contact_port c = sa_listen_port s \<and> ca_error c = None \<and>
     ca_stdout_redirect c = None \<and> ca_stderr_redirect c = None \<and>
     sa_stdout_redirect s = None \<and> sa_stderr_redirect s = None"

lemma argv_walks_agree:
  assumes "list_all no_redirect argv" and "\<And>v. is_listen v \<Longrightarrow> \<not> pton4 v \<and> \<not> pton6 v"
  shows "argv_agree c s \<Longrightarrow> sa_error (handle_argv_server pton4 pton6 argv i s) = None \<Longrightarrow>
    argv_agree (handle_argv_client argv i c) (handle_argv_server pton4 pton6 argv i s)"
proof (induction "length argv - i" arbitrary: i c s rule: less_induct)
  case less
  show ?case
  proof (cases "i < length argv")
    case False
    then show ?thesis using less.prems
      by (simp add: handle_argv_client.simps handle_argv_server.simps)
  next
    case True
    let ?v = "argv ! i"
    have nr: "no_redirect (argv ! j)" if "j < length argv" for j
      using assms(1) that by (simp add: list_all_length)
    have step: "handle_argv_server pton4 pton6 argv i s =
        (case server_step pton4 pton6 argv i s of Inl r \<Rightarrow> r
         | Inr (k, r) \<Rightarrow> handle_argv_server pton4 pton6 argv (i + k) r)"
      using True by (subst handle_argv_server.simps) simp
    note run = step [unfolded server_step_def Let_def]
    have skip: "handle_argv_client argv i c = handle_argv_client argv (i + 1) c" if "\<not> is_listen ?v"
      using argv_client_skip [OF True that nr [OF True]] .
    consider (fst) "is_first ?v" | (con) "\<not> is_first ?v" "is_contact ?v"
      | (lis) "\<not> is_first ?v" "\<not> is_contact ?v" "is_listen ?v"
      | (oth) "\<not> is_first ?v" "\<not> is_contact ?v" "\<not> is_listen ?v" by blast
    then show ?thesis
    proof cases
      case fst
      have "handle_argv_server pton4 pton6 argv i s = handle_argv_server pton4 pton6 argv (i + 1) (s\<lparr>sa_first_machine := 1\<rparr>)"
        using run fst by simp
      then show ?thesis using less.hyps [of "i + 1" c "s\<lparr>sa_first_machine := 1\<rparr>"] less.prems True
          skip is_listen_other(1) [OF fst] by (simp add: argv_agree_def)
    next
      case con
      let ?s = "s\<lparr>sa_contact_ip := Some (argv ! (i + 1)), sa_contact_port := Some (argv ! (i + 2))\<rparr>"
      have ok: "i + 2 < length argv" "check_ip pton4 pton6 (argv ! (i + 1)) \<noteq> 0" "check_port (argv ! (i + 2)) \<noteq> 0"
        and go: "handle_argv_server pton4 pton6 argv i s = handle_argv_server pton4 pton6 argv (i + 3) ?s"
        using run con less.prems(2) by (auto simp: message_def split: if_splits)
      have nl: "\<not> is_listen (argv ! (i + 1))" "\<not> is_listen (argv ! (i + 2))"
        using ok assms(2) check_port_listen by (auto simp: check_ip_ok)
      have "handle_argv_client argv i c = handle_argv_client argv (i + 3) c"
        using skip is_listen_other(2) [OF con(2)] argv_client_skip [of "i + 1" argv c] argv_client_skip [of "i + 2" argv c]
          ok(1) nl nr by (simp add: numeral_3_eq_3)
      then show ?thesis using less.hyps [of "i + 3" c ?s] less.prems True go by (simp add: argv_agree_def)
    next
      case lis
      let ?s = "s\<lparr>sa_listen_port := Some (argv ! (i + 1))\<rparr>"
      let ?c = "c\<lparr>ca_contact_port := Some (argv ! (i + 1))\<rparr>"
      have ok: "i + 1 < length argv" "check_port (argv ! (i + 1)) \<noteq> 0"
        and go: "handle_argv_server pton4 pton6 argv i s = handle_argv_server pton4 pton6 argv (i + 2) ?s"
        using run lis less.prems(2) by (auto simp: message_def split: if_splits)
      have "handle_argv_client argv i c = handle_argv_client argv (i + 2) ?c"
        using True ok lis by (subst handle_argv_client.simps) (simp add: client_step_def Let_def)
      then show ?thesis using less.hyps [of "i + 2" ?c ?s] less.prems True go by (simp add: argv_agree_def)
    next
      case oth
      have "handle_argv_server pton4 pton6 argv i s = handle_argv_server pton4 pton6 argv (i + 1) s"
        using run oth nr [OF True] by (simp add: no_redirect_def)
      then show ?thesis using less.hyps [of "i + 1" c s] less.prems True skip oth by (simp add: argv_agree_def)
    qed
  qed
qed

text \<open>
  Without redirections on the command line the two processes read the option \<open>-l\<close> alike, although
  only the servent skips the contact point.
\<close>

lemma argv_records_agree:
  assumes "list_all no_redirect argv" and "\<And>v. is_listen v \<Longrightarrow> \<not> pton4 v \<and> \<not> pton6 v"
    and "sa_error (server_argv pton4 pton6 argv) = None"
  shows "argv_agree (client_argv argv) (server_argv pton4 pton6 argv)"
  using argv_walks_agree [OF assms(1,2), where c = client_argv_zero and s = server_argv_zero and i = 0] assms(3)
  by (simp add: client_argv_def server_argv_def client_argv_zero_def server_argv_zero_def argv_agree_def)

definition odd_command_line :: "cstr list" where
  "odd_command_line = [cs ''network'', cs ''-sout'', cs ''-l'', cs ''2000'']"

text \<open>
  With a redirection to a file named like the option, the application contacts a port its
  servent does not listen on.
\<close>

lemma argv_ports_differ:
  "ca_contact_port (client_argv odd_command_line) = Some (cs ''2000'') \<and>
   sa_listen_port (server_argv pton4 pton6 odd_command_line) = None \<and>
   sa_error (server_argv pton4 pton6 odd_command_line) = None"
  by (intro conjI; code_simp)

end
