(* ===== verification/Main_Program.thy ===== *)
theory Main_Program
  imports Server_Loop Client Boot
begin

text \<open>
  \<open>main\<close> of \<open>main.c\<close>: the checks before the fork, and then the two processes, the servent (the
  child) and the application (the parent), each with its walk over the command line, its
  redirections and its \<open>run_\<close> function. The clock readings of the servent and \<open>inet_pton\<close> are
  parameters.
\<close>

section \<open>The help\<close>

definition EXEC_NAME :: cstr where "EXEC_NAME = cs ''network''"

definition ARGV_MINIMUM_LENGTH :: nat where "ARGV_MINIMUM_LENGTH = 1"

definition EXIT_NOT_ENOUGH_ARGUMENTS :: int where "EXIT_NOT_ENOUGH_ARGUMENTS = 2"
definition EXIT_CLIENT_NO_FORK :: int where "EXIT_CLIENT_NO_FORK = 3"

definition usage_lines :: "cstr list" where
  "usage_lines =
     [cs ''Usage:'' @ newline,
      cs ''./'' @ EXEC_NAME @ cs '' ['' @ HELP_SHORT @ cs '' | '' @ HELP_LONG @ cs ''] ['' @ FIRST_MACHINE_SHORT @
        cs '' || '' @ FIRST_MACHINE_LONG @ cs ''] ['' @ LISTEN_SHORT @ cs '' port || '' @ LISTEN_LONG @
        cs '' port] ['' @ CONTACT_POINT_SHORT @ cs '' ip port || '' @ CONTACT_POINT_LONG @ cs '' ip port] ['' @
        REDIRECT_CLIENT_STDOUT @ cs '' file] ['' @ REDIRECT_CLIENT_STDERR @ cs '' file] ['' @
        REDIRECT_SERVER_STDOUT @ cs '' file] ['' @ REDIRECT_SERVER_STDERR @ cs '' file]'' @ newline,
      tab @ HELP_SHORT @ cs '' / '' @ HELP_LONG @ cs '' Display the present help and exit.'' @ newline,
      tab @ FIRST_MACHINE_SHORT @ cs '' / '' @ FIRST_MACHINE_LONG @
        cs '' Run this application as first machine. It means the servent won't search for neighbours.'' @ newline,
      tab @ LISTEN_SHORT @ cs '' / '' @ LISTEN_LONG @
        cs '' port Force the servent to listen on the given port.'' @ newline,
      tab @ CONTACT_POINT_SHORT @ cs '' / '' @ CONTACT_POINT_LONG @
        cs '' ip port Force the servent to contact this given IP and port to join the network.'' @ newline,
      tab @ cs ''['' @ REDIRECT_CLIENT_STDOUT @ cs '' || '' @ REDIRECT_CLIENT_STDERR @ cs '' || '' @
        REDIRECT_SERVER_STDOUT @ cs '' || '' @ REDIRECT_SERVER_STDERR @
        cs ''] file will redirect the given stream to the file passed as parameter.'' @ newline @
        tab @ tab @ REDIRECT_CLIENT_STDOUT @ cs '' redirects the standard output of the client'' @ newline @
        tab @ tab @ REDIRECT_CLIENT_STDERR @ cs '' redirect the error output of the client'' @ newline @
        tab @ tab @ cs ''The -s* variants redirect the outputs of the server.'' @ newline]"

definition usage :: "('z, unit) osprog" where
  "usage = for_list usage_lines print"

section \<open>The phases of the command line\<close>

definition PHASE_BOOT :: int where "PHASE_BOOT = 0"
definition PHASE_CLIENT :: int where "PHASE_CLIENT = 1"
definition PHASE_SERVER :: int where "PHASE_SERVER = 2"

lemmas phases = PHASE_BOOT_def PHASE_CLIENT_def PHASE_SERVER_def

text \<open>The \<open>void* context\<close>: NULL or the record of a process. A walk over another record writes outside it.\<close>

datatype argv_context = NullContext | ClientContext client_argv_t | ServerContext server_argv_t

definition handle_argv :: "(cstr \<Rightarrow> bool) \<Rightarrow> (cstr \<Rightarrow> bool) \<Rightarrow> cstr list \<Rightarrow> int \<Rightarrow> argv_context
    \<Rightarrow> ('z, argv_context) osprog" where
  "handle_argv pton4 pton6 argv phase context =
     (if phase = PHASE_BOOT then
        (if handle_argv_boot argv then seq usage (halt (Exit 0)) else ret context)
      else if phase = PHASE_CLIENT then
        (case context of ClientContext infos \<Rightarrow> ret (ClientContext (handle_argv_client argv 0 infos))
         | NullContext \<Rightarrow> halt (UB NullDeref) | _ \<Rightarrow> halt (UB OutOfBounds))
      else if phase = PHASE_SERVER then
        (case context of ServerContext infos \<Rightarrow> ret (ServerContext (handle_argv_server pton4 pton6 argv 0 infos))
         | NullContext \<Rightarrow> halt (UB NullDeref) | _ \<Rightarrow> halt (UB OutOfBounds))
      else ret context)"

section \<open>Before the fork\<close>

text \<open>\<open>Inl\<close>: \<open>main\<close> returns this; \<open>Inr\<close>: the result of the fork.\<close>

definition main_boot :: "(cstr \<Rightarrow> bool) \<Rightarrow> (cstr \<Rightarrow> bool) \<Rightarrow> cstr list \<Rightarrow> ('z, int + int) osprog" where
  "main_boot pton4 pton6 argv =
     (if length argv < ARGV_MINIMUM_LENGTH then
        seq (emit (Logged 2 (cs ''Not enough arguments supplied.'' @ newline)))
       (seq usage (ret (Inl EXIT_NOT_ENOUGH_ARGUMENTS)))
      else bnd (handle_argv pton4 pton6 argv PHASE_BOOT NullContext) (\<lambda>_.
        bnd (sys ForkCall) (\<lambda>server_pid.
        if server_pid < 0 then
          bnd (applog LOG_LEVEL_FATAL (Some (cs ''[Boot] Erreur lors du fork pour cr'' @ e_acute @
              cs ''er le serveur. Extinction.'' @ newline)) []) (\<lambda>_.
          ret (Inl EXIT_CLIENT_NO_FORK))
        else ret (Inr server_pid))))"

section \<open>The two processes\<close>

text \<open>\<open>open(path, O_CREAT | O_TRUNC | O_WRONLY, 0666)\<close>, \<open>dup2\<close>, \<open>close\<close>.\<close>

definition redirect :: "int \<Rightarrow> cstr option \<Rightarrow> ('z, unit) osprog" where
  "redirect std path = (case path of
       None \<Rightarrow> ret ()
     | Some p \<Rightarrow>
         bnd (sys OpenCall) (\<lambda>fd.
         seq (if fd = - 1 then ret ()
              else modify (\<lambda>s. s\<lparr>files := (p, []) # filter (\<lambda>f. fst f \<noteq> p) (files s)\<rparr>))
        (seq (emit (Redirected fd std)) (sys_close fd))))"

text \<open>The error of a command line, the help, the signal to the other process, and the end.\<close>

definition refuse :: "cstr \<Rightarrow> event \<Rightarrow> ('z, int) osprog" where
  "refuse error sigint =
     seq (emit (Logged 2 error)) (seq usage (seq (emit sigint) (halt (Exit 1))))"

definition main_servent :: "((int \<times> int) \<times> (int \<times> int)) list \<Rightarrow> (cstr \<Rightarrow> bool) \<Rightarrow> (cstr \<Rightarrow> bool)
    \<Rightarrow> cstr list \<Rightarrow> int server_prog" where
  "main_servent clock pton4 pton6 argv =
     bnd (handle_argv pton4 pton6 argv PHASE_SERVER (ServerContext server_argv_zero)) (\<lambda>context.
     case context of ServerContext infos \<Rightarrow>
      (case sa_error infos of
        Some error \<Rightarrow> refuse error SigintParent
      | None \<Rightarrow>
          seq (redirect 2 (sa_stderr_redirect infos))
         (seq (redirect 1 (sa_stdout_redirect infos))
         (bnd (run_server clock (sa_first_machine infos \<noteq> 0) (sa_listen_port infos)
                 (sa_contact_ip infos) (sa_contact_port infos)) (\<lambda>res.
          bnd (clear_server_argv infos) (\<lambda>_. ret res)))))
     | _ \<Rightarrow> halt (UB OutOfBounds))"

definition main_application :: "(cstr \<Rightarrow> bool) \<Rightarrow> (cstr \<Rightarrow> bool) \<Rightarrow> cstr list \<Rightarrow> int client_prog" where
  "main_application pton4 pton6 argv =
     bnd (handle_argv pton4 pton6 argv PHASE_CLIENT (ClientContext client_argv_zero)) (\<lambda>context.
     case context of ClientContext infos \<Rightarrow>
      (case ca_error infos of
        Some error \<Rightarrow> refuse error SigintServer
      | None \<Rightarrow>
          seq (redirect 2 (ca_stderr_redirect infos))
         (seq (redirect 1 (ca_stdout_redirect infos))
         (bnd (run_client (ca_contact_port infos)) (\<lambda>res.
          if res = - 1 then seq (emit SigintServer) (ret 1)
          else bnd (clear_client_argv infos) (\<lambda>_. seq (emit WaitedServer) (ret res))))))
     | _ \<Rightarrow> halt (UB OutOfBounds))"

section \<open>The program\<close>

text \<open>
  \<open>main\<close> over the states of both processes: before the fork there is only the application (the
  parent, which keeps its identity); a fork that succeeds adds the servent. The first part of the
  result is how the parent ends, the second how the servent does, where there is one. \<open>fork\<close> returns
  the number of the child in the parent, which is never 0.
\<close>

definition main_program :: "((int \<times> int) \<times> (int \<times> int)) list \<Rightarrow> (cstr \<Rightarrow> bool) \<Rightarrow> (cstr \<Rightarrow> bool)
    \<Rightarrow> cstr list \<Rightarrow> client_t \<Rightarrow> server_t \<Rightarrow>
      ((stop + int) \<times> client_t) \<times> ((stop + int) \<times> server_t) option" where
  "main_program clock pton4 pton6 argv c s = (case main_boot pton4 pton6 argv c of
       (Inl h, c1) \<Rightarrow> ((Inl h, c1), None)
     | (Inr (Inl code), c1) \<Rightarrow> ((Inr code, c1), None)
     | (Inr (Inr server_pid), c1) \<Rightarrow>
         (main_application pton4 pton6 argv c1, Some (main_servent clock pton4 pton6 argv s)))"

section \<open>Properties\<close>

lemma for_list_print: "for_list xs print s = (Inr (), s\<lparr>evs := evs s @ map Printed xs\<rparr>)"
  by (induction xs arbitrary: s) (simp_all add: seq_run print_run)

lemma refuse_run:
  "refuse error sigint s = (Inl (Exit 1), s\<lparr>evs := evs s @ Logged 2 error # map Printed usage_lines @ [sigint]\<rparr>)"
  by (simp add: refuse_def seq_run emit_run usage_def for_list_print)

lemma bnd_clear_argv [simp]:
  "bnd (clear_client_argv ci) (\<lambda>_. p) = p" "bnd (clear_server_argv si) (\<lambda>_. q) = q"
proof -
  have skip: "bnd m (\<lambda>_. k) = k" if tot: "\<And>s. \<exists>x. m s = (Inr x, s)" for m :: "('s, 'x) prog" and k :: "('s, 'y) prog"
  proof
    fix s
    obtain x where "m s = (Inr x, s)" using tot by blast
    then show "bnd m (\<lambda>_. k) s = k s" by (simp add: bnd_run)
  qed
  show "bnd (clear_client_argv ci) (\<lambda>_. p) = p" "bnd (clear_server_argv si) (\<lambda>_. q) = q"
    by (rule skip, rule clear_argv_run)+
qed

declare bnd_ret [simp] seq_ret [simp]

lemma no_redirection [simp]: "redirect std None = ret ()"
  by (simp add: redirect_def)

text \<open>Without redirections and without an error the two processes run with the fields of one record.\<close>

lemma processes_run:
  assumes "list_all no_redirect argv" and "\<And>v. is_listen v \<Longrightarrow> \<not> pton4 v \<and> \<not> pton6 v"
    and "sa_error (server_argv pton4 pton6 argv) = None"
  shows "main_servent clock pton4 pton6 argv s = run_server clock (sa_first_machine (server_argv pton4 pton6 argv) \<noteq> 0)
      (sa_listen_port (server_argv pton4 pton6 argv)) (sa_contact_ip (server_argv pton4 pton6 argv))
      (sa_contact_port (server_argv pton4 pton6 argv)) s"
    and "main_application pton4 pton6 argv c = bnd (run_client (sa_listen_port (server_argv pton4 pton6 argv))) (\<lambda>res.
      if res = - 1 then seq (emit SigintServer) (ret 1) else seq (emit WaitedServer) (ret res)) c"
proof -
  let ?i = "server_argv pton4 pton6 argv"
  have a: "argv_agree (client_argv argv) ?i" using argv_records_agree [OF assms] .
  show "main_servent clock pton4 pton6 argv s = run_server clock (sa_first_machine ?i \<noteq> 0)
      (sa_listen_port ?i) (sa_contact_ip ?i) (sa_contact_port ?i) s"
    using a assms(3) by (simp add: main_servent_def handle_argv_def phases server_argv_def argv_agree_def)
  show "main_application pton4 pton6 argv c = bnd (run_client (sa_listen_port ?i)) (\<lambda>res.
      if res = - 1 then seq (emit SigintServer) (ret 1) else seq (emit WaitedServer) (ret res)) c"
    using a by (simp add: main_application_def handle_argv_def phases client_argv_def server_argv_def argv_agree_def
        cong: if_cong)
qed

text \<open>What the boot phase does, by cases of the command line and of the fork.\<close>

definition fork_result :: "client_t \<Rightarrow> int" where
  "fork_result c = fst (case script c ForkCall of [] \<Rightarrow> (sys_default ForkCall, []) | r # rs \<Rightarrow> (r, rs))"

definition after_fork :: "client_t \<Rightarrow> client_t" where
  "after_fork c = snd (sys ForkCall c)"

definition no_fork_message :: cstr where
  "no_fork_message = log_fatal (cs ''[Boot] Erreur lors du fork pour cr'' @ e_acute @
     cs ''er le serveur. Extinction.'' @ newline)"

lemma fork_run: "sys ForkCall c = (Inr (fork_result c), after_fork c)"
  by (auto simp: fork_result_def after_fork_def sys_def split: list.splits)

lemma usage_run: "usage s = (Inr (), s\<lparr>evs := evs s @ map Printed usage_lines\<rparr>)"
  by (simp add: usage_def for_list_print)

lemma applog_fatal_run:
  assumes "vformat fmt [] = Some fmt" and "length fmt < MAX_BUFFER_LENGTH"
  shows "applog LOG_LEVEL_FATAL (Some fmt) [] c = (Inr 0, c\<lparr>evs := evs c @ [Logged 2 (log_fatal fmt)]\<rparr>)"
  using assms by (simp add: applog_def log_levels log_internal_def get_log_function_by_level_def
      get_log_file_by_level_def vsnprintf_def bnd_run seq_run emit_run)

lemma applog_no_fork:
  "applog LOG_LEVEL_FATAL (Some (cs ''[Boot] Erreur lors du fork pour cr'' @ e_acute @
     cs ''er le serveur. Extinction.'' @ newline)) [] c = (Inr 0, c\<lparr>evs := evs c @ [Logged 2 no_fork_message]\<rparr>)"
  unfolding no_fork_message_def by (rule applog_fatal_run) code_simp+

lemma main_boot_cases:
  "main_boot pton4 pton6 argv c =
    (if argv = [] then (Inr (Inl 2),
       c\<lparr>evs := evs c @ Logged 2 (cs ''Not enough arguments supplied.'' @ newline) # map Printed usage_lines\<rparr>)
     else if list_ex is_help argv then (Inl (Exit 0), c\<lparr>evs := evs c @ map Printed usage_lines\<rparr>)
     else if fork_result c < 0 then (Inr (Inl 3),
       (after_fork c)\<lparr>evs := evs (after_fork c) @ [Logged 2 no_fork_message]\<rparr>)
     else (Inr (Inr (fork_result c)), after_fork c))"
  by (simp add: main_boot_def ARGV_MINIMUM_LENGTH_def EXIT_NOT_ENOUGH_ARGUMENTS_def EXIT_CLIENT_NO_FORK_def
      handle_argv_def phases handle_argv_boot_def seq_run bnd_run emit_run usage_run fork_run applog_no_fork
      del: append_assoc)

text \<open>
  C37. What the program does with a command line without redirections. An empty one is refused with
  the help; where \<open>-h\<close> or \<open>--help\<close> occurs the program prints the help and exits before anything is
  started, and where the fork fails it says so. Otherwise there are two processes. On an error
  in its options the servent prints the error and the help, interrupts the application and exits before
  it opens a socket. Without an error both start: the application contacts the port its servent listens
  on, a port \<open>check_port\<close> accepts or the default one, and the servent a valid contact point, or none. The
  option \<open>-l\<close> itself must be no address to \<open>inet_pton\<close>, as it is not.
\<close>

theorem command_line_boots:
  assumes "list_all no_redirect argv" and "\<And>v. is_listen v \<Longrightarrow> \<not> pton4 v \<and> \<not> pton6 v"
    and "infos = server_argv pton4 pton6 argv" and "main_program clock pton4 pton6 argv c s = (parent, child)"
  shows "if argv = [] then child = None \<and> parent = (Inr 2,
       c\<lparr>evs := evs c @ Logged 2 (cs ''Not enough arguments supplied.'' @ newline) # map Printed usage_lines\<rparr>)
     else if list_ex is_help argv then child = None \<and>
       parent = (Inl (Exit 0), c\<lparr>evs := evs c @ map Printed usage_lines\<rparr>)
     else if fork_result c < 0 then child = None \<and>
       parent = (Inr 3, (after_fork c)\<lparr>evs := evs (after_fork c) @ [Logged 2 no_fork_message]\<rparr>)
     else case sa_error infos of
       Some error \<Rightarrow> child = Some (Inl (Exit 1),
         s\<lparr>evs := evs s @ Logged 2 error # map Printed usage_lines @ [SigintParent]\<rparr>)
     | None \<Rightarrow>
         (case sa_listen_port infos of None \<Rightarrow> True | Some p \<Rightarrow> check_port p = 1) \<and>
         (case (sa_contact_ip infos, sa_contact_port infos) of (None, None) \<Rightarrow> True
          | (Some ip, Some p) \<Rightarrow> (pton4 ip \<or> pton6 ip) \<and> check_port p = 1 | _ \<Rightarrow> False) \<and>
         child = Some (run_server clock (sa_first_machine infos \<noteq> 0) (sa_listen_port infos)
           (sa_contact_ip infos) (sa_contact_port infos) s) \<and>
         parent = bnd (run_client (sa_listen_port infos)) (\<lambda>res. if res = - 1
           then seq (emit SigintServer) (ret 1) else seq (emit WaitedServer) (ret res)) (after_fork c)"
proof -
  note i = assms(3)
  have m: "(parent, child) = (case main_boot pton4 pton6 argv c of
       (Inl h, c1) \<Rightarrow> ((Inl h, c1), None) | (Inr (Inl code), c1) \<Rightarrow> ((Inr code, c1), None)
     | (Inr (Inr pid), c1) \<Rightarrow> (main_application pton4 pton6 argv c1, Some (main_servent clock pton4 pton6 argv s)))"
    using assms(4) by (simp add: main_program_def)
  show ?thesis
  proof (cases "argv = [] \<or> list_ex is_help argv \<or> fork_result c < 0")
    case True
    then show ?thesis using m by (auto simp: main_boot_cases)
  next
    case False
    then have p: "parent = main_application pton4 pton6 argv (after_fork c)"
      "child = Some (main_servent clock pton4 pton6 argv s)"
      using m by (simp_all add: main_boot_cases)
    show ?thesis
    proof (cases "sa_error infos")
      case None
      have "server_argv_ok pton4 pton6 infos" unfolding i by (rule server_argv_fields_ok)
      then show ?thesis
        using False p None processes_run [OF assms(1,2) None [unfolded i]]
        by (auto simp: i server_argv_ok_def split: option.splits)
    next
      case (Some error)
      then show ?thesis
        using False p by (simp add: i main_servent_def handle_argv_def phases server_argv_def bnd_run refuse_run)
    qed
  qed
qed

theorem command_line_boots_witness:
  "fst (main_program [] (\<lambda>_. False) (\<lambda>_. False) [cs ''network'', cs ''-f'', cs ''-h''] sample_client sample_servent) =
     (Inl (Exit 0), sample_client\<lparr>evs := evs sample_client @ map Printed usage_lines\<rparr>) \<and>
   snd (main_program [] (\<lambda>_. False) (\<lambda>_. False) [cs ''network'', cs ''-l''] sample_client sample_servent) =
     Some (Inl (Exit 1), sample_servent\<lparr>evs := evs sample_servent @ Logged 2 (cs ''Not enough parameters for listening port.'' @ [10])
        # map Printed usage_lines @ [SigintParent]\<rparr>) \<and>
   main_program [] (\<lambda>_. False) (\<lambda>_. False) [cs ''network'', cs ''-f'', cs ''-l'', cs ''2000''] sample_client sample_servent =
     (bnd (run_client (Some (cs ''2000''))) (\<lambda>res. if res = - 1
        then seq (emit SigintServer) (ret 1) else seq (emit WaitedServer) (ret res)) sample_client,
      Some (run_server [] True (Some (cs ''2000'')) None None sample_servent))"
proof -
  let ?none = "\<lambda>_ :: cstr. False"
  let ?start = "[cs ''network'', cs ''-f'', cs ''-l'', cs ''2000'']"
  have fork: "fork_result sample_client = 1" "after_fork sample_client = sample_client"
    by (simp_all add: fork_result_def after_fork_def sys_def sample_client_def sample_os_def os.defs)
  have r: "list_all no_redirect [cs ''network'', cs ''-f'', cs ''-h'']" "list_ex is_help [cs ''network'', cs ''-f'', cs ''-h'']"
    "list_all no_redirect [cs ''network'', cs ''-l'']" "\<not> list_ex is_help [cs ''network'', cs ''-l'']"
    "list_all no_redirect ?start" "\<not> list_ex is_help ?start"
    by code_simp+
  have e: "sa_error (server_argv ?none ?none [cs ''network'', cs ''-l'']) =
      Some (cs ''Not enough parameters for listening port.'' @ [10])" by code_simp
  have i: "server_argv ?none ?none ?start = server_argv_zero\<lparr>sa_first_machine := 1, sa_listen_port := Some (cs ''2000'')\<rparr>"
    by code_simp
  note boots = command_line_boots [where ?pton4.0 = ?none and ?pton6.0 = ?none and clock = "[]", OF _ _ refl surjective_pairing]
  show ?thesis
    using boots [OF r(1), of sample_client sample_servent] boots [OF r(3), of sample_client sample_servent]
      boots [OF r(5), of sample_client sample_servent] r(2,4,6)
    by (simp add: fork e i server_argv_zero_def prod_eq_iff)
qed

end
