(* ===== verification/Test_Program.thy ===== *)
theory Test_Program
  imports Util
begin

text \<open>
  \<open>main-test.c\<close>: the program that prints the address of its own machine. The host name and the
  resolver are parameters: \<open>getaddrinfo\<close> gives the addresses of a name, or fails (\<open>None\<close>) and leaves
  \<open>results\<close> as it was, a pointer nothing has been written to.
\<close>

text \<open>
  \<open>gethostname\<close> into \<open>INET6_ADDRSTRLEN\<close> bytes: a name that does not fit is cut and not terminated,
  and \<open>getaddrinfo\<close> reads on behind the buffer.
\<close>

definition own_name :: "cstr \<Rightarrow> ('s, cstr) prog" where
  "own_name hostname = (if length hostname < INET6_ADDRSTRLEN then ret hostname else halt (UB OutOfBounds))"

definition main_test :: "cstr \<Rightarrow> (cstr \<Rightarrow> sockaddr list option) \<Rightarrow> ('z, int) osprog" where
  "main_test hostname lookup =
     bnd (own_name hostname) (\<lambda>test.
     case lookup test of
       None \<Rightarrow> halt (UB Uninit)
     | Some [] \<Rightarrow> halt (UB NullDeref)
     | Some (a # _) \<Rightarrow>
         seq (case a of
             Inet ip port \<Rightarrow> seq (print (cs ''Toto'' @ [10])) (print (cs ''IP = '' @ ip @ [10]))
           | _ \<Rightarrow> print (cs ''Niah'' @ [10]))
         (ret 0))"

text \<open>The first address decides: the addresses behind it are not looked at.\<close>

lemma main_test_prints:
  assumes "length hostname < INET6_ADDRSTRLEN" and "lookup hostname = Some (Inet ip port # rest)"
  shows "main_test hostname lookup s =
    (Inr 0, s\<lparr>evs := evs s @ [Printed (cs ''Toto'' @ [10]), Printed (cs ''IP = '' @ ip @ [10])]\<rparr>)"
  using assms by (simp add: main_test_def own_name_def bnd_run seq_run print_run)

lemma main_test_ipv6_first:
  "length hostname < INET6_ADDRSTRLEN \<Longrightarrow> lookup hostname = Some (Inet6 ip port # rest) \<Longrightarrow>
   main_test hostname lookup s = (Inr 0, s\<lparr>evs := evs s @ [Printed (cs ''Niah'' @ [10])]\<rparr>)"
  by (simp add: main_test_def own_name_def bnd_run seq_run print_run)

lemma main_test_unresolved:
  "length hostname < INET6_ADDRSTRLEN \<Longrightarrow> lookup hostname = None \<Longrightarrow>
   fst (main_test hostname lookup s) = Inl (UB Uninit)"
  by (simp add: main_test_def own_name_def bnd_run)

end
