(* ===== verification/Spec2Isabelle.thy ===== *)
theory Spec2Isabelle
  imports Server_Null Server_Types Server_Session Server_Contact Client_Session Client_Lookup Client_Safe Main_Program Test_Program
begin

text \<open>
  A verification development of the peer-to-peer file search in \<open>src/\<close>: the program \<open>network\<close>, which
  forks into a servent (\<open>server.c\<close>, \<open>server/\<close>) that joins a network of servents, searches files
  through it and transfers them, and a user application (\<open>client.c\<close>, \<open>client/\<close>) that takes commands and
  talks to the servent over a local socket.

  \<^bold>\<open>The model.\<close> Every C function that keeps state is a program of type \<open>('s, 'a) prog\<close>: from a state to a
  new state and either a result or a reason to stop (an exit, a failed assertion, SIGPIPE, undefined
  behaviour with its kind, or a loop that does not end). The state of each process extends the
  record \<open>os\<close>, which holds what the descriptors will deliver, how the system calls will answer, the
  files, the contents of fresh memory, and the effects so far. A theorem over all states is thus one
  over all behaviours of the network, of the kernel and of uninitialised memory.

  \<^bold>\<open>The theories\<close>, with the code they model:
  \<^item> \<open>Prelude\<close>: programs and their laws, invariants of programs (\<open>keeps\<close>), buffers of packets, C strings.
  \<^item> \<open>Os_Model\<close>: the system calls. The resolver, the answers and the addresses are data of the state.
  \<^item> \<open>Util\<close> (\<open>util.c\<close>): reads, writes, numbers, ports, addresses. \<open>avail\<close> is what is left to read on a
    descriptor up to an error or the end, \<open>sent\<close> what was written; the reader lemmas take a
    length-prefixed text off the front of \<open>avail\<close>.
  \<^item> \<open>Log\<close> (\<open>log.c\<close>), \<open>Networking\<close> (\<open>networking.c\<close>): connecting, listening, accepting.
  \<^item> \<open>Packets\<close> (\<open>packets_defines.h\<close>): the opcodes, and \<open>encode\<close>, the reference the writers and readers are
    compared with. It is no code: it is transcribed from the comments of \<open>packets_doc.h\<close>, and from the
    writers for the layouts these leave open (\<open>PDownload\<close>, \<open>PDownloadNotFound\<close>, \<open>PDownloadFile\<close>,
    \<open>PIntDownload\<close>, \<open>PIntDownloadError\<close>, \<open>PIntDownloadDone\<close>).
  \<^item> \<open>Clist\<close> (\<open>list.c\<close>): lists of cells on a heap with freed and dangling addresses; \<open>repr l xs\<close> says that
    a list in memory represents \<open>xs\<close>. The locale \<open>list_field\<close> lifts the lists into a process.
  \<^item> \<open>Progress\<close>: programs that end. \<open>settles P Q m\<close> says that \<open>m\<close> keeps \<open>P\<close>, returns only results with \<open>Q\<close>, and
    hangs only when \<open>socket\<close> fails for good; rules for every construct, the loops over lists included.
    \<open>Null_Safety\<close>: programs that dereference no NULL pointer, with the same kind of rules.
  \<^item> \<open>Server_State\<close> (\<open>server_internal.h\<close>, \<open>request.h\<close>, \<open>request.c\<close>, \<open>server_util.c\<close>), \<open>Server_Packets\<close>, \<open>Server_Join\<close>,
    \<open>Server_User\<close>, \<open>Server_Requests\<close> (the files of \<open>server/\<close> with these names), \<open>Server_Loop\<close> (\<open>server.c\<close>).
  \<^item> \<open>Server_Invariant\<close>: the states a servent reaches (\<open>reachable\<close>) and their invariant. \<open>Server_Fields\<close>:
    which operations touch which list, and the rounds over the lists. \<open>Server_Handlers\<close>: whole handlers
    on the packets of a neighbour and of the client. \<open>Server_Accept\<close>: new connections and the download
    another servent asks for. \<open>Server_Contact\<close>: two servents that become neighbours, and the way into the
    network. \<open>Server_End\<close>: the end of a turn and of the servent. \<open>Server_Session\<close>: a whole run from start to
    exit, and neighbours that have gone. \<open>Server_Progress\<close>: no turn hangs. \<open>Server_Types\<close>: the requests that
    wait are well typed. \<open>Server_Address\<close>: what becomes of \<open>self_ip\<close> in a servent that starts a network and
    in one that joins it; the locale \<open>turn_frame\<close> carries an invariant through a turn, and \<open>onward\<close> are the
    states that follow one another. \<open>Server_Null\<close>: no servent dereferences NULL.
  \<^item> \<open>Client\<close> (\<open>client.c\<close>, \<open>client/\<close>), with the abstract knowledge (a map from files to machines) its table
    refines; \<open>Client_Lookup\<close>: the command \<open>lookup\<close> prints that knowledge; \<open>Client_Loop\<close>: no turn hangs;
    \<open>Client_Session\<close>: a whole run; \<open>Client_Safe\<close>: every run is free of undefined behaviour where no line is blank,
    and \<open>exit\<close> ends the loop.
  \<^item> \<open>Boot\<close>, \<open>Main_Program\<close> (\<open>main.c\<close>): the command line, the help, the fork, the two processes;
    \<open>main_program\<close> is \<open>main\<close> over the states of both. \<open>Test_Program\<close>
    (\<open>main-test.c\<close>): the program that prints the address of its machine.
  \<^item> This theory: properties that span the processes.

  \<^bold>\<open>What is proved.\<close> Type and counting invariants of every reachable servent, that none of its turns
  hangs, that no run of \<open>run_server\<close> dereferences NULL, and that the
  application is free of undefined behaviour on the lines a user means to type; what \<open>main\<close> does with every
  command line without redirections, and a whole run of it on a first machine, to the exit of both
  processes; which servents own the address they answer with, and which have freed it; the agreement
  of two servents that join, and where it fails; the functional behaviour of the handlers, against the
  packets of \<open>encode\<close>, by cases of the own address where they read it; refinement of an abstract map by the table of
  the application; the whole way of a search and of a download through two servents and an
  application; the operations of the lists on abstract lists; that \<open>exit\<close> ends the application's loop;
  and, where the code fails, that it does: use of freed memory, reads and writes out of bounds,
  loops that do not end. A property with hypotheses has a witness: the theorem whose name ends in
  \<open>_witness\<close> applies it to a concrete state.

  \<^bold>\<open>Fuel and bounds.\<close> \<open>connect_to\<close> and \<open>create_listening_socket\<close> run on the number of scripted answers of
  \<open>socket\<close> and one more; each turn that repeats takes an answer, and when they are used up \<open>socket\<close> fails
  for good (\<open>connect_loop_enough\<close> and \<open>listen_loop_enough\<close> show that more fuel changes nothing).
  A walk over a list has as many steps as the heap has addresses. The loop of the application has as
  many turns as lines are left, and one more; when no line is left, \<open>getline\<close> leaves its new buffer
  uninitialised, and the command read from it is undefined behaviour, which ends the run. The loop of
  the servent runs on the readings of the clock it is given, one for each turn; where they run out
  \<open>run_server\<close> gives \<open>Diverges\<close>, which stands for a servent that still runs.

  \<^bold>\<open>Abstractions.\<close> Calls of \<open>applog\<close> whose only effect is output are left out of the other theories; those
  that misbehave or print without the log are kept. \<open>malloc\<close> succeeds; \<open>free\<close> is modelled where the
  memory is read again afterwards. A write to a file that could be opened succeeds; \<open>fork\<close> fails or
  gives a child, and the child that searches the directory opens it, makes it or dies; the search directory
  holds regular files. SIGINT arrives between two turns; it is a step of the states a servent
  reaches (\<open>reachable\<close>, \<open>onward\<close>), not of \<open>loop\<close>. Nothing waits: what has not arrived at a \<open>read\<close> is the
  end of the stream. Numbers keep their C width where the code
  depends on it (bytes, ports, \<open>int\<close> in \<open>int_to_cstring\<close>, the length of a file), and the counters that
  stay small are \<open>int\<close>.

  \<^bold>\<open>Not modelled.\<close> Frees of buffers a function has allocated itself and that are not used again, such as
  a packet that was sent; the build files; how long calls wait.
\<close>

section \<open>The application and its servent\<close>

text \<open>
  C3. The command \<open>search f\<close> of the user application reaches the servent: what the application
  writes, the servent reads as the request to search \<open>f\<close>, spaces in the name included, and queues
  behind the requests that wait.
\<close>

theorem search_reaches_servent:
  assumes "name \<noteq> []" and "wf_lstr name" and "wx c (server_socket c) = []"
    and "handle_command (SEARCH_COMMAND @ SPACE # name) c = (r, d)" and "evs d = evs c @ es"
    and "ready (client_socket s) s" and "avail (client_socket s) s = sent (server_socket c) es @ rest"
    and "repr (pending_requests s) rs" and "create (pending_requests s) = add_new_request"
  shows "r = Inr () \<and> (\<exists>u. handle_client s = (Inr 0, u) \<and> avail (client_socket s) u = rest \<and>
    repr (pending_requests u) (rs @ [REQUEST_SEARCH_LOCAL name]))"
proof -
  have "r = Inr ()" "es = [Wrote (server_socket c) (encode (PIntSearch name))]"
    using search_command_sent [of name c] assms(1-5) by (auto simp: after_command_def wf_lstr_def)
  then show ?thesis
    using client_search_queued [OF assms(6) _ assms(2,8,9)] assms(7) by simp
qed

definition fed_servent :: "int \<Rightarrow> byte list \<Rightarrow> server_t" where
  "fed_servent fd bs = sample_servent\<lparr>script := (\<lambda>_. [])(Poll fd := [1]), rx := (\<lambda>_. [])(fd := [Chunk bs])\<rparr>"

lemma fed_facts:
  "ready fd (fed_servent fd bs)" "client_socket (fed_servent fd bs) = 4" "wx (fed_servent fd bs) k = []"
  "repr (pending_requests (fed_servent fd bs)) []" "create (pending_requests (fed_servent fd bs)) = add_new_request"
  "bs \<noteq> [] \<Longrightarrow> avail fd (fed_servent fd bs) = bs" "opens (fed_servent fd bs)" "forks (fed_servent fd bs)"
  "neighbours (fed_servent fd bs) = neighbours sample_servent" "evs (fed_servent fd bs) = []"
  by (simp_all add: fed_servent_def ready_def opens_def forks_def) (simp add: sample_servent_def list_create_def)

theorem search_reaches_servent_witness:
  "\<exists>u. handle_client (fed_servent 4 (encode (PIntSearch (cs ''song'')))) = (Inr 0, u) \<and>
     repr (pending_requests u) [REQUEST_SEARCH_LOCAL (cs ''song'')]"
proof -
  let ?s = "fed_servent 4 (encode (PIntSearch (cs ''song'')))"
  let ?es = "[Wrote 4 (encode (PIntSearch (cs ''song'')))]"
  have n: "cs ''song'' \<noteq> []" by (simp add: cs_def)
  then have c: "handle_command (SEARCH_COMMAND @ SPACE # cs ''song'') sample_client =
      (Inr (), after_command 4 (encode (PIntSearch (cs ''song''))) sample_client)"
    using search_command_sent [of "cs ''song''" sample_client] by simp
  have "evs (after_command 4 (encode (PIntSearch (cs ''song''))) sample_client) = evs sample_client @ ?es"
    by (simp add: after_command_def)
  from search_reaches_servent [OF n _ _ c this, where s = ?s and rest = "[]" and rs = "[]"] show ?thesis
    using fed_facts [where fd = 4 and bs = "encode (PIntSearch (cs ''song''))"] by auto
qed

text \<open>
  C5. The command \<open>download ip port f\<close> reaches the servent in the same way, with its three parts.
\<close>

theorem download_reaches_servent:
  assumes "wf_lstr ip" and "ip \<noteq> []" and "SPACE \<notin> set ip"
    and "wf_lstr port" and "port \<noteq> []" and "SPACE \<notin> set port"
    and "wf_lstr name" and "name \<noteq> []" and "wx c (server_socket c) = []"
    and "handle_command (DOWNLOAD_COMMAND @ SPACE # ip @ SPACE # port @ SPACE # name) c = (r, d)"
    and "evs d = evs c @ es"
    and "ready (client_socket s) s" and "avail (client_socket s) s = sent (server_socket c) es @ rest"
    and "repr (pending_requests s) rs" and "create (pending_requests s) = add_new_request"
  shows "r = Inr () \<and> (\<exists>u. handle_client s = (Inr 0, u) \<and> avail (client_socket s) u = rest \<and>
    repr (pending_requests u) (rs @ [REQUEST_DOWNLOAD_LOCAL \<lparr>dl_ip = ip, dl_port = port, dl_filename = name\<rparr>]))"
proof -
  have "r = Inr ()" "es = [Wrote (server_socket c) (encode (PIntDownload ip port name))]"
    using download_command_sent [OF assms(1-9)] assms(10,11) by (auto simp: after_command_def)
  then show ?thesis
    using client_download_queued [OF assms(12) _ assms(1,4,7,14,15)] assms(13) by simp
qed

theorem download_reaches_servent_witness:
  "\<exists>u. handle_client (fed_servent 4 (encode (PIntDownload (cs ''10.0.0.4'') (cs ''2000'') (cs ''film'')))) = (Inr 0, u) \<and>
     repr (pending_requests u) [REQUEST_DOWNLOAD_LOCAL sample_download]"
proof -
  let ?pk = "PIntDownload (cs ''10.0.0.4'') (cs ''2000'') (cs ''film'')"
  let ?s = "fed_servent 4 (encode ?pk)"
  have w: "cs ''10.0.0.4'' \<noteq> []" "SPACE \<notin> set (cs ''10.0.0.4'')" "cs ''2000'' \<noteq> []" "SPACE \<notin> set (cs ''2000'')"
    "cs ''film'' \<noteq> []" by (simp_all add: cs_def SPACE_def)
  then have c: "handle_command (DOWNLOAD_COMMAND @ SPACE # cs ''10.0.0.4'' @ SPACE # cs ''2000'' @ SPACE # cs ''film'')
      sample_client = (Inr (), after_command 4 (encode ?pk) sample_client)"
    using download_command_sent [of "cs ''10.0.0.4''" "cs ''2000''" "cs ''film''" sample_client] by simp
  have "evs (after_command 4 (encode ?pk) sample_client) = evs sample_client @ [Wrote 4 (encode ?pk)]"
    by (simp add: after_command_def)
  from download_reaches_servent [OF _ w(1,2) _ w(3,4) _ w(5) _ c this, where s = ?s and rest = "[]" and rs = "[]"] show ?thesis
    using fed_facts [where fd = 4 and bs = "encode ?pk"] by (auto simp: sample_download_def)
qed

text \<open>
  C28. The application and its servent agree on the handshake: where each reads what the other
  writes, both succeed, and the servent has the socket of the application as its client.
\<close>

theorem handshake_agrees:
  assumes "wx c (server_socket c) = []" and "client_handshake c = (rc, c')" and "evs c' = evs c @ ec"
    and "handshake_flag s \<noteq> 1" and "wx s sk = []" and "handshake sk s = (rs, s')" and "evs s' = evs s @ es"
    and "avail sk s = sent (server_socket c) ec @ x" and "avail (server_socket c) c = sent sk es @ y"
  shows "rc = Inr 0 \<and> rs = Inr HANDSHAKE_OK \<and> handshake_flag s' = 1 \<and> client_socket s' = sk"
proof -
  obtain v t where c: "client_handshake c = (Inr v, t)"
    "evs t = evs c @ [Wrote (server_socket c) [CMSG_INT_HANDSHAKE]]"
    "avail (server_socket c) c = SMSG_INT_HANDSHAKE # y \<Longrightarrow> v = 0"
    using client_handshake_sends [OF assms(1), where y = y] by blast
  then have "ec = [Wrote (server_socket c) [CMSG_INT_HANDSHAKE]]" using assms(2,3) by simp
  then have a: "avail sk (s\<lparr>client_socket := sk\<rparr>) = CMSG_INT_HANDSHAKE # x" using assms(8) by simp
  have h: "handshake sk s = (Inr HANDSHAKE_OK, (skip_rx sk 1 (s\<lparr>client_socket := sk\<rparr>))
      \<lparr>evs := evs s @ [Wrote sk [SMSG_INT_HANDSHAKE]], handshake_flag := 1\<rparr>)"
    using assms(4,5) read_u8_avail [OF a] by (simp add: handshake_def bnd_run seq_run write_to_fd_free)
  then have "es = [Wrote sk [SMSG_INT_HANDSHAKE]]" using assms(6,7) by auto
  then have "v = 0" using c(3) assms(9) by simp
  then show ?thesis using c(1) h assms(2,6) by (auto simp: skip_rx_def)
qed

theorem handshake_agrees_witness:
  "fst (client_handshake (sample_client\<lparr>rx := (\<lambda>_. [])(4 := [Chunk [SMSG_INT_HANDSHAKE]])\<rparr>)) = Inr 0 \<and>
   fst (handshake 9 ((fed_servent 9 [CMSG_INT_HANDSHAKE])\<lparr>handshake_flag := 0\<rparr>)) = Inr HANDSHAKE_OK"
proof -
  let ?c = "sample_client\<lparr>rx := (\<lambda>_. [])(4 := [Chunk [SMSG_INT_HANDSHAKE]])\<rparr>"
  let ?s = "(fed_servent 9 [CMSG_INT_HANDSHAKE])\<lparr>handshake_flag := 0\<rparr>"
  have f: "server_socket ?c = 4" "wx ?c 4 = []" "avail 4 ?c = [SMSG_INT_HANDSHAKE]" by simp_all
  obtain v t where c: "client_handshake ?c = (Inr v, t)" "evs t = evs ?c @ [Wrote 4 [CMSG_INT_HANDSHAKE]]"
    using client_handshake_sends [where c = ?c and y = "[]", unfolded f(1)] f(2) by blast
  have s: "wx ?s 9 = []" "handshake_flag ?s \<noteq> 1" "avail 9 ?s = [CMSG_INT_HANDSHAKE]"
    by (simp_all add: fed_servent_def)
  have a: "avail 9 (?s\<lparr>client_socket := 9\<rparr>) = CMSG_INT_HANDSHAKE # []" using s(3) by simp
  have h: "handshake 9 ?s = (Inr HANDSHAKE_OK, (skip_rx 9 1 (?s\<lparr>client_socket := 9\<rparr>))
      \<lparr>evs := evs ?s @ [Wrote 9 [SMSG_INT_HANDSHAKE]], handshake_flag := 1\<rparr>)"
    using s(1,2) read_u8_avail [OF a] by (simp add: handshake_def bnd_run seq_run write_to_fd_free)
  show ?thesis
    using handshake_agrees [OF _ c(1) _ s(2,1) h, where ec = "[Wrote 4 [CMSG_INT_HANDSHAKE]]" and
        es = "[Wrote 9 [SMSG_INT_HANDSHAKE]]" and x = "[]" and y = "[]"]
      c h f s(3) by simp
qed

text \<open>The two processes, as far as their \<open>run_\<close> functions.\<close>

lemma runs_meet:
  assumes "attempt_connect_to 3 (cs ''127.0.0.1'') (case port of None \<Rightarrow> cs ''10001'' | Some p \<Rightarrow> p) 1 c = (Inr (0, Some kc), c1)"
    and "wx c1 kc = []" and "avail kc c1 = SMSG_INT_HANDSHAKE # y" and "script c1 (Poll kc) = []"
    and "list_all idle_line lines" and "stdin_lines c1 = lines @ (EXIT_COMMAND @ newline) # later"
    and "run_client port c = (rc, c')" and "evs c' = evs c1 @ es"
    and "create_listening_socket (case lp of None \<Rightarrow> SERVER_LISTEN_PORT | Some p \<Rightarrow> p) (init_server s0) = (Inr ls, s)"
    and "0 < ls" and "0 < k" and "k \<noteq> ls" and "loop_flag s0 = 1" and "wx s0 k = []"
    and "peername s0 k = Inet (cs ''127.0.0.1'') p" and "avail k s0 = sent kc es @ rest"
    and "script s (Poll ls) = replicate waiting 0 @ [1]" and "script s (Revents ls) = replicate waiting 0 @ [1]"
    and "script s (AcceptCall ls) = [k]" and "script s (Poll 0) = []" and "script s (Poll k) = replicate (Suc working) 0 @ [1]"
    and "waiting + working + 2 \<le> length clock"
    and "run_server clock True lp contact_ip contact_port s0 = (rs, t)" and "evs t = evs s @ fs"
  shows "rc = Inr 0 \<and> rs = Inr 0 \<and> Closed kc \<in> set es \<and> {Closed ls, Closed k} \<subseteq> set fs \<and> avail kc c1 = sent k fs @ y"
proof -
  obtain es' where c: "rc = Inr 0" "es = es' @ [Closed kc]" "sent kc es' = CMSG_INT_HANDSHAKE # encode PIntExit"
    using application_session [OF assms(1-6)] assms(7,8) by auto
  have a: "avail k s0 = CMSG_INT_HANDSHAKE # encode PIntExit @ rest" using assms(16) c(2,3) by simp
  have "cs ''127.0.0.1'' \<in> local_names" by (simp add: local_names_def)
  from servent_run [OF assms(9-14) disjI1 [OF assms(15)] this a assms(17-22), of contact_ip contact_port] obtain ds1 ds2 where
    s: "rs = Inr 0" "fs = map Slept ds1 @ Wrote k [SMSG_INT_HANDSHAKE] # map Slept ds2 @ [Closed ls, Closed k]"
    using assms(23,24) by auto
  have "sent k (map Slept ds) = []" for ds by (induction ds) simp_all
  then have "sent k fs = [SMSG_INT_HANDSHAKE]" by (simp add: s(2))
  then show ?thesis using c(1,2) s assms(3) by simp
qed

text \<open>
  C11. The program on the first machine of a network, \<open>main\<close> from the command line to the exit of both
  processes: with options the servent accepts, and neither \<open>-h\<close> nor \<open>--help\<close> among them, the program
  forks, the application reaches its servent, the user types empty lines or asks for help and then
  exits, and the servent, which reads what the application writes, ends as well. \<open>main\<close> returns
  \<open>EXIT_SUCCESS\<close> in both processes, each has closed its ends, the application has waited for the
  servent, and what the servent has sent is what the application has read. The servent sees one
  connection, that of the application, after some quiet turns; after some more the word to exit.
\<close>

theorem program_session:
  assumes "argv \<noteq> []" and "\<not> list_ex is_help argv" and "0 \<le> fork_result c" and "c0 = after_fork c"
    and "list_all no_redirect argv" and "\<And>v. is_listen v \<Longrightarrow> \<not> pton4 v \<and> \<not> pton6 v"
    and "infos = server_argv pton4 pton6 argv" and "sa_error infos = None" and "sa_first_machine infos \<noteq> 0"
    and "port = (case sa_listen_port infos of None \<Rightarrow> SERVER_LISTEN_PORT | Some p \<Rightarrow> p)"
    and "attempt_connect_to 3 (cs ''127.0.0.1'') port 1 c0 = (Inr (0, Some kc), c1)"
    and "wx c1 kc = []" and "avail kc c1 = SMSG_INT_HANDSHAKE # y" and "script c1 (Poll kc) = []"
    and "list_all idle_line lines" and "stdin_lines c1 = lines @ (EXIT_COMMAND @ newline) # later"
    and "create_listening_socket port (init_server s0) = (Inr ls, s)"
    and "0 < ls" and "0 < k" and "k \<noteq> ls" and "loop_flag s0 = 1" and "wx s0 k = []"
    and "peername s0 k = Inet (cs ''127.0.0.1'') p" and "avail k s0 = sent kc es @ rest"
    and "script s (Poll ls) = replicate waiting 0 @ [1]" and "script s (Revents ls) = replicate waiting 0 @ [1]"
    and "script s (AcceptCall ls) = [k]" and "script s (Poll 0) = []" and "script s (Poll k) = replicate (Suc working) 0 @ [1]"
    and "waiting + working + 2 \<le> length clock"
    and "main_program clock pton4 pton6 argv c s0 = ((rc, c'), Some (rs, t))"
    and "evs c' = evs c1 @ es" and "evs t = evs s @ fs"
  shows "rc = Inr 0 \<and> rs = Inr 0 \<and> {Closed kc, WaitedServer} \<subseteq> set es \<and> {Closed ls, Closed k} \<subseteq> set fs \<and>
    avail kc c1 = sent k fs @ y"
proof -
  have ap: "main_application pton4 pton6 argv c0 = (rc, c')" and sv: "main_servent clock pton4 pton6 argv s0 = (rs, t)"
    using assms(1-4,31) by (simp_all add: main_program_def main_boot_cases)
  have none: "sa_error (server_argv pton4 pton6 argv) = None" using assms(7,8) by simp
  note run = processes_run [OF assms(5,6) none, folded assms(7)]
  have port: "port = (case sa_listen_port infos of None \<Rightarrow> cs ''10001'' | Some p \<Rightarrow> p)"
    unfolding assms(10) SERVER_LISTEN_PORT_def ..
  obtain u es' where u: "run_client (sa_listen_port infos) c0 = (Inr 0, u)" "evs u = evs c1 @ es'"
    using application_session [OF assms(11) [unfolded port] assms(12-16)] by auto
  have app: "rc = Inr 0" "es = es' @ [WaitedServer]"
    using ap assms(32) u by (auto simp: run(2) bnd_run seq_run emit_run)
  then have "avail k s0 = sent kc es' @ rest" using assms(24) by simp
  note meet = runs_meet [OF assms(11) [unfolded port] assms(12-16) u assms(17) [unfolded assms(10)] assms(18-23) this assms(25-30)]
  have "run_server clock True (sa_listen_port infos) (sa_contact_ip infos) (sa_contact_port infos) s0 = (rs, t)"
    using assms(9) sv by (simp add: run(1))
  from meet [OF this assms(33)] show ?thesis using app by auto
qed

definition brief_client :: client_t where
  "brief_client = sample_client\<lparr>script := (\<lambda>_. [])(SocketCall := [4], ConnectCall := [0]),
     rx := (\<lambda>_. [])(4 := [Chunk [SMSG_INT_HANDSHAKE]]), stdin_lines := [newline, HELP_COMMAND @ newline, EXIT_COMMAND @ newline]\<rparr>"

theorem program_session_witness:
  "\<exists>c' t. main_program (replicate 4 ((7, 0), (7, 10000000))) (\<lambda>_. False) (\<lambda>_. False)
     [cs ''network'', cs ''-f'', cs ''-l'', cs ''10005''] brief_client brief_servent = ((Inr 0, c'), Some (Inr 0, t)) \<and>
     {Closed 4, WaitedServer} \<subseteq> set (evs c') \<and> {Closed 3, Closed 9} \<subseteq> set (evs t)"
proof -
  let ?argv = "[cs ''network'', cs ''-f'', cs ''-l'', cs ''10005'']"
  let ?none = "\<lambda>_ :: cstr. False"
  let ?c1 = "brief_client\<lparr>script := (script brief_client)(SocketCall := [], ConnectCall := [])\<rparr>"
  let ?s = "(init_server brief_servent)\<lparr>script := (script brief_servent)(SocketCall := [], SetsockoptCall := [], BindCall := [], ListenCall := [])\<rparr>"
  have a: "list_all no_redirect ?argv" "sa_error (server_argv ?none ?none ?argv) = None"
    "sa_first_machine (server_argv ?none ?none ?argv) = 1" "sa_listen_port (server_argv ?none ?none ?argv) = Some (cs ''10005'')"
    "sa_contact_ip (server_argv ?none ?none ?argv) = None" "sa_contact_port (server_argv ?none ?none ?argv) = None"
    "\<not> list_ex is_help ?argv" by code_simp+
  have fork: "fork_result brief_client = 1" "after_fork brief_client = brief_client"
    by (simp_all add: fork_result_def after_fork_def sys_def brief_client_def sample_client_def sample_os_def os.defs)
  have c: "attempt_connect_to 3 (cs ''127.0.0.1'') (cs ''10005'') 1 brief_client = (Inr (0, Some 4), ?c1)"
    by (simp add: numeral_3_eq_3 bnd_run connect_to_def connect_fuel_def connect_loop.simps sys_def brief_client_def
        sample_client_def sample_os_def os.defs cs_def)
  have c1: "wx ?c1 4 = []" "avail 4 ?c1 = SMSG_INT_HANDSHAKE # []" "script ?c1 (Poll 4) = []"
    "list_all idle_line [newline, HELP_COMMAND @ newline]"
    "stdin_lines ?c1 = [newline, HELP_COMMAND @ newline] @ (EXIT_COMMAND @ newline) # []"
    by (simp_all add: brief_client_def idle_line_def)
  obtain t es where run: "run_client (Some (cs ''10005'')) brief_client = (Inr 0, t)" "evs t = evs ?c1 @ es @ [Closed 4]"
    "sent 4 es = CMSG_INT_HANDSHAKE # encode PIntExit"
    using application_session [where port = "Some (cs ''10005'')" and c = brief_client, OF _ c1] c by auto
  have app: "main_application ?none ?none ?argv brief_client = (Inr 0, t\<lparr>evs := evs ?c1 @ es @ [Closed 4, WaitedServer]\<rparr>)"
    using run by (simp add: processes_run(2) [OF a(1) _ a(2)] a(4) bnd_run seq_run emit_run)
  have l: "create_listening_socket (cs ''10005'') (init_server brief_servent) = (Inr 3, ?s)"
    by (simp add: create_listening_socket_def connect_fuel_def listen_loop.simps bnd_run sys_def init_server_def
        brief_servent_def sample_servent_def)
  have f: "loop_flag brief_servent = 1" "wx brief_servent 9 = []" "peername brief_servent 9 = Inet (cs ''127.0.0.1'') 5000"
    "avail 9 brief_servent = sent 4 (es @ [Closed 4, WaitedServer]) @ []"
    "script ?s (Poll 3) = replicate 1 0 @ [1]" "script ?s (Revents 3) = replicate 1 0 @ [1]" "script ?s (AcceptCall 3) = [9]"
    "script ?s (Poll 0) = []" "script ?s (Poll 9) = replicate (Suc 1) 0 @ [1]"
    using run(3) by (simp_all add: brief_servent_def) (simp_all add: sample_servent_def)
  obtain ds1 ds2 u where srv: "run_server (replicate 4 ((7, 0), (7, 10000000))) True (Some (cs ''10005'')) None None brief_servent = (Inr 0, u)"
    "evs u = evs ?s @ map Slept ds1 @ Wrote 9 [SMSG_INT_HANDSHAKE] # map Slept ds2 @ [Closed 3, Closed 9]"
    using servent_run [of "Some (cs ''10005'')" brief_servent 3 ?s 9 "cs ''127.0.0.1''" 5000 "[]" 1 1 "replicate 4 ((7, 0), (7, 10000000))" None None]
      l f run(3) by (auto simp: local_names_def)
  have srvm: "main_servent (replicate 4 ((7, 0), (7, 10000000))) ?none ?none ?argv brief_servent = (Inr 0, u)"
    using srv(1) by (simp add: processes_run(1) [OF a(1) _ a(2)] a(3-6))
  have prog: "main_program (replicate 4 ((7, 0), (7, 10000000))) ?none ?none ?argv brief_client brief_servent =
      ((Inr 0, t\<lparr>evs := evs ?c1 @ es @ [Closed 4, WaitedServer]\<rparr>), Some (Inr 0, u))"
    using app srvm a(7) by (simp add: main_program_def main_boot_cases fork)
  have ec: "evs (t\<lparr>evs := evs ?c1 @ es @ [Closed 4, WaitedServer]\<rparr>) = evs ?c1 @ es @ [Closed 4, WaitedServer]" by simp
  have port: "cs ''10005'' = (case sa_listen_port (server_argv ?none ?none ?argv) of None \<Rightarrow> SERVER_LISTEN_PORT | Some p \<Rightarrow> p)"
    using a(4) by simp
  have fm: "sa_first_machine (server_argv ?none ?none ?argv) \<noteq> 0" using a(3) by simp
  have "0 \<le> fork_result brief_client" "?argv \<noteq> []" by (simp_all add: fork)
  from program_session [OF this(2) a(7) this(1) refl a(1) _ refl a(2) fm port _ c1 l _ _ _ f(1-9) _ prog ec srv(2)]
  show ?thesis using c fork prog srv(2) by auto
qed

section \<open>Between servents\<close>

text \<open>
  C4. A file one servent has arrives at another: what the owner sends in answer to the request, the
  other one stores under the name of the file in its search directory, over what it had there, and
  tells its client.
\<close>

theorem download_end_to_end:
  assumes "forks ow" and "has_entry ow f" and "map_of (files ow) (full_name f) = Some content"
    and "length content < 2 ^ 31" and "wf_lstr f" and "wx ow fd = []"
    and "answer_remote_download_request \<lparr>rdl_socket = fd, rdl_filename = f\<rparr> ow = (r, ow')"
    and "evs ow' = evs ow @ es"
    and "ready sk s" and "avail sk s = sent fd es @ rest" and "opens s" and "wx s (client_socket s) = []"
  shows "r = Inr () \<and> (\<exists>u. handle_pending_download sk s = (Inr 1, u) \<and> avail sk u = rest \<and>
    map_of (files u) (full_name f) = Some (overwrite
      (case map_of (files s) (full_name f) of None \<Rightarrow> [] | Some old \<Rightarrow> old) content) \<and>
    evs u = evs s @ [Wrote (client_socket s) (encode (PIntDownloadDone f))])"
proof -
  have "r = Inr ()" "es = [Wrote fd (encode (PDownloadFile f content)), Closed fd]"
    using answer_remote_download_found [OF assms(1-6)] assms(7,8) by (auto simp: answered_def)
  then show ?thesis
    using pending_download_stored [OF assms(9) _ assms(5) _ assms(11,12), of content rest] assms(4,10)
    by (auto simp: map_of_put_file simp del: encode.simps)
qed

theorem download_end_to_end_witness:
  "\<exists>u. handle_pending_download 9 ((fed_servent 9 (encode (PDownloadFile (cs ''song'') [1, 2, 3])))
       \<lparr>files := [(full_name (cs ''song''), [7, 7, 7, 7, 7])]\<rparr>) = (Inr 1, u) \<and>
     map_of (files u) (full_name (cs ''song'')) = Some [1, 2, 3, 7, 7]"
proof -
  let ?pk = "PDownloadFile (cs ''song'') [1, 2, 3]"
  let ?s = "(fed_servent 9 (encode ?pk))\<lparr>files := [(full_name (cs ''song''), [7, 7, 7, 7, 7])]\<rparr>"
  have m: "map_of (files sample_servent) (full_name (cs ''song'')) = Some [1, 2, 3]"
    by (simp add: sample_servent_def full_name_def SEARCH_DIRECTORY_def SLASH_def cs_def)
  have o: "answer_remote_download_request \<lparr>rdl_socket = 8, rdl_filename = cs ''song''\<rparr> sample_servent =
      (Inr (), answered 8 (encode ?pk) sample_servent)"
    using answer_remote_download_found [OF _ sample_entries(1) m] by simp
  have e: "evs (answered 8 (encode ?pk) sample_servent) = evs sample_servent @ [Wrote 8 (encode ?pk), Closed 8]"
    by (simp add: answered_def)
  have "ready 9 ?s" "avail 9 ?s = sent 8 [Wrote 8 (encode ?pk), Closed 8] @ []" "opens ?s" "wx ?s (client_socket ?s) = []"
    using fed_facts [where fd = 9 and bs = "encode ?pk"] by (simp_all add: ready_def opens_def del: encode.simps) simp
  from download_end_to_end [OF _ sample_entries(1) m _ _ _ o e this] show ?thesis
    by (auto simp: overwrite_def)
qed

text \<open>What a broadcast sends to one descriptor.\<close>

lemma sent_broadcast:
  "sent k (map (\<lambda>fd. Wrote fd bs) ts) = concat (map (\<lambda>_. bs) (filter (\<lambda>fd. fd = k) ts))"
  by (induction ts) auto

lemma after_search_servent:
  "neighbours_ok (after_search sk pk s) = neighbours_ok s" "listening_port (after_search sk pk s) = listening_port s"
  "forks (after_search sk pk s) = forks s" "has_entry (after_search sk pk s) f = has_entry s f"
  "answer_targets (after_search sk pk s) r = answer_targets (drop_junk 4 s) r"
  by (simp_all add: neighbours_ok_def listening_port_def has_entry_def entries_def answer_targets_def
      junk_sockets_def forks_def) (simp_all add: after_search_def drop_junk_def opened_def polled_def skip_rx_def add.commute)

text \<open>A servent that has the file answers the packet of a search in the same turn.\<close>

lemma search_answered_in_turn:
  assumes "sc_sock (neighbours b ! i) = kb" and "ready kb b"
    and "avail kb b = encode (PSearchRequest ipa pa f t []) @ rest" and "wf_lstr ipa" and "wf_lstr pa" and "wf_lstr f"
    and "repr (pending_requests b) []" and "create (pending_requests b) = add_new_request"
    and "forks b" and "neighbours_ok b" and "\<And>fd. wx b fd = []" and "has_entry b f"
    and "self_ip b = Live ip" and "length ip \<le> INET6_ADDRSTRLEN"
    and "listening_port b = Some port" and "ip \<noteq> ipa" and "repr (received_search_requests b) []"
  obtains b' where "seq (handle_neighbour i) handle_pending_requests b = (Inr (), b')"
    and "evs b' = evs b @ map (\<lambda>fd. Wrote fd (encode (PSearchAnswer f [(ip, port)])))
      (answer_targets (drop_junk 4 b) (received_search b ipa pa f t []))"
proof -
  let ?pk = "PSearchRequest ipa pa f t []" and ?r = "received_search b ipa pa f t []"
  obtain l where l: "handle_neighbour i b = (Inr 0, (after_search kb ?pk b)\<lparr>pending_requests := l\<rparr>)"
    "repr l ([] @ [REQUEST_SEARCH_REMOTE ?r])" "request_ok ?r"
    using neighbour_search_run [OF assms(1-6) _ assms(7,8)] by (auto simp: wf_machines_def)
  let ?u = "(after_search kb ?pk b)\<lparr>pending_requests := l\<rparr>"
  have rm: "machines_of ?r = []" "sr_filename ?r = f" "ip_source ?r = ipa" by (simp_all add: received_search_def)
  have u: "forks ?u" "neighbours_ok ?u" "wx ?u fd = []" "self_ip ?u = Live ip" "listening_port ?u = Some port"
    "repr (received_search_requests ?u) []" "has_entry ?u f" for fd
    using assms(9-13,15,17) after_search_servent [of kb ?pk b]
    by (simp_all add: forks_def neighbours_ok_def listening_port_def has_entry_def entries_def)
  have tg: "answer_targets ?u ?r = answer_targets (drop_junk 4 b) ?r"
    using after_search_servent(5) [of kb ?pk b ?r] by (simp add: answer_targets_def junk_sockets_def)
  let ?v = "after_broadcast (answer_targets ?u ?r) (encode (PSearchAnswer f [(ip, port)]))
    (drop_junk (4 * MAX_NEIGHBOURS) ?u)"
  have "answer_remote_search_request ?r ?u = (Inr (), ?v)"
    using answer_remote_search_correct [OF u(1,2,3,4) assms(14) u(5) _ u(6) l(3)] assms(16) rm u(7)
    by (simp add: search_answer_def del: encode.simps)
  then have all: "for_list [REQUEST_SEARCH_REMOTE ?r] handle_pending_request ?u = (Inr (), ?v)"
    by (simp add: handle_pending_request_def seq_run)
  have q: "repr (pending_requests ?u) [REQUEST_SEARCH_REMOTE ?r]" using l(2) by simp
  obtain l' where "handle_pending_requests ?u = (Inr (), ?v\<lparr>pending_requests := l'\<rparr>)"
    by (rule handle_pending_requests_run [OF q all])
  then show ?thesis
    using l(1) tg by (intro that [of "?v\<lparr>pending_requests := l'\<rparr>"])
      (simp_all add: seq_run after_broadcast_def drop_junk_def)
qed

lemma copies_sent:
  assumes "k \<in> set ts"
  obtains n where "sent k (map (\<lambda>fd. Wrote fd bs) ts) = bs @ concat (replicate n bs)"
proof -
  obtain m where "filter (\<lambda>fd. fd = k) ts = k # m" using assms by (cases "filter (\<lambda>fd. fd = k) ts")
    (auto simp: filter_empty_conv dest: filter_eq_ConsD)
  then have "sent k (map (\<lambda>fd. Wrote fd bs) ts) = bs @ concat (replicate (length m) bs)"
    by (simp add: sent_broadcast map_replicate_const)
  then show ?thesis by (rule that)
qed

text \<open>
  C2. A search comes back: where a servent that owns its address has the file a neighbour searches, it
  answers the packet of the search in the same turn with its own address, and the asker's end gets the
  answer if its slot lies within the first \<open>n\<close> ones, \<open>n\<close> being the number of neighbours that are not the
  recorded source (or if memory happens to hold its descriptor). The neighbour, whose fresh memory
  holds zeros, passes the answer on to its application, which learns that this servent has the file.
\<close>

theorem search_comes_back:
  assumes "sc_sock (neighbours b ! i) = kb" and "ready kb b"
    and "avail kb b = encode (PSearchRequest ipa pa f t []) @ rest" and "wf_lstr ipa" and "wf_lstr pa" and "wf_lstr f"
    and "repr (pending_requests b) []" and "create (pending_requests b) = add_new_request"
    and "forks b" and "neighbours_ok b" and "\<And>fd. wx b fd = []" and "has_entry b f"
    and "self_ip b = Live ip" and "length ip < INET6_ADDRSTRLEN" and "wf_lstr ip"
    and "listening_port b = Some port" and "ip \<noteq> ipa" and "repr (received_search_requests b) []"
    and "r = received_search b ipa pa f t []" and "n = length (filter (other (source_sock r)) (neighbours b))"
    and "kb \<in> set (map (\<lambda>k. if other (source_sock r) (neighbours b ! k) then sc_sock (neighbours b ! k)
      else junk_sockets (drop_junk 4 b) ! k) [0..<n])"
    and "seq (handle_neighbour i) handle_pending_requests b = (rb, b')" and "evs b' = evs b @ eb"
    and "sc_sock (neighbours a ! j) = ka" and "ready ka a" and "avail ka a = sent kb eb @ x"
    and "junk a = []" and "wx a (client_socket a) = []"
    and "handle_neighbour j a = (ra, a')" and "evs a' = evs a @ ea"
    and "knows (machines_by_files c) ks" and "ready (server_socket c) c"
    and "avail (server_socket c) c = sent (client_socket a) ea @ y"
  shows "rb = Inr () \<and> ra = Inr 0 \<and>
    (\<exists>c'. handle_servent c = (Inr (), c') \<and> knows (machines_by_files c') (learn f [(ip, port)] ks))"
proof -
  let ?ms = "[(ip, port)]"
  have p: "length port \<le> 5" "wf_lstr port" using listening_port_short [OF assms(16)] by auto
  then have ms: "wf_machines ?ms" "length (enc_machines ?ms) < length ?ms * 53"
    using assms(14,15) by (simp_all add: wf_machines_def wf_machine_def INET6_ADDRSTRLEN_def)
  obtain u where "seq (handle_neighbour i) handle_pending_requests b = (Inr (), u)"
    "evs u = evs b @ map (\<lambda>fd. Wrote fd (encode (PSearchAnswer f ?ms)))
      (answer_targets (drop_junk 4 b) (received_search b ipa pa f t []))"
    by (rule search_answered_in_turn [OF assms(1-13) less_imp_le [OF assms(14)] assms(16-18)])
  then have "rb = Inr ()" and eb: "eb = map (\<lambda>fd. Wrote fd (encode (PSearchAnswer f ?ms))) (answer_targets (drop_junk 4 b) r)"
    using assms(19,22,23) by auto
  have nd: "neighbours (drop_junk 4 b) = neighbours b" "neighbours_ok (drop_junk 4 b)"
    using assms(10) by (simp_all add: drop_junk_def neighbours_ok_def)
  have "kb \<in> set (answer_targets (drop_junk 4 b) r)"
    using assms(21) answer_targets_list [OF nd(2), of n r] assms(20) unfolding nd(1) by simp
  then obtain m where "sent kb eb = encode (PSearchAnswer f ?ms) @ concat (replicate m (encode (PSearchAnswer f ?ms)))"
    unfolding eb by (rule copies_sent)
  then have av: "avail ka a = encode (PSearchAnswer f ?ms) @ concat (replicate m (encode (PSearchAnswer f ?ms))) @ x"
    using assms(26) by simp
  have "handle_neighbour j a = (Inr 0, after_send (client_socket a) (encode (PIntSearchAnswer f ?ms))
      (skip_rx ka (length (tl (encode (PSearchAnswer f ?ms)))) (opened ka a)))"
    by (rule neighbour_answer_run [OF assms(24,25) av assms(6) ms(1) assms(27) ms(2) assms(28)])
  then have "ra = Inr 0" and "ea = [Wrote (client_socket a) (encode (PIntSearchAnswer f ?ms))]"
    using assms(29,30) by (auto simp: after_send_def)
  moreover from this have "avail (server_socket c) c = encode (PIntSearchAnswer f ?ms) @ y"
    using assms(33) by simp
  ultimately show ?thesis
    using servent_answer_run [OF assms(31,6) ms(1) assms(32)] \<open>rb = Inr ()\<close> by blast
qed

text \<open>The servent that is asked, the neighbour that has asked it, and the application of the neighbour.\<close>

definition owner_servent :: server_t where
  "owner_servent = fed_servent 6 (encode (PSearchRequest (cs ''10.0.0.4'') (cs ''4000'') (cs ''song'') 9 []))"

definition asker_servent :: server_t where
  "asker_servent = fed_servent 7 (encode (PSearchAnswer (cs ''song'') [(cs ''10.0.0.1'', cs ''2000'')]))"

definition asker_client :: client_t where
  "asker_client = sample_client\<lparr>script := (\<lambda>_. [])(Poll 4 := [1]),
     rx := (\<lambda>_. [])(4 := [Chunk (encode (PIntSearchAnswer (cs ''song'') [(cs ''10.0.0.1'', cs ''2000'')]))])\<rparr>"

theorem search_comes_back_witness:
  "\<exists>b a c ks. seq (handle_neighbour 0) handle_pending_requests owner_servent = (Inr (), b) \<and>
     avail 7 asker_servent = sent 6 (evs b) \<and> handle_neighbour 2 asker_servent = (Inr 0, a) \<and>
     avail 4 asker_client = sent 4 (evs a) \<and> handle_servent asker_client = (Inr (), c) \<and>
     knows (machines_by_files c) ks \<and> ks = [(cs ''song'', [(cs ''10.0.0.1'', cs ''2000'')])]"
proof -
  let ?ms = "[(cs ''10.0.0.1'', cs ''2000'')]"
  let ?pk = "PSearchRequest (cs ''10.0.0.4'') (cs ''4000'') (cs ''song'') 9 []"
  let ?r = "received_search owner_servent (cs ''10.0.0.4'') (cs ''4000'') (cs ''song'') 9 []"
  have w: "wf_lstr (cs ''4000'')" "wf_lstr (cs ''10.0.0.1'')" "cs ''10.0.0.1'' \<noteq> cs ''10.0.0.4''"
    "length (cs ''10.0.0.1'') < INET6_ADDRSTRLEN"
    by (simp_all add: wf_lstr_def cs_def INET6_ADDRSTRLEN_def)
  have b: "sc_sock (neighbours owner_servent ! 0) = 6" "neighbours_ok owner_servent" "self_ip owner_servent = Live (cs ''10.0.0.1'')"
    "listening_port owner_servent = Some (cs ''2000'')" "has_entry owner_servent (cs ''song'')"
    "repr (received_search_requests owner_servent) []"
    using sample_ok sample_port sample_entries(1)
    by (simp_all add: owner_servent_def fed_servent_def nb.frame_rx nb.frame_script listening_port_def has_entry_def entries_def)
      (simp_all add: sample_servent_def)
  have tg: "source_sock ?r = 0" "filter (other 0) (neighbours owner_servent) = filter (other 0) (neighbours sample_servent)"
    "length (filter (other 0) (neighbours sample_servent)) = 2" "other 0 (neighbours owner_servent ! 0)"
    by (simp_all add: owner_servent_def fed_servent_def sample_servent_def received_search_def int_of_bytes_def numeral_eq_Suc other_def)
  have k: "6 \<in> set (map (\<lambda>k. if other (source_sock ?r) (neighbours owner_servent ! k) then sc_sock (neighbours owner_servent ! k)
      else junk_sockets (drop_junk 4 owner_servent) ! k) [0..<length (filter (other (source_sock ?r)) (neighbours owner_servent))])"
    using tg b(1) by (simp add: upt_conv_Cons numeral_2_eq_2)
  have at: "answer_targets (drop_junk 4 owner_servent) ?r = [6, 0]"
    by (simp add: owner_servent_def fed_servent_def sample_servent_def answer_targets_def junk_sockets_def received_search_def
        drop_junk_def MAX_NEIGHBOURS_def int_of_bytes_def numeral_eq_Suc)
  note fb = fed_facts [where fd = 6 and bs = "encode ?pk", folded owner_servent_def]
  note fa = fed_facts [where fd = 7 and bs = "encode (PSearchAnswer (cs ''song'') ?ms)", folded asker_servent_def]
  have avb: "avail 6 owner_servent = encode ?pk @ []" using fb(6) by simp
  obtain b' where b': "seq (handle_neighbour 0) handle_pending_requests owner_servent = (Inr (), b')"
    "evs b' = evs owner_servent @ map (\<lambda>fd. Wrote fd (encode (PSearchAnswer (cs ''song'') ?ms))) (answer_targets (drop_junk 4 owner_servent) ?r)"
    by (rule search_answered_in_turn [OF b(1) fb(1) avb _ w(1) _ fb(4,5,8) b(2) fb(3) b(5,3) less_imp_le [OF w(4)] b(4) w(3) b(6)])
      simp_all
  have a: "sc_sock (neighbours asker_servent ! 2) = 7" "junk asker_servent = []" "wx asker_servent (client_socket asker_servent) = []"
    by (simp_all add: asker_servent_def fed_servent_def) (simp add: sample_servent_def)
  have ms: "wf_machines ?ms" "length (enc_machines ?ms) < length ?ms * 53"
    using w(2) by (simp_all add: wf_machines_def wf_machine_def)
  have ava: "avail 7 asker_servent = encode (PSearchAnswer (cs ''song'') ?ms) @ []" using fa(6) by simp
  note na = neighbour_answer_run [OF a(1) fa(1) ava wf_lstr_sample(1) ms(1) a(2) ms(2) a(3)]
  have sb: "avail 7 asker_servent = sent 6 (map (\<lambda>fd. Wrote fd (encode (PSearchAnswer (cs ''song'') ?ms)))
      (answer_targets (drop_junk 4 owner_servent) ?r)) @ []"
    using ava unfolding at by simp
  have ec: "evs (snd (handle_neighbour 2 asker_servent)) = evs asker_servent @ [Wrote 4 (encode (PIntSearchAnswer (cs ''song'') ?ms))]"
    unfolding na by (simp add: after_send_def fa(2) del: encode.simps)
  have c: "knows (machines_by_files asker_client) []" "ready (server_socket asker_client) asker_client"
    "avail (server_socket asker_client) asker_client =
      sent (client_socket asker_servent) [Wrote 4 (encode (PIntSearchAnswer (cs ''song'') ?ms))] @ []"
    by (simp_all add: asker_client_def ready_def fa(2) del: encode.simps)
  from search_comes_back [OF b(1) fb(1) avb _ w(1) _ fb(4,5,8) b(2) fb(3) b(5,3) w(4,2) b(4) w(3) b(6) refl refl k b'
      a(1) fa(1) sb a(2,3) na ec [unfolded na snd_conv] c] obtain c' where
    c': "handle_servent asker_client = (Inr (), c')" "knows (machines_by_files c') (learn (cs ''song'') ?ms [])" by auto
  have sent: "avail 7 asker_servent = sent 6 (evs b')" using sb b'(2) fb(10) by (simp del: encode.simps)
  obtain a' where a': "handle_neighbour 2 asker_servent = (Inr 0, a')" "evs a' = evs asker_servent @ [Wrote 4 (encode (PIntSearchAnswer (cs ''song'') ?ms))]"
    using na ec by (metis prod.collapse snd_conv)
  have "avail 4 asker_client = sent 4 (evs a')" using c(3) a'(2) fa(2,10) by (simp add: asker_client_def del: encode.simps)
  then show ?thesis using b'(1) sent a'(1) c' by auto
qed

end
